(* ===== verification/B2P_Prelude.thy ===== *)
theory B2P_Prelude
  imports Main "HOL-Library.Word" "HOL-Library.Sublist"
begin

text \<open>
  Shared vocabulary of the development: machine integers and byte strings, the error values
  that stand for \<^verbatim>\<open>anyhow::Error\<close> with its typed markers, the result type, the string
  operations of Rust's standard library that the sources use (on ASCII text), little-endian
  integer encodings, and the ordered index set that models \<^verbatim>\<open>BTreeSet<u64>\<close>.

  Conventions: \<open>u64\<close>, \<open>u32\<close>, \<open>u8\<close> are machine words with the wrap-around of a release
  build; lengths in memory (\<^verbatim>\<open>usize\<close>) are natural numbers; a panic of the source is the
  error value \<open>Panic\<close>.
\<close>

named_theorems u64_simps \<open>reading u64 expressions as natural numbers\<close>
named_theorems str_simps \<open>unfolding the string operations\<close>

section \<open>Types\<close>

type_synonym u8 = "8 word"
type_synonym u16 = "16 word"
type_synonym u32 = "32 word"
type_synonym u64 = "64 word"
type_synonym bytes = "u8 list"

text \<open>
  Error values. \<open>Msg\<close> is an error made from a message (\<^verbatim>\<open>anyhow!\<close>, \<^verbatim>\<open>bail!\<close>), \<open>Ctx\<close> an
  error with a context line on top, \<open>Io\<close> an error of the operating system, \<open>Panic\<close> a panic.
  The others are the marker types the callers look for with \<^verbatim>\<open>downcast_ref\<close>.
\<close>

datatype err =
    Msg string
  | Io string
  | Panic string
  | Ctx string err
  | CryptoError
  | TransportLost err
  | CodeMismatch
  | EstablishError err
  | WaitClosed string
  | RoomBusy

type_synonym 'a res = "err + 'a"

text \<open>
  \<^verbatim>\<open>downcast_ref\<close> looks through context lines, but not into the payload of another marker.
\<close>

fun is_TransportLost :: "err \<Rightarrow> bool" where
  "is_TransportLost (TransportLost _) = True"
| "is_TransportLost (Ctx _ e) = is_TransportLost e"
| "is_TransportLost _ = False"

fun is_CodeMismatch :: "err \<Rightarrow> bool" where
  "is_CodeMismatch CodeMismatch = True"
| "is_CodeMismatch (Ctx _ e) = is_CodeMismatch e"
| "is_CodeMismatch _ = False"

fun is_WaitClosed :: "err \<Rightarrow> bool" where
  "is_WaitClosed (WaitClosed _) = True"
| "is_WaitClosed (Ctx _ e) = is_WaitClosed e"
| "is_WaitClosed _ = False"

fun is_RoomBusy :: "err \<Rightarrow> bool" where
  "is_RoomBusy RoomBusy = True"
| "is_RoomBusy (Ctx _ e) = is_RoomBusy e"
| "is_RoomBusy _ = False"

fun the_EstablishError :: "err \<Rightarrow> err option" where
  "the_EstablishError (EstablishError e) = Some e"
| "the_EstablishError (Ctx _ e) = the_EstablishError e"
| "the_EstablishError _ = None"

section \<open>Results\<close>

definition bindR :: "'a res \<Rightarrow> ('a \<Rightarrow> 'b res) \<Rightarrow> 'b res" where
  "bindR r f = (case r of Inl e \<Rightarrow> Inl e | Inr v \<Rightarrow> f v)"

definition map_err :: "(err \<Rightarrow> err) \<Rightarrow> 'a res \<Rightarrow> 'a res" where
  "map_err g r = (case r of Inl e \<Rightarrow> Inl (g e) | Inr v \<Rightarrow> Inr v)"

definition context_of :: "string \<Rightarrow> 'a res \<Rightarrow> 'a res" where
  "context_of s = map_err (Ctx s)"

definition ok_or :: "err \<Rightarrow> 'a option \<Rightarrow> 'a res" where
  "ok_or e x = (case x of None \<Rightarrow> Inl e | Some v \<Rightarrow> Inr v)"

lemma bindR_simps [simp]:
  "bindR (Inl e) f = Inl e" "bindR (Inr v) f = f v"
  by (simp_all add: bindR_def)

lemma bindR_eq_Inr: "bindR r f = Inr y \<longleftrightarrow> (\<exists>v. r = Inr v \<and> f v = Inr y)"
  by (cases r) auto

lemma map_err_simps [simp]:
  "map_err g (Inl e) = Inl (g e)" "map_err g (Inr v) = Inr v"
  by (simp_all add: map_err_def)

lemma map_err_eq_Inr [simp]: "map_err g r = Inr v \<longleftrightarrow> r = Inr v"
  by (cases r) auto

lemma context_of_simps [simp]:
  "context_of s (Inl e) = Inl (Ctx s e)" "context_of s (Inr v) = Inr v"
  by (simp_all add: context_of_def)

lemma context_of_eq_Inr [simp]: "context_of s r = Inr v \<longleftrightarrow> r = Inr v"
  by (simp add: context_of_def)

lemma ok_or_simps [simp]: "ok_or e None = Inl e" "ok_or e (Some v) = Inr v"
  by (simp_all add: ok_or_def)

lemma ok_or_eq_Inr [simp]: "ok_or e x = Inr v \<longleftrightarrow> x = Some v"
  by (cases x) auto

section \<open>Strings\<close>

definition is_ws :: "char \<Rightarrow> bool" where
  "is_ws c = (let n = (of_char c :: nat) in n = 32 \<or> (9 \<le> n \<and> n \<le> 13))"

definition trim_start :: "string \<Rightarrow> string" where
  "trim_start s = dropWhile is_ws s"

definition trim_end_matches :: "(char \<Rightarrow> bool) \<Rightarrow> string \<Rightarrow> string" where
  "trim_end_matches P s = rev (dropWhile P (rev s))"

definition trim :: "string \<Rightarrow> string" where
  "trim s = trim_end_matches is_ws (trim_start s)"

definition strip_pre :: "string \<Rightarrow> string \<Rightarrow> string option" where
  "strip_pre p s = (if prefix p s then Some (drop (length p) s) else None)"

fun split_once :: "char \<Rightarrow> string \<Rightarrow> (string \<times> string) option" where
  "split_once c [] = None"
| "split_once c (x # xs) =
     (if x = c then Some ([], xs)
      else map_option (\<lambda>(a, b). (x # a, b)) (split_once c xs))"

fun split_char :: "char \<Rightarrow> string \<Rightarrow> string list" where
  "split_char c [] = [[]]"
| "split_char c (x # xs) =
     (if x = c then [] # split_char c xs
      else (case split_char c xs of [] \<Rightarrow> [[x]] | y # ys \<Rightarrow> (x # y) # ys))"

fun contains_str :: "string \<Rightarrow> string \<Rightarrow> bool" where
  "contains_str p [] = (p = [])"
| "contains_str p (x # xs) = (prefix p (x # xs) \<or> contains_str p xs)"

definition ascii_lower :: "char \<Rightarrow> char" where
  "ascii_lower c =
     (let n = (of_char c :: nat) in if 65 \<le> n \<and> n \<le> 90 then char_of (n + 32) else c)"

definition to_ascii_lowercase :: "string \<Rightarrow> string" where
  "to_ascii_lowercase s = map ascii_lower s"

definition eq_ignore_ascii_case :: "string \<Rightarrow> string \<Rightarrow> bool" where
  "eq_ignore_ascii_case a b = (to_ascii_lowercase a = to_ascii_lowercase b)"

definition is_digit :: "char \<Rightarrow> bool" where
  "is_digit c = (let n = (of_char c :: nat) in 48 \<le> n \<and> n \<le> 57)"

definition is_ascii_alphanumeric :: "char \<Rightarrow> bool" where
  "is_ascii_alphanumeric c =
     (let n = (of_char c :: nat)
      in (48 \<le> n \<and> n \<le> 57) \<or> (65 \<le> n \<and> n \<le> 90) \<or> (97 \<le> n \<and> n \<le> 122))"

definition digit_val :: "char \<Rightarrow> nat" where
  "digit_val c = (of_char c :: nat) - 48"

fun digits_val :: "nat \<Rightarrow> string \<Rightarrow> nat" where
  "digits_val acc [] = acc"
| "digits_val acc (c # cs) = digits_val (10 * acc + digit_val c) cs"

text \<open>\<^verbatim>\<open>str::parse::<u8>\<close>: an optional plus sign, at least one digit, a value below 256.\<close>

definition parse_u8 :: "string \<Rightarrow> u8 option" where
  "parse_u8 s =
     (let ds = (case s of c # cs \<Rightarrow> if c = CHR ''+'' then cs else s | [] \<Rightarrow> [])
      in if ds \<noteq> [] \<and> list_all is_digit ds \<and> digits_val 0 ds < 256
         then Some (of_nat (digits_val 0 ds)) else None)"

function show_nat :: "nat \<Rightarrow> string" where
  "show_nat n =
     (if n < 10 then [char_of (48 + n)] else show_nat (n div 10) @ [char_of (48 + n mod 10)])"
  by pat_completeness auto
termination
  by (relation "measure id") auto

declare show_nat.simps [simp del]

abbreviation show_u64 :: "u64 \<Rightarrow> string" where
  "show_u64 w \<equiv> show_nat (unat w)"

text \<open>The UTF-8 bytes of the dash the messages use.\<close>

definition em_dash :: string where
  "em_dash = [CHR 0xE2, CHR 0x80, CHR 0x94]"

definition str_bytes :: "string \<Rightarrow> bytes" where
  "str_bytes s = map (\<lambda>c. of_nat (of_char c)) s"

subsection \<open>Facts about the string operations\<close>

lemma trim_no_ws: "list_all (\<lambda>c. \<not> is_ws c) s \<Longrightarrow> trim s = s"
proof -
  assume a: "list_all (\<lambda>c. \<not> is_ws c) s"
  then have 1: "dropWhile is_ws s = s" by (cases s) auto
  from a have 2: "dropWhile is_ws (rev s) = rev s"
    by (cases "rev s") (auto simp: list_all_iff dest: arg_cong [where f = set])
  show ?thesis by (simp add: trim_def trim_start_def trim_end_matches_def 1 2)
qed

lemma strip_pre_append [simp]: "strip_pre p (p @ s) = Some s"
  by (simp add: strip_pre_def)

lemma strip_pre_Some: "strip_pre p s = Some r \<longleftrightarrow> s = p @ r"
  by (auto simp: strip_pre_def prefix_def split: if_splits)

lemma strip_pre_None: "strip_pre p s = None \<longleftrightarrow> \<not> prefix p s"
  by (simp add: strip_pre_def)

lemma split_once_append [simp]:
  "c \<notin> set a \<Longrightarrow> split_once c (a @ c # b) = Some (a, b)"
  by (induction a) auto

lemma split_once_None: "split_once c s = None \<longleftrightarrow> c \<notin> set s"
  by (induction s) auto

lemma split_once_Some:
  "split_once c s = Some (a, b) \<Longrightarrow> s = a @ c # b \<and> c \<notin> set a"
  by (induction s arbitrary: a) (auto split: if_splits)

lemma split_char_notin [simp]: "c \<notin> set s \<Longrightarrow> split_char c s = [s]"
  by (induction s) auto

lemma split_char_append [simp]:
  "c \<notin> set a \<Longrightarrow> split_char c (a @ c # b) = a # split_char c b"
  by (induction a) auto

lemma split_char_sound: "p \<in> set (split_char c s) \<Longrightarrow> c \<notin> set p"
  by (induction s arbitrary: p) (auto split: if_splits list.splits)

lemma contains_str_Nil [simp]: "contains_str [] s"
  by (cases s) auto

lemma contains_str_append: "contains_str p (a @ p @ b)"
proof (induction a)
  case Nil
  have "prefix p (p @ b)" by simp
  then show ?case by (cases "p @ b") (auto simp del: prefix_append)
next
  case (Cons x xs)
  then show ?case by simp
qed

lemma digits_val_append: "digits_val acc (xs @ ys) = digits_val (digits_val acc xs) ys"
  by (induction xs arbitrary: acc) auto

lemma of_char_char_of_small: "n < 256 \<Longrightarrow> (of_char (char_of n) :: nat) = n"
  by simp

lemma digit_char: "d < 10 \<Longrightarrow> is_digit (char_of (48 + d)) \<and> digit_val (char_of (48 + d)) = d"
  by (simp add: is_digit_def digit_val_def)

lemma show_nat_digits: "show_nat n \<noteq> [] \<and> list_all is_digit (show_nat n) \<and> digits_val 0 (show_nat n) = n"
proof (induction n rule: show_nat.induct)
  case (1 n)
  show ?case
  proof (cases "n < 10")
    case True
    then show ?thesis using digit_char [of n] by (simp add: show_nat.simps [of n])
  next
    case False
    have d: "n mod 10 < 10" by simp
    from False 1 have IH: "list_all is_digit (show_nat (n div 10))"
      "digits_val 0 (show_nat (n div 10)) = n div 10" by auto
    have "10 * (n div 10) + n mod 10 = n" by presburger
    then show ?thesis using False IH digit_char [OF d]
      by (simp add: show_nat.simps [of n] digits_val_append)
  qed
qed

lemma show_nat_nonempty [simp]: "show_nat n \<noteq> []"
  using show_nat_digits by blast

lemma show_nat_char: "c \<in> set (show_nat n) \<Longrightarrow> is_digit c"
  using show_nat_digits by (auto simp: list_all_iff)

lemma parse_u8_show: "parse_u8 (show_nat (unat (w :: u8))) = Some w"
proof -
  have lt: "unat w < 256" using unsigned_less [of w] by simp
  obtain c cs where s: "show_nat (unat w) = c # cs" by (cases "show_nat (unat w)") auto
  then have "is_digit c" using show_nat_char [of c "unat w"] by simp
  then have "c \<noteq> CHR ''+''" by (auto simp: is_digit_def)
  then show ?thesis using s lt show_nat_digits [of "unat w"]
    by (simp add: parse_u8_def Let_def)
qed

section \<open>Showing errors\<close>

definition code_mismatch_text :: string where
  "code_mismatch_text =
     ''the code didn't match '' @ em_dash @ '' double-check it, or another transfer may be using the same channel; try a fresh code''"

definition room_busy_text :: string where
  "room_busy_text =
     ''another connection is already using this code's room '' @ em_dash @ '' retry shortly or get a fresh code''"

text \<open>\<open>display_alt\<close> is \<^verbatim>\<open>{:#}\<close>, the whole chain; \<open>display_err\<close> is \<^verbatim>\<open>{}\<close>, the outermost line.\<close>

fun display_alt :: "err \<Rightarrow> string" where
  "display_alt (Msg s) = s"
| "display_alt (Io s) = s"
| "display_alt (Panic s) = s"
| "display_alt (Ctx s e) = s @ '': '' @ display_alt e"
| "display_alt CryptoError = ''decryption failed''"
| "display_alt (TransportLost e) = display_alt e"
| "display_alt CodeMismatch = code_mismatch_text"
| "display_alt (EstablishError e) = display_alt e"
| "display_alt (WaitClosed s) = ''the relay connection ended while waiting: '' @ s"
| "display_alt RoomBusy = room_busy_text"

definition display_err :: "err \<Rightarrow> string" where
  "display_err e = (case e of Ctx s _ \<Rightarrow> s | _ \<Rightarrow> display_alt e)"

section \<open>Little-endian encodings\<close>

fun le_of_nat :: "nat \<Rightarrow> nat \<Rightarrow> bytes" where
  "le_of_nat 0 v = []"
| "le_of_nat (Suc n) v = of_nat (v mod 256) # le_of_nat n (v div 256)"

fun nat_of_le :: "bytes \<Rightarrow> nat" where
  "nat_of_le [] = 0"
| "nat_of_le (b # bs) = unat b + 256 * nat_of_le bs"

definition u32_le_bytes :: "u32 \<Rightarrow> bytes" where
  "u32_le_bytes w = le_of_nat 4 (unat w)"

definition u64_le_bytes :: "u64 \<Rightarrow> bytes" where
  "u64_le_bytes w = le_of_nat 8 (unat w)"

definition u32_from_le :: "bytes \<Rightarrow> u32" where
  "u32_from_le bs = of_nat (nat_of_le bs)"

lemma length_le_of_nat [simp]: "length (le_of_nat n v) = n"
  by (induction n arbitrary: v) auto

lemma nat_of_le_of_nat: "v < 256 ^ n \<Longrightarrow> nat_of_le (le_of_nat n v) = v"
proof (induction n arbitrary: v)
  case 0
  then show ?case by simp
next
  case (Suc n)
  have "v div 256 < 256 ^ n" using Suc.prems by (simp add: less_mult_imp_div_less mult.commute)
  then have "nat_of_le (le_of_nat n (v div 256)) = v div 256" by (rule Suc.IH)
  moreover have "unat (of_nat (v mod 256) :: u8) = v mod 256"
    by (simp add: unat_of_nat)
  ultimately show ?case by simp
qed

lemma length_u32_le [simp]: "length (u32_le_bytes w) = 4"
  by (simp add: u32_le_bytes_def)

lemma length_u64_le [simp]: "length (u64_le_bytes w) = 8"
  by (simp add: u64_le_bytes_def)

lemma u32_from_le_bytes [simp]: "u32_from_le (u32_le_bytes w) = w"
proof -
  have "unat w < 256 ^ 4" using unsigned_less [of w] by simp
  then show ?thesis by (simp add: u32_from_le_def u32_le_bytes_def nat_of_le_of_nat)
qed

lemma nat_of_u64_le: "nat_of_le (u64_le_bytes a) = unat a"
proof -
  have "unat a < 2 ^ 64" using unsigned_less [of a] by simp
  then have "unat a < 256 ^ 8" by simp
  then show ?thesis unfolding u64_le_bytes_def by (rule nat_of_le_of_nat)
qed

lemma u64_le_bytes_inj: "u64_le_bytes a = u64_le_bytes b \<longleftrightarrow> a = b"
  by (metis nat_of_u64_le word_unat_eq_iff)

section \<open>u64 arithmetic\<close>

text \<open>\<^verbatim>\<open>u64::div_ceil\<close>: a panic on a zero divisor.\<close>

definition div_ceil :: "u64 \<Rightarrow> u64 \<Rightarrow> u64 res" where
  "div_ceil a b =
     (if b = 0 then Inl (Panic ''attempt to divide by zero'')
      else Inr (if a mod b > 0 then a div b + 1 else a div b))"

definition ceil_nat :: "nat \<Rightarrow> nat \<Rightarrow> nat" where
  "ceil_nat a b = (if a mod b > 0 then a div b + 1 else a div b)"

lemma unat_eq_mod [u64_simps]: "unat (a mod b :: u64) = unat a mod unat b"
  by (simp add: unat_mod)

lemma unat_eq_div [u64_simps]: "unat (a div b :: u64) = unat a div unat b"
  by (simp add: unat_div)

lemma u64_mod_pos: "(a mod b :: u64) > 0 \<longleftrightarrow> unat a mod unat b > 0"
  by (simp add: word_less_nat_alt unat_mod)

lemma unat_lt_u64: "unat (a :: u64) < 2 ^ 64"
  using unsigned_less [of a] by simp

lemma unat_Suc_div:
  assumes "(b :: u64) \<noteq> 0" and "unat a mod unat b > 0"
  shows "unat (a div b + 1) = unat a div unat b + 1"
proof -
  have "unat b > 1"
  proof (rule ccontr)
    assume "\<not> unat b > 1"
    then have "unat b = 0 \<or> unat b = 1" by auto
    then show False using assms by (auto simp: unat_eq_0)
  qed
  moreover have "unat a > 0" using assms by (auto intro: Nat.gr0I)
  ultimately have "unat a div unat b < unat a" by simp
  then have "unat a div unat b + 1 < 2 ^ 64" using unat_lt_u64 [of a] by linarith
  then show ?thesis by (simp add: unat_word_ariths unat_div)
qed

lemma div_ceil_nat:
  assumes "b \<noteq> 0"
  shows "\<exists>w. div_ceil a b = Inr w \<and> unat w = ceil_nat (unat a) (unat b)"
  using assms unat_Suc_div [OF assms, of a]
  by (auto simp: div_ceil_def ceil_nat_def u64_mod_pos unat_div)

lemma ceil_nat_bounds:
  assumes "b > 0"
  shows "a \<le> ceil_nat a b * b" and "i < ceil_nat a b \<Longrightarrow> i * b < a"
proof -
  have eq: "a = a div b * b + a mod b" by simp
  have m: "a mod b < b" using assms by simp
  show "a \<le> ceil_nat a b * b"
  proof (cases "a mod b > 0")
    case True
    then have "ceil_nat a b * b = a div b * b + b" by (simp add: ceil_nat_def)
    then show ?thesis using eq m by linarith
  next
    case False
    then have "ceil_nat a b * b = a div b * b" by (simp add: ceil_nat_def)
    then show ?thesis using eq False by linarith
  qed
  show "i * b < a" if "i < ceil_nat a b"
  proof (cases "a mod b > 0")
    case True
    with that have "i \<le> a div b" by (simp add: ceil_nat_def)
    then have "i * b \<le> a div b * b" by simp
    then show ?thesis using True eq by linarith
  next
    case False
    with that have "i < a div b" by (simp add: ceil_nat_def)
    then have "i * b < a div b * b" using assms by simp
    then show ?thesis using eq by linarith
  qed
qed

lemma ceil_nat_0 [simp]: "ceil_nat 0 b = 0"
  by (simp add: ceil_nat_def)

lemma ceil_nat_last:
  assumes "b > 0" and "a > 0"
  shows "ceil_nat a b > 0" and "(ceil_nat a b - 1) * b < a" and "a - (ceil_nat a b - 1) * b \<le> b"
proof -
  show pos: "ceil_nat a b > 0"
  proof (rule ccontr)
    assume "\<not> ceil_nat a b > 0"
    then show False using ceil_nat_bounds(1) [OF assms(1), of a] assms(2) by simp
  qed
  show "(ceil_nat a b - 1) * b < a" using pos ceil_nat_bounds(2) [OF assms(1), of "ceil_nat a b - 1" a] by simp
  have "a \<le> (ceil_nat a b - 1) * b + b"
    using ceil_nat_bounds(1) [OF assms(1), of a] pos by (cases "ceil_nat a b") auto
  then show "a - (ceil_nat a b - 1) * b \<le> b" by linarith
qed

abbreviation U64_MAX :: u64 where
  "U64_MAX \<equiv> 0xFFFFFFFFFFFFFFFF"

lemma unat_Suc_lt: "i < U64_MAX \<Longrightarrow> unat i + 1 < 2 ^ 64"
  by (simp add: word_less_nat_alt)

lemma unat_mult_u64: "unat a * unat b < 2 ^ 64 \<Longrightarrow> unat (a * b :: u64) = unat a * unat b"
  by (simp add: unat_word_ariths)

lemma unat_add_u64: "unat a + unat b < 2 ^ 64 \<Longrightarrow> unat (a + b :: u64) = unat a + unat b"
  by (simp add: unat_word_ariths)

lemma unat_sub_u64: "unat (b :: u64) \<le> unat a \<Longrightarrow> unat (a - b) = unat a - unat b"
  by (metis unat_sub word_le_nat_alt)

lemma unat_of_nat_u64: "n < 2 ^ 64 \<Longrightarrow> unat (of_nat n :: u64) = n"
  by (simp add: unat_of_nat)

lemma card_full: "A \<subseteq> {..<n :: nat} \<Longrightarrow> card A = n \<longleftrightarrow> (\<forall>i < n. i \<in> A)"
proof
  assume "A \<subseteq> {..<n}" and "card A = n"
  then have "A = {..<n}" using card_subset_eq [of "{..<n}" A] by simp
  then show "\<forall>i < n. i \<in> A" by blast
next
  assume "A \<subseteq> {..<n}" and "\<forall>i < n. i \<in> A"
  then have "A = {..<n}" by blast
  then show "card A = n" by (simp only: card_lessThan)
qed

section \<open>The ordered index set\<close>

text \<open>
  \<^verbatim>\<open>BTreeSet<u64>\<close> as its ascending sequence of elements: what \<^verbatim>\<open>iter()\<close> yields.
\<close>

type_synonym u64_set = "u64 list"

fun bt_insert :: "u64 \<Rightarrow> u64_set \<Rightarrow> u64_set" where
  "bt_insert x [] = [x]"
| "bt_insert x (y # ys) =
     (if x < y then x # y # ys else if x = y then y # ys else y # bt_insert x ys)"

definition ascending :: "u64_set \<Rightarrow> bool" where
  "ascending xs = sorted_wrt (<) xs"

locale index_set =
  fixes empty :: 's and insert :: "u64 \<Rightarrow> 's \<Rightarrow> 's" and iter :: "'s \<Rightarrow> u64 list"
    and invar :: "'s \<Rightarrow> bool"
  assumes empty_inv: "invar empty" and iter_empty: "iter empty = []"
    and insert_inv: "invar s \<Longrightarrow> invar (insert x s)"
    and set_insert: "invar s \<Longrightarrow> set (iter (insert x s)) = Set.insert x (set (iter s))"
    and iter_ascending: "invar s \<Longrightarrow> ascending (iter s)"
begin

lemma iter_distinct: "invar s \<Longrightarrow> distinct (iter s)"
  using iter_ascending strict_sorted_iff by (auto simp: ascending_def)

lemma size_iter: "invar s \<Longrightarrow> length (iter s) = card (set (iter s))"
  by (simp add: distinct_card iter_distinct)

lemma insert_mem: "invar s \<Longrightarrow> x \<in> set (iter s) \<Longrightarrow> iter (insert x s) = iter s"
proof -
  assume s: "invar s" and x: "x \<in> set (iter s)"
  have "set (iter (insert x s)) = set (iter s)" using set_insert [OF s, of x] x by auto
  then show ?thesis
    using strict_sorted_equal iter_ascending [OF s] iter_ascending [OF insert_inv [OF s, of x]]
    by (auto simp: ascending_def)
qed

lemma fold_insert:
  "invar s \<Longrightarrow> invar (fold insert xs s) \<and> set (iter (fold insert xs s)) = set xs \<union> set (iter s)"
  by (induction xs arbitrary: s) (auto simp: insert_inv set_insert)

end

lemma set_bt_insert [simp]: "set (bt_insert x xs) = Set.insert x (set xs)"
  by (induction xs) auto

lemma ascending_bt_insert: "ascending xs \<Longrightarrow> ascending (bt_insert x xs)"
  by (induction xs) (auto simp: ascending_def)

interpretation bt: index_set "[]" bt_insert id ascending
  by unfold_locales (auto intro: ascending_bt_insert, simp add: ascending_def)

end
