(* ===== verification/B2P_Words.thy ===== *)
theory B2P_Words
  imports B2P_Prelude
begin

text \<open>
  The frozen word list of the human code (src/src/words.rs) and its two look-ups. The list is
  written in two halves; \<open>index_of\<close> inverts \<open>word\<close> on every byte, so each code has one
  spelling and each spelling names one code.
\<close>

definition WORDS_lower :: "string list" where
  "WORDS_lower = [
    ''acorn'', ''actor'', ''album'', ''amber'', ''ankle'', ''apron'', ''arrow'', ''aspen'',
    ''atlas'', ''audio'', ''autumn'', ''bacon'', ''badger'', ''banjo'', ''barrel'', ''basil'',
    ''bishop'', ''bison'', ''branch'', ''brave'', ''bronze'', ''bucket'', ''buffalo'',
    ''cabin'', ''cactus'', ''candle'', ''canyon'', ''cargo'', ''carpet'', ''castle'',
    ''cellar'', ''chapel'', ''cherry'', ''chimney'', ''circus'', ''citrus'', ''clover'',
    ''coffee'', ''comet'', ''copper'', ''coral'', ''cottage'', ''cougar'', ''cricket'',
    ''crystal'', ''cymbal'', ''dahlia'', ''daisy'', ''decoy'', ''denim'', ''diesel'',
    ''domino'', ''donkey'', ''drummer'', ''eagle'', ''elbow'', ''emerald'', ''empire'',
    ''ethics'', ''fabric'', ''fennel'', ''ferry'', ''fiddle'', ''fjord'', ''flamingo'',
    ''flute'', ''forest'', ''fountain'', ''foxglove'', ''fresco'', ''gadget'', ''gallery'',
    ''gecko'', ''geyser'', ''giraffe'', ''glacier'', ''glimpse'', ''granite'', ''gravel'',
    ''guitar'', ''gumbo'', ''habitat'', ''hamlet'', ''hammer'', ''helmet'', ''hermit'',
    ''hornet'', ''hostel'', ''import'', ''insect'', ''ironic'', ''ivory'', ''jackal'',
    ''jaguar'', ''jasmine'', ''jester'', ''jigsaw'', ''jockey'', ''junior'', ''kayak'',
    ''ketchup'', ''kettle'', ''kimono'', ''kitchen'', ''koala'', ''lagoon'', ''lantern'',
    ''leopard'', ''lettuce'', ''lilac'', ''lizard'', ''llama'', ''locket'', ''locust'',
    ''lotus'', ''lumber'', ''mango'', ''maple'', ''marble'', ''meadow'', ''medal'', ''meteor'',
    ''mildew'', ''mirror'', ''mohair'', ''molten'', ''mustard'', ''nectar'']"

definition WORDS_upper :: "string list" where
  "WORDS_upper = [
    ''nephew'', ''nickel'', ''nomad'', ''noodle'', ''nostril'', ''nutmeg'', ''oatmeal'',
    ''octopus'', ''onion'', ''orchard'', ''orchid'', ''osprey'', ''otter'', ''outlaw'',
    ''oyster'', ''paddle'', ''pancake'', ''panda'', ''panther'', ''parrot'', ''parsley'',
    ''pebble'', ''pelican'', ''penguin'', ''pepper'', ''petal'', ''phantom'', ''pigeon'',
    ''pirate'', ''pistol'', ''plaza'', ''plume'', ''pollen'', ''poplar'', ''poppy'', ''potato'',
    ''powder'', ''pretzel'', ''prism'', ''pudding'', ''puppet'', ''python'', ''quiver'',
    ''rabbit'', ''radish'', ''rafter'', ''rainbow'', ''raven'', ''ravine'', ''rhino'',
    ''ribbon'', ''robin'', ''rooster'', ''rubber'', ''rudder'', ''saffron'', ''sandal'',
    ''sapphire'', ''satchel'', ''scarlet'', ''scholar'', ''serpent'', ''shadow'', ''shrimp'',
    ''signal'', ''silver'', ''slipper'', ''sonnet'', ''spinach'', ''sponge'', ''squid'',
    ''stadium'', ''stallion'', ''stingray'', ''stucco'', ''sulfur'', ''summit'', ''swallow'',
    ''sweater'', ''symbol'', ''tablet'', ''tadpole'', ''tangent'', ''tapestry'', ''temple'',
    ''tenant'', ''tepee'', ''thimble'', ''thorn'', ''timber'', ''tinsel'', ''tornado'',
    ''tortoise'', ''totem'', ''trolley'', ''trophy'', ''tundra'', ''turban'', ''turtle'',
    ''tuxedo'', ''ulcer'', ''upward'', ''urchin'', ''vacuum'', ''valley'', ''velvet'',
    ''vendor'', ''venom'', ''viking'', ''violet'', ''vortex'', ''waffle'', ''walrus'',
    ''warden'', ''wasabi'', ''whistle'', ''willow'', ''winter'', ''wombat'', ''xylophone'',
    ''yarn'', ''yeast'', ''yogurt'', ''zebra'', ''zephyr'', ''zigzag'', ''zodiac'', ''zombie'']"

definition WORDS :: "string list" where
  "WORDS = WORDS_lower @ WORDS_upper"

definition word_at :: "u8 \<Rightarrow> string" where
  "word_at index = WORDS ! unat index"

fun position :: "('a \<Rightarrow> bool) \<Rightarrow> 'a list \<Rightarrow> nat option" where
  "position P [] = None"
| "position P (x # xs) = (if P x then Some 0 else map_option Suc (position P xs))"

definition index_of :: "string \<Rightarrow> u8 option" where
  "index_of w = map_option of_nat (position (\<lambda>x. x = w) WORDS)"

section \<open>Facts\<close>

lemma position_nth:
  "distinct xs \<Longrightarrow> i < length xs \<Longrightarrow> position (\<lambda>x. x = xs ! i) xs = Some i"
proof (induction xs arbitrary: i)
  case Nil
  then show ?case by simp
next
  case (Cons x xs)
  then show ?case by (cases i) (auto simp: nth_eq_iff_index_eq)
qed

lemma position_Some: "position P xs = Some i \<Longrightarrow> i < length xs \<and> P (xs ! i)"
  by (induction xs arbitrary: i) (auto split: if_splits)

text \<open>The halves are strictly ascending, which gives distinctness in one linear pass.\<close>

fun str_less :: "string \<Rightarrow> string \<Rightarrow> bool" where
  "str_less [] [] = False"
| "str_less [] (y # ys) = True"
| "str_less (x # xs) [] = False"
| "str_less (x # xs) (y # ys) =
     ((of_char x :: nat) < of_char y \<or> (x = y \<and> str_less xs ys))"

fun str_ascending :: "string list \<Rightarrow> bool" where
  "str_ascending [] = True"
| "str_ascending [x] = True"
| "str_ascending (x # y # ys) = (str_less x y \<and> str_ascending (y # ys))"

lemma str_less_trans: "str_less x y \<Longrightarrow> str_less y z \<Longrightarrow> str_less x z"
proof (induction x y arbitrary: z rule: str_less.induct)
  case (4 x xs y ys)
  then show ?case by (cases z) auto
next
  case (2 y ys)
  then show ?case by (cases z) auto
qed auto

lemma str_less_irrefl: "\<not> str_less x x"
  by (induction x) auto

lemma str_ascending_less: "str_ascending (x # xs) \<Longrightarrow> y \<in> set xs \<Longrightarrow> str_less x y"
proof (induction xs arbitrary: x)
  case Nil
  then show ?case by simp
next
  case (Cons z zs)
  then show ?case by (auto intro: str_less_trans)
qed

lemma str_ascending_distinct: "str_ascending xs \<Longrightarrow> distinct xs"
proof (induction xs rule: str_ascending.induct)
  case (3 x y ys)
  then show ?case using str_ascending_less [of x "y # ys"] str_less_irrefl by fastforce
qed auto

lemma WORDS_length: "length WORDS = 256"
  by (simp add: WORDS_def WORDS_lower_def WORDS_upper_def)

lemma WORDS_ascending: "str_ascending WORDS"
  by code_simp

lemma WORDS_distinct: "distinct WORDS"
  by (rule str_ascending_distinct [OF WORDS_ascending])

lemma WORDS_lowercase: "list_all (list_all (\<lambda>c. 97 \<le> (of_char c :: nat) \<and> of_char c \<le> (122 :: nat))) WORDS"
  by code_simp

lemma index_of_word_at: "index_of (word_at i) = Some i"
proof -
  have lt: "unat i < length WORDS" using unsigned_less [of i] by (simp add: WORDS_length)
  show ?thesis
    by (simp add: index_of_def word_at_def position_nth [OF WORDS_distinct lt])
qed

lemma word_at_index_of: "index_of w = Some i \<Longrightarrow> word_at i = w"
proof -
  assume "index_of w = Some i"
  then obtain n where n: "position (\<lambda>x. x = w) WORDS = Some n" and i: "i = of_nat n"
    by (auto simp: index_of_def)
  from position_Some [OF n] have "n < 256" "WORDS ! n = w" by (auto simp: WORDS_length)
  then show ?thesis by (simp add: word_at_def i unat_of_nat)
qed

lemma word_at_chars: "c \<in> set (word_at i) \<Longrightarrow> 97 \<le> (of_char c :: nat) \<and> of_char c \<le> (122 :: nat)"
proof -
  assume c: "c \<in> set (word_at i)"
  have "unat i < length WORDS" using unsigned_less [of i] by (simp add: WORDS_length)
  then have "word_at i \<in> set WORDS" by (simp add: word_at_def)
  then show ?thesis using WORDS_lowercase c by (auto simp: list_all_iff)
qed

end
