(* ===== verification/B2P_Crypto.thy ===== *)
theory B2P_Crypto
  imports B2P_Prelude
begin

text \<open>
  Keys, nonces and authenticated encryption (src/src/crypto.rs). XChaCha20-Poly1305, BLAKE3 and
  base58 are third-party crates: they are fields of the record \<open>crypto_lib\<close>, an argument of
  every definition that calls them, and the predicates \<open>aead_correct\<close>, \<open>aead_tag16\<close>, \<open>derive_key_32\<close>,
  \<open>b58_correct\<close> and \<open>b58_strict\<close> name what is relied on. Random bytes are arguments.
\<close>

record crypto_lib =
  xchacha_encrypt :: "bytes \<Rightarrow> bytes \<Rightarrow> bytes \<Rightarrow> bytes \<Rightarrow> bytes"
    \<comment> \<open>key, nonce, associated data, message\<close>
  xchacha_decrypt :: "bytes \<Rightarrow> bytes \<Rightarrow> bytes \<Rightarrow> bytes \<Rightarrow> bytes option"
  blake3_derive_key :: "string \<Rightarrow> bytes \<Rightarrow> bytes"
  blake3_hash :: "bytes \<Rightarrow> bytes"
  blake3_hex :: "bytes \<Rightarrow> string"
  blake3_keyed_hash :: "bytes \<Rightarrow> bytes \<Rightarrow> bytes"
  b58_encode :: "bytes \<Rightarrow> string"
  b58_decode :: "string \<Rightarrow> bytes option"

definition aead_correct :: "'x crypto_lib_scheme \<Rightarrow> bool" where
  "aead_correct L \<longleftrightarrow> (\<forall>k n a m. xchacha_decrypt L k n a (xchacha_encrypt L k n a m) = Some m)"

text \<open>The authentication tag adds sixteen bytes.\<close>

definition aead_tag16 :: "'x crypto_lib_scheme \<Rightarrow> bool" where
  "aead_tag16 L \<longleftrightarrow> (\<forall>k n a m. length (xchacha_encrypt L k n a m) = length m + 16)"

text \<open>A derived key has 32 bytes.\<close>

definition derive_key_32 :: "'x crypto_lib_scheme \<Rightarrow> bool" where
  "derive_key_32 L \<longleftrightarrow> (\<forall>ctx k. length (blake3_derive_key L ctx k) = 32)"

definition b58_alphabet :: string where
  "b58_alphabet = ''123456789ABCDEFGHJKLMNPQRSTUVWXYZabcdefghijkmnopqrstuvwxyz''"

definition b58_correct :: "'x crypto_lib_scheme \<Rightarrow> bool" where
  "b58_correct L \<longleftrightarrow>
     (\<forall>b. b58_decode L (b58_encode L b) = Some b) \<and>
     (\<forall>b. b \<noteq> [] \<longrightarrow> b58_encode L b \<noteq> []) \<and>
     (\<forall>b. set (b58_encode L b) \<subseteq> set b58_alphabet)"

text \<open>The decoder takes texts of the alphabet only; a text is not much longer than what it encodes.\<close>

definition b58_strict :: "'x crypto_lib_scheme \<Rightarrow> bool" where
  "b58_strict L \<longleftrightarrow>
     (\<forall>s b. b58_decode L s = Some b \<longrightarrow> set s \<subseteq> set b58_alphabet \<and> length s \<le> 4 * length b)"

text \<open>
  The loop in which \<^verbatim>\<open>file_hash\<close> and both \<^verbatim>\<open>blake3_file\<close> read a file by buffers of one mebibyte. A hasher
  is the bytes it was fed: \<^verbatim>\<open>update\<close> appends, and \<^verbatim>\<open>finalize\<close> is the hash of them.
\<close>

definition HASH_BUF :: nat where
  "HASH_BUF = 1024 * 1024"

function hash_loop :: "'x crypto_lib_scheme \<Rightarrow> bytes \<Rightarrow> bytes \<Rightarrow> string" where
  "hash_loop L hasher rest =
     (let buf = take HASH_BUF rest in
      if buf = [] then blake3_hex L hasher
      else hash_loop L (hasher @ buf) (drop (length buf) rest))"
  by pat_completeness auto
termination by (relation "measure (\<lambda>(_, _, rest). length rest)") (auto simp: HASH_BUF_def)

declare hash_loop.simps [simp del]

lemma hash_loop_whole [simp]: "hash_loop L hasher rest = blake3_hex L (hasher @ rest)"
proof (induction L hasher rest rule: hash_loop.induct)
  case (1 L hasher rest)
  show ?case
  proof (cases "take HASH_BUF rest = []")
    case True
    then have "rest = []" by (simp add: HASH_BUF_def)
    then show ?thesis by (simp add: hash_loop.simps)
  next
    case False
    have "take HASH_BUF rest @ drop (length (take HASH_BUF rest)) rest = rest"
      by (metis append_eq_conv_conj append_take_drop_id)
    then show ?thesis using False 1 by (simp add: hash_loop.simps [of L hasher] Let_def)
  qed
qed

section \<open>The module\<close>

definition CHUNK_SIZE :: u64 where
  "CHUNK_SIZE = 4 * 1024 * 1024"

definition SECRET_LEN :: nat where
  "SECRET_LEN = 16"

definition CTX_AUTH :: string where
  "CTX_AUTH = ''b2p 2026-07-22 v1 auth''"

definition CTX_DATA :: string where
  "CTX_DATA = ''b2p 2026-07-22 v1 data''"

datatype domain = DManifest | DData | DCommit | StreamToReceiver | StreamToSender

fun domain_byte :: "domain \<Rightarrow> u8" where
  "domain_byte DManifest = 0x01"
| "domain_byte DData = 0x02"
| "domain_byte DCommit = 0x03"
| "domain_byte StreamToReceiver = 0x04"
| "domain_byte StreamToSender = 0x05"

type_synonym secret = bytes

definition secret_generate :: "(nat \<Rightarrow> bytes) \<Rightarrow> secret" where
  "secret_generate os_rng = os_rng SECRET_LEN"

definition to_base58 :: "'x crypto_lib_scheme \<Rightarrow> secret \<Rightarrow> string" where
  "to_base58 L s = b58_encode L s"

definition from_base58 :: "'x crypto_lib_scheme \<Rightarrow> string \<Rightarrow> secret res" where
  "from_base58 L s =
     bindR (ok_or (Msg ''base58 decode error'') (b58_decode L s)) (\<lambda>b.
       if length b = SECRET_LEN then Inr b
       else Inl (Msg (''secret must decode to '' @ show_nat SECRET_LEN @ '' bytes'')))"

definition auth_token :: "'x crypto_lib_scheme \<Rightarrow> secret \<Rightarrow> string" where
  "auth_token L s = b58_encode L (blake3_derive_key L CTX_AUTH s)"

definition data_key :: "'x crypto_lib_scheme \<Rightarrow> secret \<Rightarrow> bytes" where
  "data_key L s = blake3_derive_key L CTX_DATA s"

definition make_nonce :: "domain \<Rightarrow> u64 \<Rightarrow> bytes" where
  "make_nonce d index = take 16 ((replicate 24 0)[0 := domain_byte d]) @ u64_le_bytes index"

definition seal :: "'x crypto_lib_scheme \<Rightarrow> bytes \<Rightarrow> domain \<Rightarrow> u64 \<Rightarrow> bytes \<Rightarrow> bytes \<Rightarrow> bytes" where
  "seal L key d index aad plaintext = xchacha_encrypt L key (make_nonce d index) aad plaintext"

definition open_sealed :: "'x crypto_lib_scheme \<Rightarrow> bytes \<Rightarrow> domain \<Rightarrow> u64 \<Rightarrow> bytes \<Rightarrow> bytes \<Rightarrow> bytes res" where
  "open_sealed L key d index aad ciphertext =
     ok_or CryptoError (xchacha_decrypt L key (make_nonce d index) aad ciphertext)"

text \<open>The random nonce is the argument \<open>nonce\<close>, 24 bytes from the operating system.\<close>

definition seal_random :: "'x crypto_lib_scheme \<Rightarrow> bytes \<Rightarrow> bytes \<Rightarrow> bytes \<Rightarrow> bytes \<Rightarrow> bytes" where
  "seal_random L nonce key aad plaintext = nonce @ xchacha_encrypt L key nonce aad plaintext"

definition open_random :: "'x crypto_lib_scheme \<Rightarrow> bytes \<Rightarrow> bytes \<Rightarrow> bytes \<Rightarrow> bytes res" where
  "open_random L key aad ciphertext =
     (if length ciphertext < 24 then Inl CryptoError
      else ok_or CryptoError
             (xchacha_decrypt L key (take 24 ciphertext) aad (drop 24 ciphertext)))"

section \<open>Facts\<close>

lemma length_make_nonce: "length (make_nonce d i) = 24"
  by (simp add: make_nonce_def)

lemma domain_byte_inj: "domain_byte d = domain_byte d' \<longleftrightarrow> d = d'"
  by (cases d; cases d') simp_all

lemma make_nonce_shape: "make_nonce d i = domain_byte d # replicate 15 0 @ u64_le_bytes i"
proof -
  have "take 16 ((replicate 24 (0 :: u8))[0 := domain_byte d]) = domain_byte d # replicate 15 0"
    by (simp add: numeral_eq_Suc)
  then show ?thesis by (simp add: make_nonce_def)
qed

lemma make_nonce_inject: "make_nonce d i = make_nonce d' i' \<longleftrightarrow> d = d' \<and> i = i'"
  by (auto simp: make_nonce_shape domain_byte_inj u64_le_bytes_inj)

lemma open_seal: "aead_correct L \<Longrightarrow> open_sealed L k d i a (seal L k d i a m) = Inr m"
  by (simp add: open_sealed_def seal_def aead_correct_def)

lemma open_seal_random:
  "aead_correct L \<Longrightarrow> length nonce = 24 \<Longrightarrow> open_random L k a (seal_random L nonce k a m) = Inr m"
  by (simp add: open_random_def seal_random_def aead_correct_def)

lemma from_to_base58:
  "b58_correct L \<Longrightarrow> length s = SECRET_LEN \<Longrightarrow> from_base58 L (to_base58 L s) = Inr s"
  by (simp add: from_base58_def to_base58_def b58_correct_def)

lemma from_base58_length: "from_base58 L s = Inr b \<Longrightarrow> length b = SECRET_LEN"
  by (auto simp: from_base58_def bindR_eq_Inr split: if_splits)

end
