(* ===== verification/B2P_Codes.thy ===== *)
theory B2P_Codes
  imports B2P_Words B2P_Crypto
begin

text \<open>
  The codes a receiver shows and a sender types: the human and the URL spelling of the rendezvous
  code (src/src/rvcode.rs) and the tunnel code (src/src/code.rs). Random bytes are arguments;
  the \<^verbatim>\<open>url\<close> crate is the argument \<open>parse_url\<close>, yielding scheme and text of a URL.
\<close>

section \<open>Rendezvous codes (src/src/rvcode.rs)\<close>

definition TOPIC_CTX :: string where
  "TOPIC_CTX = ''b2p-v2-rendezvous-topic v1''"

datatype spelling = Human | Url

record rendezvous_code =
  rv_topic :: string
  rv_secret :: bytes
  rv_relay_host :: "string option"
  rv_spelling :: spelling

definition topic_from_channel :: "'x crypto_lib_scheme \<Rightarrow> u8 \<Rightarrow> string" where
  "topic_from_channel L channel =
     b58_encode L (take 16 (blake3_derive_key L TOPIC_CTX [channel]))"

definition is_rendezvous_code :: "string \<Rightarrow> bool" where
  "is_rendezvous_code s0 =
     (let s = trim s0 in
      if prefix ''b2p://'' s then True
      else
        let parts = split_char CHR ''-'' s in
        length parts = 3 \<and> parse_u8 (parts ! 0) \<noteq> None \<and>
        index_of (parts ! 1) \<noteq> None \<and> index_of (parts ! 2) \<noteq> None)"

definition host_char :: "char \<Rightarrow> bool" where
  "host_char c = (is_ascii_alphanumeric c \<or> c \<in> set ''.-:'')"

definition parse_url_code :: "'x crypto_lib_scheme \<Rightarrow> string \<Rightarrow> rendezvous_code res" where
  "parse_url_code L rest =
     bindR (ok_or (Msg ''b2p code must look like b2p://[host/]<topic>#<secret>'')
              (split_once CHR ''#'' rest)) (\<lambda>(addr, secret_b58).
     bindR (case split_once CHR ''/'' addr of
              Some (host, topic) \<Rightarrow>
                if host = [] \<or> \<not> list_all host_char host
                then Inl (Msg ''b2p code relay host contains invalid characters'')
                else Inr (Some host, topic)
            | None \<Rightarrow> Inr (None, addr)) (\<lambda>(relay_host, topic).
     if topic = [] then Inl (Msg ''b2p code has an empty topic'')
     else
       bindR (ok_or (Ctx ''b2p code topic is not valid base58'' (Msg ''base58 decode error''))
                (b58_decode L topic)) (\<lambda>topic_bytes.
       if length topic_bytes \<noteq> 16 then Inl (Msg ''b2p code topic must be 16 bytes (base58)'')
       else
         bindR (ok_or (Ctx ''b2p code secret is not valid base58'' (Msg ''base58 decode error''))
                  (b58_decode L secret_b58)) (\<lambda>secret.
         if length secret \<noteq> 16 \<and> length secret \<noteq> 3
         then Inl (Msg (''b2p code secret must be 16 bytes (or 3 for a human code) '' @ em_dash @
                        '' got '' @ show_nat (length secret)))
         else Inr \<lparr>rv_topic = topic, rv_secret = secret, rv_relay_host = relay_host,
                   rv_spelling = Url\<rparr>))))"

definition quoted :: "string \<Rightarrow> string" where
  "quoted s = [CHR 39] @ s @ [CHR 39]"

definition parse_human_code :: "'x crypto_lib_scheme \<Rightarrow> string \<Rightarrow> rendezvous_code res" where
  "parse_human_code L s =
     (let parts = split_char CHR ''-'' s in
      if length parts \<noteq> 3
      then Inl (Msg ''code must look like <channel>-<word>-<word> or b2p://<topic>#<secret>'')
      else
        bindR (ok_or (Ctx (''channel '' @ quoted (parts ! 0) @ '' must be a number 0-255'')
                         (Msg ''invalid digit'')) (parse_u8 (parts ! 0))) (\<lambda>channel.
        bindR (ok_or (Msg (quoted (parts ! 1) @ '' is not in the word list''))
                 (index_of (parts ! 1))) (\<lambda>i1.
        bindR (ok_or (Msg (quoted (parts ! 2) @ '' is not in the word list''))
                 (index_of (parts ! 2))) (\<lambda>i2.
        Inr \<lparr>rv_topic = topic_from_channel L channel, rv_secret = [channel, i1, i2],
             rv_relay_host = None, rv_spelling = Human\<rparr>))))"

definition parse_rendezvous :: "'x crypto_lib_scheme \<Rightarrow> string \<Rightarrow> rendezvous_code res" where
  "parse_rendezvous L s0 =
     (let s = trim s0 in
      case strip_pre ''b2p://'' s of
        Some rest \<Rightarrow> parse_url_code L rest
      | None \<Rightarrow> parse_human_code L s)"

definition generate_human :: "'x crypto_lib_scheme \<Rightarrow> u8 \<times> u8 \<times> u8 \<Rightarrow> rendezvous_code" where
  "generate_human L e =
     (case e of (e0, e1, e2) \<Rightarrow>
      \<lparr>rv_topic = topic_from_channel L e0, rv_secret = [e0, e1, e2], rv_relay_host = None,
       rv_spelling = Human\<rparr>)"

definition generate_url :: "'x crypto_lib_scheme \<Rightarrow> bytes \<Rightarrow> bytes \<Rightarrow> rendezvous_code" where
  "generate_url L topic secret =
     \<lparr>rv_topic = b58_encode L topic, rv_secret = secret, rv_relay_host = None, rv_spelling = Url\<rparr>"

definition url_spelling :: "'x crypto_lib_scheme \<Rightarrow> rendezvous_code \<Rightarrow> string option \<Rightarrow> string" where
  "url_spelling L code relay_host =
     (let host = (case relay_host of Some h \<Rightarrow> h @ ''/'' | None \<Rightarrow> []) in
      ''b2p://'' @ host @ rv_topic code @ ''#'' @ b58_encode L (rv_secret code))"

text \<open>Indexing a secret that is too short is a panic.\<close>

definition show_rendezvous :: "'x crypto_lib_scheme \<Rightarrow> rendezvous_code \<Rightarrow> string res" where
  "show_rendezvous L code =
     (case rv_spelling code of
        Human \<Rightarrow>
          (case rv_secret code of
             e0 # e1 # e2 # _ \<Rightarrow>
               Inr (show_nat (unat e0) @ ''-'' @ word_at e1 @ ''-'' @ word_at e2)
           | _ \<Rightarrow> Inl (Panic ''index out of bounds''))
      | Url \<Rightarrow> Inr (url_spelling L code (rv_relay_host code)))"

section \<open>Tunnel codes (src/src/code.rs)\<close>

record tunnel_code =
  tc_scheme :: string
  tc_base_url :: string
  tc_secret :: secret

definition code_parse ::
  "'x crypto_lib_scheme \<Rightarrow> (string \<Rightarrow> (string \<times> string) option) \<Rightarrow> string \<Rightarrow> tunnel_code res" where
  "code_parse L parse_url s =
     bindR (ok_or (Msg ''code must look like <url>#<secret>'') (split_once CHR ''#'' (trim s)))
       (\<lambda>(url_part, frag).
     bindR (ok_or (Ctx ''invalid URL in code'' (Msg ''relative URL without a base'')) (parse_url url_part))
       (\<lambda>(scheme, base_url).
     if scheme \<noteq> ''https'' \<and> scheme \<noteq> ''http''
     then Inl (Msg (''code URL must be http(s), got '' @ scheme))
     else
       bindR (from_base58 L frag) (\<lambda>secret.
       Inr \<lparr>tc_scheme = scheme, tc_base_url = base_url, tc_secret = secret\<rparr>)))"

definition show_code :: "'x crypto_lib_scheme \<Rightarrow> tunnel_code \<Rightarrow> string" where
  "show_code L c =
     trim_end_matches (\<lambda>x. x = CHR ''/'') (tc_base_url c) @ ''#'' @ to_base58 L (tc_secret c)"

section \<open>Facts\<close>

lemma b58_no:
  "b58_correct L \<Longrightarrow> c \<in> set (b58_encode L b) \<Longrightarrow> c \<in> set b58_alphabet"
  by (auto simp: b58_correct_def)

lemma b58_chars:
  assumes "c \<in> set b58_alphabet"
  shows "\<not> is_ws c" "c \<noteq> CHR ''#''" "c \<noteq> CHR ''/''" "c \<noteq> CHR ''-''"
proof -
  have "list_all (\<lambda>c. \<not> is_ws c \<and> c \<noteq> CHR ''#'' \<and> c \<noteq> CHR ''/'' \<and> c \<noteq> CHR ''-'') b58_alphabet"
    by code_simp
  then show "\<not> is_ws c" "c \<noteq> CHR ''#''" "c \<noteq> CHR ''/''" "c \<noteq> CHR ''-''"
    using assms by (auto simp: list_all_iff)
qed

lemma b58_text:
  assumes "b58_correct L"
  shows "CHR ''#'' \<notin> set (b58_encode L b)" "CHR ''/'' \<notin> set (b58_encode L b)"
    "list_all (\<lambda>c. \<not> is_ws c) (b58_encode L b)"
proof -
  show "CHR ''#'' \<notin> set (b58_encode L b)" using b58_no [OF assms] b58_chars(2) by blast
  show "CHR ''/'' \<notin> set (b58_encode L b)" using b58_no [OF assms] b58_chars(3) by blast
  show "list_all (\<lambda>c. \<not> is_ws c) (b58_encode L b)"
    unfolding list_all_iff using b58_no [OF assms] b58_chars(1) by blast
qed

lemma word_char: "c \<in> set (word_at i) \<Longrightarrow> \<not> is_ws c \<and> c \<noteq> CHR ''-''"
  using word_at_chars [of c i] by (auto simp: is_ws_def Let_def)

lemma digit_char_ok: "is_digit c \<Longrightarrow> \<not> is_ws c \<and> c \<noteq> CHR ''-'' \<and> c \<noteq> CHR ''b''"
  by (auto simp: is_digit_def is_ws_def Let_def)

lemma human_code_text:
  fixes e0 e1 e2 :: u8
  defines "s \<equiv> show_nat (unat e0) @ ''-'' @ word_at e1 @ ''-'' @ word_at e2"
  shows "trim s = s" and "split_char CHR ''-'' s = [show_nat (unat e0), word_at e1, word_at e2]"
    and "\<not> prefix ''b2p://'' s"
proof -
  have "list_all (\<lambda>c. \<not> is_ws c) s"
    using word_char show_nat_char digit_char_ok by (auto simp: s_def list_all_iff is_ws_def)
  then show "trim s = s" by (rule trim_no_ws)
  have d: "CHR ''-'' \<notin> set (show_nat (unat e0))" using show_nat_char digit_char_ok by blast
  have w: "CHR ''-'' \<notin> set (word_at e1)" "CHR ''-'' \<notin> set (word_at e2)" using word_char by blast+
  show "split_char CHR ''-'' s = [show_nat (unat e0), word_at e1, word_at e2]"
    unfolding s_def using split_char_append [OF d] split_char_append [OF w(1)] split_char_notin [OF w(2)]
    by simp
  obtain c cs where c: "show_nat (unat e0) = c # cs" by (cases "show_nat (unat e0)") auto
  then have "c \<noteq> CHR ''b''" using show_nat_char [of c "unat e0"] digit_char_ok by auto
  then show "\<not> prefix ''b2p://'' s" using c by (simp add: s_def)
qed

lemma human_roundtrip:
  "show_rendezvous L (generate_human L e) = Inr s \<Longrightarrow>
   parse_rendezvous L s = Inr (generate_human L e) \<and> is_rendezvous_code s"
proof -
  assume s: "show_rendezvous L (generate_human L e) = Inr s"
  obtain e0 e1 e2 where e: "e = (e0, e1, e2)" by (cases e)
  have s_eq: "s = show_nat (unat e0) @ ''-'' @ word_at e1 @ ''-'' @ word_at e2"
    using s by (simp add: show_rendezvous_def generate_human_def e)
  note t = human_code_text [of e0 e1 e2, folded s_eq]
  have "strip_pre ''b2p://'' s = None" using t(3) by (simp only: strip_pre_None not_False_eq_True)
  then show ?thesis
    using t by (simp add: parse_rendezvous_def parse_human_code_def is_rendezvous_code_def Let_def
        parse_u8_show index_of_word_at generate_human_def e)
qed

lemma url_roundtrip:
  assumes b58: "b58_correct L" and topic: "length topic = 16" and secret: "length secret = 16 \<or> length secret = 3"
    and host: "\<And>h. relay_host = Some h \<Longrightarrow> h \<noteq> [] \<and> list_all host_char h"
  shows "parse_rendezvous L (url_spelling L \<lparr>rv_topic = b58_encode L topic, rv_secret = secret,
      rv_relay_host = ho, rv_spelling = sp\<rparr> relay_host) =
    Inr \<lparr>rv_topic = b58_encode L topic, rv_secret = secret, rv_relay_host = relay_host, rv_spelling = Url\<rparr>"
proof -
  let ?t = "b58_encode L topic" and ?s = "b58_encode L secret"
  let ?h = "case relay_host of Some h \<Rightarrow> h @ ''/'' | None \<Rightarrow> []"
  have tc: "CHR ''#'' \<notin> set ?t" "CHR ''/'' \<notin> set ?t" "list_all (\<lambda>c. \<not> is_ws c) ?t"
    and sc: "list_all (\<lambda>c. \<not> is_ws c) ?s"
    using b58_text [OF b58] by auto
  have hc: "CHR ''#'' \<notin> set h" "CHR ''/'' \<notin> set h" "list_all (\<lambda>c. \<not> is_ws c) h"
    if "relay_host = Some h" for h
    using host [OF that] by (auto simp: list_all_iff host_char_def is_ascii_alphanumeric_def is_ws_def Let_def)
  have "list_all (\<lambda>c. \<not> is_ws c) (''b2p://'' @ ?h @ ?t @ ''#'' @ ?s)"
    using tc(3) sc hc(3) by (auto simp: is_ws_def split: option.split)
  then have tr: "trim (''b2p://'' @ ?h @ ?t @ ''#'' @ ?s) = ''b2p://'' @ ?h @ ?t @ ''#'' @ ?s" by (rule trim_no_ws)
  have so: "split_once CHR ''#'' (?h @ ?t @ ''#'' @ ?s) = Some (?h @ ?t, ?s)"
    using split_once_append [of "CHR ''#''" "?h @ ?t" ?s] tc(1) hc(1) by (auto split: option.splits)
  have sh: "split_once CHR ''/'' (?h @ ?t) = (case relay_host of Some h \<Rightarrow> Some (h, ?t) | None \<Rightarrow> None)"
    using split_once_append [of "CHR ''/''" _ ?t] hc(2) tc(2) split_once_None [of "CHR ''/''" ?t]
    by (auto split: option.split)
  have "topic \<noteq> []" using topic by auto
  then have ne: "?t \<noteq> []" using b58 by (simp add: b58_correct_def)
  have dec: "b58_decode L ?t = Some topic" "b58_decode L ?s = Some secret" using b58 by (simp_all add: b58_correct_def)
  have "parse_rendezvous L (''b2p://'' @ ?h @ ?t @ ''#'' @ ?s) = parse_url_code L (?h @ ?t @ ''#'' @ ?s)"
    by (simp only: parse_rendezvous_def Let_def tr strip_pre_append option.case)
  also have "\<dots> = Inr \<lparr>rv_topic = ?t, rv_secret = secret, rv_relay_host = relay_host, rv_spelling = Url\<rparr>"
    unfolding parse_url_code_def so
    using sh ne dec topic secret host by (auto split: option.splits)
  finally show ?thesis by (simp add: url_spelling_def Let_def)
qed

text \<open>Everything recognised as a human code parses, and only such.\<close>

lemma recognised_iff_parses:
  assumes "\<not> prefix ''b2p://'' (trim s)"
  shows "is_rendezvous_code s \<longleftrightarrow> (\<exists>c. parse_rendezvous L s = Inr c)"
proof -
  have "strip_pre ''b2p://'' (trim s) = None" using assms by (simp only: strip_pre_None not_False_eq_True)
  then show ?thesis using assms
    by (auto simp: is_rendezvous_code_def parse_rendezvous_def parse_human_code_def Let_def bindR_eq_Inr)
qed

lemma tunnel_roundtrip:
  assumes b58: "b58_correct L" and len: "length sec = SECRET_LEN"
    and url: "parse_url (trim_end_matches (\<lambda>x. x = CHR ''/'') u) = Some (scheme, u)"
    and sch: "scheme = ''https'' \<or> scheme = ''http''"
    and nohash: "CHR ''#'' \<notin> set u" and ws: "list_all (\<lambda>c. \<not> is_ws c) u"
  shows "code_parse L parse_url (show_code L \<lparr>tc_scheme = scheme, tc_base_url = u, tc_secret = sec\<rparr>) =
    Inr \<lparr>tc_scheme = scheme, tc_base_url = u, tc_secret = sec\<rparr>"
proof -
  let ?u = "trim_end_matches (\<lambda>x. x = CHR ''/'') u" and ?s = "to_base58 L sec"
  have sub: "set ?u \<subseteq> set u" by (auto simp: trim_end_matches_def dest: set_dropWhileD)
  have sc: "list_all (\<lambda>c. \<not> is_ws c) ?s"
    using b58_text [OF b58] by (simp add: to_base58_def)
  have "list_all (\<lambda>c. \<not> is_ws c) (?u @ ''#'' @ ?s)"
    using sub ws sc by (auto simp: list_all_iff is_ws_def)
  then have "trim (?u @ ''#'' @ ?s) = ?u @ ''#'' @ ?s" by (rule trim_no_ws)
  moreover have "split_once CHR ''#'' (?u @ ''#'' @ ?s) = Some (?u, ?s)"
  proof -
    have "CHR ''#'' \<notin> set ?u" using sub nohash by blast
    from split_once_append [OF this] show ?thesis by simp
  qed
  ultimately show ?thesis
    using url sch from_to_base58 [OF b58 len] by (auto simp: show_code_def code_parse_def)
qed

end
