(* ===== verification/B2P_Framing.thy ===== *)
theory B2P_Framing
  imports B2P_Prelude
begin

unbundle bit_operations_syntax

text \<open>
  The wire format of the relay transport (src/src/transport/relay.rs): \<^verbatim>\<open>pack_frames\<close> batches
  and splits logical frames into WebSocket payloads, \<^verbatim>\<open>Debatcher::push\<close> reassembles them. A
  payload in flight is a list of bytes; the \<^verbatim>\<open>VecDeque\<close> of pending frames is a list.
\<close>

definition MAX_WS_PAYLOAD :: nat where
  "MAX_WS_PAYLOAD = 960 * 1024"

definition CONT :: u32 where
  "CONT = push_bit 31 1"

definition MAX_LOGICAL_FRAME :: nat where
  "MAX_LOGICAL_FRAME = 64 * 1024 * 1024"

fun pack_loop :: "bytes list \<Rightarrow> bytes \<Rightarrow> bytes \<times> bytes list" where
  "pack_loop [] buf = (buf, [])"
| "pack_loop (front # rest) buf =
     (let room = MAX_WS_PAYLOAD - (length buf + 4) in
      if room = 0 then (buf, front # rest)
      else if length front \<le> room
      then pack_loop rest (buf @ u32_le_bytes (of_nat (length front)) @ front)
      else (buf @ u32_le_bytes (of_nat (length (take room front)) OR CONT) @ take room front,
            drop room front # rest))"

definition pack_frames :: "bytes list \<Rightarrow> bytes option \<times> bytes list" where
  "pack_frames pending =
     (case pack_loop pending [] of (buf, rest) \<Rightarrow> (if buf = [] then None else Some buf, rest))"

record debatcher =
  db_partial :: bytes

function push_loop :: "bytes \<Rightarrow> bytes \<Rightarrow> bytes list \<Rightarrow> bytes list res \<times> bytes" where
  "push_loop part p out =
     (if p = [] then (Inr out, part)
      else if length p < 4 then (Inl (Msg ''truncated sub-frame header''), part)
      else
        let hdr = u32_from_le (take 4 p);
            cont = (hdr AND CONT \<noteq> 0);
            len = unat (hdr AND NOT CONT);
            p = drop 4 p in
        if length p < len then (Inl (Msg ''truncated sub-frame body''), part)
        else if length part + len > MAX_LOGICAL_FRAME
        then (Inl (Msg (''logical frame exceeds '' @ show_nat MAX_LOGICAL_FRAME @ '' bytes'')), part)
        else
          let part = part @ take len p; p = drop len p in
          if \<not> cont then push_loop [] p (out @ [part]) else push_loop part p out)"
  by pat_completeness auto
termination
  by (relation "measure (\<lambda>(_, p, _). length p)") auto

declare push_loop.simps [simp del]

definition debatch_push :: "debatcher \<Rightarrow> bytes \<Rightarrow> bytes list res \<times> debatcher" where
  "debatch_push d p = (case push_loop (db_partial d) p [] of (r, part) \<Rightarrow> (r, d\<lparr>db_partial := part\<rparr>))"

section \<open>Headers\<close>

lemma bit_CONT: "bit CONT n \<longleftrightarrow> n = 31"
  unfolding CONT_def bit_push_bit_iff bit_1_iff by auto

lemma small_no_top:
  assumes "n < 2 ^ 31"
  shows "\<not> bit (of_nat n :: u32) 31"
proof -
  have u: "unat (of_nat n :: u32) = n" using assms by (simp add: unat_of_nat)
  have "bit (of_nat n :: u32) 31 \<longleftrightarrow> bit (unat (of_nat n :: u32)) 31"
    by (simp only: bit_unsigned_iff) simp
  also have "\<dots> \<longleftrightarrow> bit n 31" by (simp only: u)
  also have "\<not> bit n 31" using assms by (simp add: bit_iff_odd)
  finally show ?thesis by simp
qed

lemma CONT_nonzero [simp]: "CONT \<noteq> 0"
  by (simp add: CONT_def)

lemma u32_le_nonempty [simp]: "u32_le_bytes w \<noteq> []"
  using length_u32_le [of w] by (metis list.size(3) zero_neq_numeral)

lemma and_CONT_eq_0: "w AND CONT = 0 \<longleftrightarrow> \<not> bit w 31"
proof
  assume eq: "w AND CONT = 0"
  have "bit (w AND CONT) 31 \<longleftrightarrow> bit w 31" by (simp add: bit_and_iff bit_CONT)
  then show "\<not> bit w 31" unfolding eq by simp
next
  assume "\<not> bit w 31"
  then show "w AND CONT = 0" by (intro bit_word_eqI) (auto simp: bit_and_iff bit_CONT)
qed

lemma header_whole:
  assumes "n < 2 ^ 31"
  shows "(of_nat n :: u32) AND CONT = 0" and "unat ((of_nat n :: u32) AND NOT CONT) = n"
proof -
  note top = small_no_top [OF assms]
  show "(of_nat n :: u32) AND CONT = 0" using top by (simp add: and_CONT_eq_0)
  have "(of_nat n :: u32) AND NOT CONT = of_nat n"
    by (rule bit_word_eqI) (use top in \<open>auto simp: bit_and_iff bit_not_iff bit_CONT\<close>)
  then show "unat ((of_nat n :: u32) AND NOT CONT) = n" using assms by (simp add: unat_of_nat)
qed

lemma header_piece:
  assumes "n < 2 ^ 31"
  shows "((of_nat n :: u32) OR CONT) AND CONT \<noteq> 0" and "unat (((of_nat n :: u32) OR CONT) AND NOT CONT) = n"
proof -
  note top = small_no_top [OF assms]
  show "((of_nat n :: u32) OR CONT) AND CONT \<noteq> 0" by (simp add: and_CONT_eq_0 bit_or_iff bit_CONT)
  have "((of_nat n :: u32) OR CONT) AND NOT CONT = of_nat n"
    by (rule bit_word_eqI) (use top in \<open>auto simp: bit_and_iff bit_or_iff bit_not_iff bit_CONT\<close>)
  then show "unat (((of_nat n :: u32) OR CONT) AND NOT CONT) = n" using assms by (simp add: unat_of_nat)
qed

text \<open>What the reassembler does with one piece.\<close>

lemma push_whole:
  assumes "length f < 2 ^ 31" and "length part + length f \<le> MAX_LOGICAL_FRAME"
  shows "push_loop part (u32_le_bytes (of_nat (length f)) @ f @ p) out = push_loop [] p (out @ [part @ f])"
  using assms(2) header_whole [OF assms(1)]
  by (simp add: push_loop.simps [of part "u32_le_bytes (of_nat (length f)) @ f @ p"] Let_def)

lemma push_piece:
  assumes "length f < 2 ^ 31" and "length part + length f \<le> MAX_LOGICAL_FRAME"
  shows "push_loop part (u32_le_bytes (of_nat (length f) OR CONT) @ f) out = (Inr out, part @ f)"
proof -
  have "push_loop part (u32_le_bytes (of_nat (length f) OR CONT) @ f) out = push_loop (part @ f) [] out"
    using assms(2) header_piece [OF assms(1)]
    by (simp add: push_loop.simps [of part "u32_le_bytes (of_nat (length f) OR CONT) @ f"] Let_def)
  then show ?thesis by (simp add: push_loop.simps)
qed

section \<open>Packing\<close>

text \<open>
  The logical frames a receiver has still to get: with \<open>part\<close> already there, the head of the
  queue is the rest of a frame that starts with \<open>part\<close>.
\<close>

fun logical :: "bytes \<Rightarrow> bytes list \<Rightarrow> bytes list" where
  "logical part [] = []"
| "logical part (front # rest) = (part @ front) # rest"

lemma logical_Nil [simp]: "logical [] pending = pending"
  by (cases pending) auto

lemma logical_append: "pending \<noteq> [] \<or> part = [] \<Longrightarrow> logical part (pending @ new) = logical part pending @ new"
  by (cases pending) auto

lemma pack_loop_prefix: "\<exists>b. fst (pack_loop pending buf) = buf @ b"
  by (induction pending buf rule: pack_loop.induct) (auto simp: Let_def)

lemma pack_loop_bounded:
  "length buf \<le> MAX_WS_PAYLOAD \<Longrightarrow> length (fst (pack_loop pending buf)) \<le> MAX_WS_PAYLOAD"
  by (induction pending buf rule: pack_loop.induct) (auto simp: Let_def)

lemma payload_small: "MAX_WS_PAYLOAD < 2 ^ 31"
  by (simp add: MAX_WS_PAYLOAD_def)

text \<open>
  One payload, pushed into a reassembler that has \<open>part\<close>, completes some of the logical frames,
  in order, and leaves the reassembler with the start of the next one.
\<close>

lemma push_pack_loop:
  assumes "list_all (\<lambda>f. length f \<le> MAX_LOGICAL_FRAME) (logical part pending)"
    and "pending = [] \<Longrightarrow> part = []"
  shows "\<exists>b out part'. fst (pack_loop pending buf) = buf @ b \<and>
    push_loop part b out0 = (Inr (out0 @ out), part') \<and>
    out @ logical part' (snd (pack_loop pending buf)) = logical part pending \<and>
    (snd (pack_loop pending buf) = [] \<longrightarrow> part' = [])"
  using assms
proof (induction pending arbitrary: buf part out0)
  case Nil
  then show ?case by (simp add: push_loop.simps)
next
  case (Cons front rest)
  let ?room = "MAX_WS_PAYLOAD - (length buf + 4)"
  have len: "length part + length front \<le> MAX_LOGICAL_FRAME" using Cons.prems by simp
  consider "?room = 0" | "?room \<noteq> 0" "length front \<le> ?room" | "?room \<noteq> 0" "\<not> length front \<le> ?room"
    by blast
  then show ?case
  proof cases
    case 1
    then show ?thesis
      by (intro exI [of _ "[]"] exI [of _ part]) (simp add: push_loop.simps)
  next
    case 2
    let ?buf = "buf @ u32_le_bytes (of_nat (length front)) @ front"
    have eq: "pack_loop (front # rest) buf = pack_loop rest ?buf" using 2 by (simp add: Let_def)
    obtain b out part' where IH: "fst (pack_loop rest ?buf) = ?buf @ b"
      "push_loop [] b (out0 @ [part @ front]) = (Inr ((out0 @ [part @ front]) @ out), part')"
      "out @ logical part' (snd (pack_loop rest ?buf)) = logical [] rest"
      "snd (pack_loop rest ?buf) = [] \<longrightarrow> part' = []"
      using Cons.IH [of "[]" ?buf "out0 @ [part @ front]"] Cons.prems by auto
    have small: "length front < 2 ^ 31" using 2 payload_small by simp
    show ?thesis unfolding eq
      by (intro exI [of _ "u32_le_bytes (of_nat (length front)) @ front @ b"]
          exI [of _ "(part @ front) # out"] exI [of _ part'])
        (use IH push_whole [OF small len, of b out0] in auto)
  next
    case 3
    let ?piece = "take ?room front"
    have lp: "length ?piece < 2 ^ 31" "length part + length ?piece \<le> MAX_LOGICAL_FRAME"
      using payload_small len by auto
    have eq: "pack_loop (front # rest) buf =
        (buf @ u32_le_bytes (of_nat (length ?piece) OR CONT) @ ?piece, drop ?room front # rest)"
      using 3 by (simp add: Let_def)
    show ?thesis unfolding eq
      by (intro exI [of _ "u32_le_bytes (of_nat (length ?piece) OR CONT) @ ?piece"]
          exI [of _ "[]"] exI [of _ "part @ ?piece"])
        (use push_piece [OF lp, of out0] in auto)
  qed
qed

lemma pack_loop_step:
  "pending \<noteq> [] \<Longrightarrow> fst (pack_loop pending []) \<noteq> [] \<and>
     sum_list (map (\<lambda>f. length f + 1) (snd (pack_loop pending []))) < sum_list (map (\<lambda>f. length f + 1) pending)"
proof -
  have le: "sum_list (map (\<lambda>f. length f + 1) (snd (pack_loop q buf))) \<le> sum_list (map (\<lambda>f. length f + 1) q)"
    for q buf by (induction q buf rule: pack_loop.induct) (auto simp: Let_def)
  assume "pending \<noteq> []"
  then obtain front rest where p: "pending = front # rest" by (cases pending) auto
  have room: "MAX_WS_PAYLOAD - 4 > 0" by (simp add: MAX_WS_PAYLOAD_def)
  show ?thesis
  proof (cases "length front \<le> MAX_WS_PAYLOAD - 4")
    case True
    let ?b = "u32_le_bytes (of_nat (length front)) @ front"
    have "pack_loop pending [] = pack_loop rest ?b" using True room p by simp
    then show ?thesis using pack_loop_prefix [of rest ?b] le [of rest ?b] p by auto
  next
    case False
    then show ?thesis using room p by (simp add: Let_def)
  qed
qed

lemma pack_frames_None: "fst (pack_frames pending) = None \<longleftrightarrow> pending = []"
  using pack_loop_step [of pending] by (cases pending) (auto simp: pack_frames_def split: prod.split)

lemma pack_frames_bounded:
  "pack_frames pending = (Some payload, rest) \<Longrightarrow> length payload \<le> MAX_WS_PAYLOAD \<and> payload \<noteq> []"
  using pack_loop_bounded [of "[]" pending]
  by (auto simp: pack_frames_def split: prod.splits if_splits)

lemma pack_frames_decreases:
  "pack_frames pending = (Some payload, rest) \<Longrightarrow>
   sum_list (map (\<lambda>f. length f + 1) rest) < sum_list (map (\<lambda>f. length f + 1) pending)"
  using pack_loop_step [of pending] by (cases pending) (auto simp: pack_frames_def split: prod.splits if_splits)

lemma push_pack_frames:
  assumes "pack_frames pending = (Some payload, rest)"
    and "list_all (\<lambda>f. length f \<le> MAX_LOGICAL_FRAME) (logical (db_partial d) pending)"
  shows "\<exists>out d'. debatch_push d payload = (Inr out, d') \<and>
    out @ logical (db_partial d') rest = logical (db_partial d) pending \<and>
    (rest = [] \<longrightarrow> db_partial d' = [])"
proof -
  have ne: "pending \<noteq> []" using assms(1) pack_frames_None [of pending] by auto
  have pl: "pack_loop pending [] = (payload, rest)"
    using assms(1) by (auto simp: pack_frames_def split: prod.splits if_splits)
  have np: "pending = [] \<Longrightarrow> db_partial d = []" using ne by simp
  obtain b out part' where "payload = b" "push_loop (db_partial d) b [] = (Inr out, part')"
    "out @ logical part' rest = logical (db_partial d) pending" "rest = [] \<longrightarrow> part' = []"
    using push_pack_loop [OF assms(2) np, of "[]" "[]"] pl by auto
  then show ?thesis by (auto simp: debatch_push_def)
qed

section \<open>The link: frames queued on one side, reassembled on the other\<close>

record link =
  lk_queued :: "bytes list"
  lk_pending :: "bytes list"
  lk_wire :: "bytes list"
  lk_debatch :: debatcher
  lk_delivered :: "bytes list"

definition link_start :: link where
  "link_start = \<lparr>lk_queued = [], lk_pending = [], lk_wire = [], lk_debatch = \<lparr>db_partial = []\<rparr>,
     lk_delivered = []\<rparr>"

inductive link_step :: "link \<Rightarrow> link \<Rightarrow> bool" where
  queue: "length f \<le> MAX_LOGICAL_FRAME \<Longrightarrow>
    link_step s (s\<lparr>lk_pending := lk_pending s @ [f], lk_queued := lk_queued s @ [f]\<rparr>)"
| flush: "pack_frames (lk_pending s) = (Some payload, rest) \<Longrightarrow>
    link_step s (s\<lparr>lk_pending := rest, lk_wire := lk_wire s @ [payload]\<rparr>)"
| arrive: "lk_wire s = payload # ps \<Longrightarrow> debatch_push (lk_debatch s) payload = (Inr out, d) \<Longrightarrow>
    link_step s (s\<lparr>lk_wire := ps, lk_debatch := d, lk_delivered := lk_delivered s @ out\<rparr>)"

fun drain :: "debatcher \<Rightarrow> bytes list \<Rightarrow> bytes list res \<times> debatcher" where
  "drain d [] = (Inr [], d)"
| "drain d (p # ps) =
     (case debatch_push d p of
        (Inl e, d') \<Rightarrow> (Inl e, d')
      | (Inr out, d') \<Rightarrow> (case drain d' ps of (r, d'') \<Rightarrow> (bindR r (\<lambda>o2. Inr (out @ o2)), d'')))"

lemma drain_snoc:
  "drain d ps = (Inr out, d') \<Longrightarrow> debatch_push d' p = (Inr out', d'') \<Longrightarrow>
   drain d (ps @ [p]) = (Inr (out @ out'), d'')"
  by (induction ps arbitrary: d out) (auto simp: bindR_eq_Inr split: prod.splits sum.splits)

definition link_inv :: "link \<Rightarrow> bool" where
  "link_inv s \<longleftrightarrow> list_all (\<lambda>f. length f \<le> MAX_LOGICAL_FRAME) (lk_queued s) \<and>
     (\<exists>out d. drain (lk_debatch s) (lk_wire s) = (Inr out, d) \<and>
       lk_delivered s @ out @ logical (db_partial d) (lk_pending s) = lk_queued s \<and>
       (lk_pending s = [] \<longrightarrow> db_partial d = []))"

lemma link_inv_start: "link_inv link_start"
  by (simp add: link_inv_def link_start_def)

lemma link_inv_step: "link_step s t \<Longrightarrow> link_inv s \<Longrightarrow> link_inv t"
proof (induction rule: link_step.induct)
  case (queue f s)
  then obtain out d where d: "drain (lk_debatch s) (lk_wire s) = (Inr out, d)"
    "lk_delivered s @ out @ logical (db_partial d) (lk_pending s) = lk_queued s"
    "lk_pending s = [] \<longrightarrow> db_partial d = []" by (auto simp: link_inv_def)
  have "logical (db_partial d) (lk_pending s @ [f]) = logical (db_partial d) (lk_pending s) @ [f]"
    by (rule logical_append) (use d(3) in auto)
  then have "lk_delivered s @ out @ logical (db_partial d) (lk_pending s @ [f]) = lk_queued s @ [f]"
    by (simp only: d(2) [symmetric] append_assoc)
  then show ?case using queue d(1) by (simp add: link_inv_def)
next
  case (flush s payload rest)
  then obtain out d where d: "drain (lk_debatch s) (lk_wire s) = (Inr out, d)"
    "lk_delivered s @ out @ logical (db_partial d) (lk_pending s) = lk_queued s"
    and all: "list_all (\<lambda>f. length f \<le> MAX_LOGICAL_FRAME) (lk_queued s)" by (auto simp: link_inv_def)
  have "list_all (\<lambda>f. length f \<le> MAX_LOGICAL_FRAME) (logical (db_partial d) (lk_pending s))"
    using all by (simp add: d(2) [symmetric])
  from push_pack_frames [OF flush(1) this] obtain out' d' where p: "debatch_push d payload = (Inr out', d')"
    "out' @ logical (db_partial d') rest = logical (db_partial d) (lk_pending s)"
    "rest = [] \<longrightarrow> db_partial d' = []" by blast
  show ?case
    unfolding link_inv_def
    by (intro conjI exI [of _ "out @ out'"] exI [of _ d'])
      (use drain_snoc [OF d(1) p(1)] all p(2,3) d(2) in simp_all)
next
  case (arrive s payload ps out d)
  then show ?case by (auto simp: link_inv_def bindR_eq_Inr split: prod.splits)
qed

lemma link_reach_inv: "link_step\<^sup>*\<^sup>* link_start s \<Longrightarrow> link_inv s"
  by (induction rule: rtranclp_induct) (auto intro: link_inv_start link_inv_step)

lemma queue_many:
  "list_all (\<lambda>f. length f \<le> MAX_LOGICAL_FRAME) fs \<Longrightarrow>
   link_step\<^sup>*\<^sup>* s (s\<lparr>lk_pending := lk_pending s @ fs, lk_queued := lk_queued s @ fs\<rparr>)"
proof (induction fs arbitrary: s)
  case Nil
  then show ?case by simp
next
  case (Cons f fs)
  let ?s = "s\<lparr>lk_pending := lk_pending s @ [f], lk_queued := lk_queued s @ [f]\<rparr>"
  have "link_step s ?s" using Cons.prems by (intro link_step.queue) simp
  moreover have "link_step\<^sup>*\<^sup>* ?s (?s\<lparr>lk_pending := lk_pending ?s @ fs, lk_queued := lk_queued ?s @ fs\<rparr>)"
    by (rule Cons.IH) (use Cons.prems in simp)
  ultimately show ?case by (auto intro: converse_rtranclp_into_rtranclp)
qed

lemma link_inv_fifo:
  assumes "link_inv s"
  shows "prefix (lk_delivered s) (lk_queued s)"
    and "lk_pending s = [] \<Longrightarrow> lk_wire s = [] \<Longrightarrow> lk_delivered s = lk_queued s"
proof -
  from assms obtain out d where d: "drain (lk_debatch s) (lk_wire s) = (Inr out, d)"
    "lk_delivered s @ out @ logical (db_partial d) (lk_pending s) = lk_queued s" by (auto simp: link_inv_def)
  show "prefix (lk_delivered s) (lk_queued s)" unfolding d(2) [symmetric] by simp
  show "lk_delivered s = lk_queued s" if "lk_pending s = []" "lk_wire s = []"
    using d that by simp
qed

text \<open>No payload in flight is ever refused.\<close>

lemma link_arrive_ok:
  assumes "link_inv s" and "lk_wire s = payload # ps"
  shows "\<exists>out d. debatch_push (lk_debatch s) payload = (Inr out, d)"
  using assms by (auto simp: link_inv_def split: prod.splits sum.splits)

text \<open>The other direction of the bound: a hostile peer cannot make the reassembler hold more.\<close>

lemma push_loop_bounded:
  "length part \<le> MAX_LOGICAL_FRAME \<Longrightarrow> push_loop part p out = (r, part') \<Longrightarrow>
   length part' \<le> MAX_LOGICAL_FRAME"
proof (induction part p out rule: push_loop.induct)
  case (1 part p out)
  define hdr where "hdr = u32_from_le (take 4 p)"
  define len where "len = unat (hdr AND NOT CONT)"
  show ?case
  proof (cases "p = [] \<or> length p < 4 \<or> length (drop 4 p) < len \<or> length part + len > MAX_LOGICAL_FRAME")
    case True
    then show ?thesis using 1(3,4)
      by (auto simp: push_loop.simps [of part p] hdr_def len_def Let_def split: if_splits)
  next
    case False
    then have c: "p \<noteq> []" "\<not> length p < 4" "\<not> length (drop 4 p) < len" "\<not> length part + len > MAX_LOGICAL_FRAME"
      by auto
    show ?thesis
    proof (cases "hdr AND CONT \<noteq> 0")
      case True
      then have "push_loop (part @ take len (drop 4 p)) (drop len (drop 4 p)) out = (r, part')"
        using 1(4) c by (simp add: push_loop.simps [of part p] hdr_def len_def Let_def)
      moreover have "length (part @ take len (drop 4 p)) \<le> MAX_LOGICAL_FRAME" using c by simp
      ultimately show ?thesis using 1(2) [OF c(1,2) hdr_def refl len_def refl c(3,4) refl refl] True by blast
    next
      case F: False
      then have "push_loop [] (drop len (drop 4 p)) (out @ [part @ take len (drop 4 p)]) = (r, part')"
        using 1(4) c by (simp add: push_loop.simps [of part p] hdr_def len_def Let_def)
      then show ?thesis using 1(1) [OF c(1,2) hdr_def refl len_def refl c(3,4) refl refl] F by simp
    qed
  qed
qed

end
