(* ===== verification/B2P_Json.thy ===== *)
theory B2P_Json
  imports B2P_Prelude
begin

text \<open>
  The JSON values the sources look into (\<^verbatim>\<open>serde_json::Value\<close>). The parser itself is
  third-party: the functions that read JSON text take it as an argument of type \<open>json_parser\<close>.
\<close>

datatype json =
    JNull
  | JBool bool
  | JNum "u64 option"
      \<comment> \<open>the value where it is an integer of that range\<close>
  | JStr string
  | JArr "json list"
  | JObj "(string \<times> json) list"

type_synonym json_parser = "string \<Rightarrow> json option"

definition json_get :: "string \<Rightarrow> json \<Rightarrow> json option" where
  "json_get k v = (case v of JObj kvs \<Rightarrow> map_of kvs k | _ \<Rightarrow> None)"

definition json_str :: "json \<Rightarrow> string option" where
  "json_str v = (case v of JStr s \<Rightarrow> Some s | _ \<Rightarrow> None)"

definition json_u64 :: "json \<Rightarrow> u64 option" where
  "json_u64 v = (case v of JNum n \<Rightarrow> n | _ \<Rightarrow> None)"

definition json_arr :: "json \<Rightarrow> json list option" where
  "json_arr v = (case v of JArr xs \<Rightarrow> Some xs | _ \<Rightarrow> None)"

lemmas json_defs = json_get_def json_str_def json_u64_def json_arr_def

end
