(* ===== verification/B2P_Channel.thy ===== *)
theory B2P_Channel
  imports B2P_Prelude
begin

text \<open>
  Code that talks over a \<^verbatim>\<open>MsgChannel\<close> (the trait of src/src/stream.rs) as a process: it returns,
  sends a message and continues with the outcome, or receives and continues with the message or
  the error. Two processes joined by a reliable, ordered channel run by the step relation
  \<open>net_step\<close>; every schedule of a run gives the same result (\<open>net.unique_result\<close>).
\<close>

datatype 'r proc =
    Ret 'r
  | Send bytes "err option \<Rightarrow> 'r proc"
  | Recv "bytes res \<Rightarrow> 'r proc"

primrec bindP :: "'a proc \<Rightarrow> ('a \<Rightarrow> 'b proc) \<Rightarrow> 'b proc" where
  "bindP (Ret v) g = g v"
| "bindP (Send m k) g = Send m (\<lambda>r. bindP (k r) g)"
| "bindP (Recv k) g = Recv (\<lambda>r. bindP (k r) g)"

text \<open>\<^verbatim>\<open>ch.send(m).await?\<close> and \<^verbatim>\<open>ch.recv().await?\<close>: an error returns with the given state.\<close>

definition send_or :: "(err \<Rightarrow> 'r) \<Rightarrow> bytes \<Rightarrow> 'r proc \<Rightarrow> 'r proc" where
  "send_or fail m k = Send m (\<lambda>r. case r of Some e \<Rightarrow> Ret (fail e) | None \<Rightarrow> k)"

definition recv_or :: "(err \<Rightarrow> 'r) \<Rightarrow> (bytes \<Rightarrow> 'r proc) \<Rightarrow> 'r proc" where
  "recv_or fail k = Recv (\<lambda>r. case r of Inl e \<Rightarrow> Ret (fail e) | Inr m \<Rightarrow> k m)"

section \<open>One process against a script of incoming results\<close>

text \<open>
  \<open>play p ins\<close> feeds the results \<open>ins\<close> to the receives of \<open>p\<close>, with every send succeeding: the
  messages sent, and the result if \<open>p\<close> returned before the script ran out.
\<close>

primrec play :: "'r proc \<Rightarrow> bytes res list \<Rightarrow> bytes list \<times> 'r option" where
  "play (Ret v) ins = ([], Some v)"
| "play (Send m k) ins = (case play (k None) ins of (out, r) \<Rightarrow> (m # out, r))"
| "play (Recv k) ins =
     (case ins of [] \<Rightarrow> ([], None) | x # xs \<Rightarrow> play (k x) xs)"

lemma play_send_or [simp]:
  "play (send_or fail m k) ins = (m # fst (play k ins), snd (play k ins))"
  by (simp add: send_or_def split: prod.split)

lemma play_recv_or [simp]:
  "play (recv_or fail k) [] = ([], None)"
  "play (recv_or fail k) (Inl e # xs) = ([], Some (fail e))"
  "play (recv_or fail k) (Inr m # xs) = play (k m) xs"
  by (simp_all add: recv_or_def)

lemma bindP_send_or [simp]:
  "bindP (send_or fail m k) g =
     Send m (\<lambda>r. case r of Some e \<Rightarrow> g (fail e) | None \<Rightarrow> bindP k g)"
  by (auto simp: send_or_def fun_eq_iff split: option.split)

lemma bindP_recv_or [simp]:
  "bindP (recv_or fail k) g =
     Recv (\<lambda>r. case r of Inl e \<Rightarrow> g (fail e) | Inr m \<Rightarrow> bindP (k m) g)"
  by (auto simp: recv_or_def fun_eq_iff split: sum.split)

lemma bindP_Ret: "bindP p Ret = p"
  by (induction p) (simp_all add: fun_eq_iff)

lemma play_bind:
  "snd (play p ins) = Some v \<Longrightarrow>
   \<exists>rest. play (bindP p g) ins = (fst (play p ins) @ fst (play (g v) rest), snd (play (g v) rest))"
proof (induction p arbitrary: ins)
  case (Ret w)
  then show ?case by (auto intro: exI [of _ ins])
next
  case (Send m k)
  from Send.prems have "snd (play (k None) ins) = Some v" by (simp split: prod.splits)
  from Send.IH [OF _ this] obtain rest where
    "play (bindP (k None) g) ins = (fst (play (k None) ins) @ fst (play (g v) rest), snd (play (g v) rest))"
    by auto
  then show ?case by (auto simp: split_beta intro: exI [of _ rest])
next
  case (Recv k)
  then show ?case by (cases ins) auto
qed

section \<open>Two processes over a channel\<close>

text \<open>
  \<open>e\<close> is the error a receive gets when the other side has returned and nothing is left to receive: it
  depends on the transport. \<open>peer_closed\<close> is one such error, for examples.
\<close>

definition peer_closed :: err where
  "peer_closed = Msg ''channel closed''"

type_synonym ('a, 'b) net = "'a proc \<times> 'b proc \<times> bytes list \<times> bytes list"

inductive net_step :: "err \<Rightarrow> ('a, 'b) net \<Rightarrow> ('a, 'b) net \<Rightarrow> bool" for e where
  left_send: "net_step e (Send m k, q, lr, rl) (k None, q, lr @ [m], rl)"
| left_recv: "net_step e (Recv k, q, lr, m # rl) (k (Inr m), q, lr, rl)"
| left_closed: "net_step e (Recv k, Ret v, lr, []) (k (Inl e), Ret v, lr, [])"
| right_send: "net_step e (p, Send m k, lr, rl) (p, k None, lr, rl @ [m])"
| right_recv: "net_step e (p, Recv k, m # lr, rl) (p, k (Inr m), lr, rl)"
| right_closed: "net_step e (Ret v, Recv k, [], rl) (Ret v, k (Inl e), [], rl)"

inductive_cases net_step_cases: "net_step e c d"

text \<open>A step relation in which two different steps can always be joined by one more each.\<close>

locale diamond_system =
  fixes step :: "'c \<Rightarrow> 'c \<Rightarrow> bool"
  assumes diamond: "step c a \<Longrightarrow> step c b \<Longrightarrow> a = b \<or> (\<exists>d. step a d \<and> step b d)"
begin

lemma strip:
  "(step ^^ n) c final \<Longrightarrow> (\<And>x. \<not> step final x) \<Longrightarrow> step c a \<Longrightarrow>
   \<exists>m. n = Suc m \<and> (step ^^ m) a final"
proof (induction n arbitrary: c a)
  case 0
  then show ?case by auto
next
  case (Suc n)
  from Suc.prems(1) obtain b where b: "step c b" "(step ^^ n) b final"
    by (metis relpowp_Suc_D2)
  from diamond [OF b(1) Suc.prems(3)] show ?case
  proof
    assume "b = a"
    then show ?thesis using b by auto
  next
    assume "\<exists>d. step b d \<and> step a d"
    then obtain d where d: "step b d" "step a d" by blast
    from Suc.IH [OF b(2) Suc.prems(2) d(1)] obtain m where "n = Suc m" "(step ^^ m) d final" by auto
    then show ?thesis using d(2) by (metis relpowp_Suc_I2)
  qed
qed

text \<open>No run is longer than a run to a final state, and every run can be completed to it.\<close>

lemma unique_result:
  "(step ^^ k) c a \<Longrightarrow> (step ^^ n) c final \<Longrightarrow> (\<And>x. \<not> step final x) \<Longrightarrow>
   k \<le> n \<and> (step ^^ (n - k)) a final"
proof (induction k arbitrary: c n)
  case 0
  then show ?case by simp
next
  case (Suc k)
  from Suc.prems(1) obtain b where b: "step c b" "(step ^^ k) b a" by (metis relpowp_Suc_D2)
  from strip [OF Suc.prems(2,3) b(1)] obtain m where m: "n = Suc m" "(step ^^ m) b final" by blast
  from Suc.IH [OF b(2) m(2) Suc.prems(3)] show ?case using m(1) by simp
qed

end

lemma net_diamond: "net_step e c a \<Longrightarrow> net_step e c b \<Longrightarrow> a = b \<or> (\<exists>d. net_step e a d \<and> net_step e b d)"
  by (erule net_step.cases; erule net_step.cases; clarsimp;
      (intro exI conjI, (rule net_step.intros)+)?)

interpretation net: diamond_system "net_step e" for e
  by unfold_locales (rule net_diamond)

section \<open>Running a pair\<close>

text \<open>\<open>runs_to e c d\<close>: some schedule leads from \<open>c\<close> to \<open>d\<close>.\<close>

definition runs_to :: "err \<Rightarrow> ('a, 'b) net \<Rightarrow> ('a, 'b) net \<Rightarrow> bool" where
  "runs_to e c d = (net_step e)\<^sup>*\<^sup>* c d"

text \<open>
  \<open>both_return e c a b\<close>: from \<open>c\<close> the processes return \<open>a\<close> and \<open>b\<close> under some schedule, with every
  message received, and, by confluence, every schedule stops, with these results only.
\<close>

definition both_return :: "err \<Rightarrow> ('a, 'b) net \<Rightarrow> 'a \<Rightarrow> 'b \<Rightarrow> bool" where
  "both_return e c a b \<longleftrightarrow> runs_to e c (Ret a, Ret b, [], [])"

lemma Ret_final: "\<not> net_step e (Ret a, Ret b, lr, rl) x"
  by (auto elim: net_step_cases)

lemma both_return_every_schedule:
  assumes "both_return e c a b"
  shows "\<exists>n. \<forall>k d. (net_step e ^^ k) c d \<longrightarrow> k \<le> n \<and> (net_step e ^^ (n - k)) d (Ret a, Ret b, [], [])"
proof -
  from assms obtain n where r: "(net_step e ^^ n) c (Ret a, Ret b, [], [])"
    by (auto simp: both_return_def runs_to_def rtranclp_power)
  show ?thesis using net.unique_result [OF _ r Ret_final] by blast
qed

text \<open>
  \<open>every_schedule e c a b\<close>: there is a number of steps after which every run from \<open>c\<close>, however it was
  scheduled, has stopped with the results \<open>a\<close> and \<open>b\<close>; a shorter run can always be completed.
\<close>

definition every_schedule :: "err \<Rightarrow> ('a, 'b) net \<Rightarrow> 'a \<Rightarrow> 'b \<Rightarrow> bool" where
  "every_schedule e c a b \<longleftrightarrow>
     (\<exists>n. \<forall>k d. (net_step e ^^ k) c d \<longrightarrow>
        k \<le> n \<and> (net_step e ^^ (n - k)) d (Ret a, Ret b, [], []))"

lemma every_scheduleI: "both_return e c a b \<Longrightarrow> every_schedule e c a b"
  unfolding every_schedule_def by (rule both_return_every_schedule)

lemma both_return_unique:
  assumes "both_return e c a b" and "both_return e c a' b'"
  shows "a = a' \<and> b = b'"
proof -
  from assms obtain n n' where r: "(net_step e ^^ n) c (Ret a, Ret b, [], [])"
    "(net_step e ^^ n') c (Ret a', Ret b', [], [])"
    by (auto simp: both_return_def runs_to_def rtranclp_power)
  from net.unique_result [OF r Ret_final] have 1: "n \<le> n' \<and> (net_step e ^^ (n' - n)) (Ret a, Ret b, [], []) (Ret a', Ret b', [], [])" .
  show ?thesis
  proof (cases "n' - n")
    case 0
    then show ?thesis using 1 by simp
  next
    case (Suc m)
    then show ?thesis using 1 Ret_final relpowp_Suc_D2 [of m "net_step e"] by metis
  qed
qed

lemma runs_refl [simp]: "runs_to e c c"
  by (simp add: runs_to_def)

lemma runs_trans: "runs_to e c d \<Longrightarrow> runs_to e d x \<Longrightarrow> runs_to e c x"
  by (simp add: runs_to_def)

lemma runs_step: "net_step e c d \<Longrightarrow> runs_to e d x \<Longrightarrow> runs_to e c x"
  by (simp add: runs_to_def converse_rtranclp_into_rtranclp)

lemma both_return_runs: "runs_to e c d \<Longrightarrow> both_return e d a b \<Longrightarrow> both_return e c a b"
  by (auto simp: both_return_def intro: runs_trans)

lemma both_return_Ret [simp]: "both_return e (Ret a, Ret b, [], []) a b"
  by (auto simp: both_return_def intro: runs_refl)

section \<open>Running a pair to the end of a conversation\<close>

text \<open>
  \<open>meets M c a b\<close>: by sends and receives alone the pair comes to return \<open>a\<close> and \<open>b\<close>, with every
  message received, and every message sent satisfies \<open>M\<close>. Such a conversation can be continued:
  \<open>meets_bind_said\<close>.
\<close>

inductive comm_step :: "(bytes \<Rightarrow> bool) \<Rightarrow> ('a, 'b) net \<Rightarrow> ('a, 'b) net \<Rightarrow> bool" for M where
  "M m \<Longrightarrow> comm_step M (Send m k, q, lr, rl) (k None, q, lr @ [m], rl)"
| "comm_step M (Recv k, q, lr, m # rl) (k (Inr m), q, lr, rl)"
| "M m \<Longrightarrow> comm_step M (p, Send m k, lr, rl) (p, k None, lr, rl @ [m])"
| "comm_step M (p, Recv k, m # lr, rl) (p, k (Inr m), lr, rl)"

definition meets :: "(bytes \<Rightarrow> bool) \<Rightarrow> ('a, 'b) net \<Rightarrow> 'a \<Rightarrow> 'b \<Rightarrow> bool" where
  "meets M c a b \<longleftrightarrow> (comm_step M)\<^sup>*\<^sup>* c (Ret a, Ret b, [], [])"

text \<open>Whether the messages under way satisfy \<open>M\<close>, and a run to the end in which they always do.\<close>

definition under_way :: "(bytes \<Rightarrow> bool) \<Rightarrow> ('a, 'b) net \<Rightarrow> bool" where
  "under_way M c \<longleftrightarrow> (case c of (p, q, lr, rl) \<Rightarrow> list_all M lr \<and> list_all M rl)"

lemma under_way_simps [simp]: "under_way M (p, q, lr, rl) \<longleftrightarrow> list_all M lr \<and> list_all M rl"
  by (simp add: under_way_def)

definition said :: "(bytes \<Rightarrow> bool) \<Rightarrow> err \<Rightarrow> ('a, 'b) net \<Rightarrow> 'a \<Rightarrow> 'b \<Rightarrow> bool" where
  "said M e c a b \<longleftrightarrow> (\<lambda>c d. net_step e c d \<and> under_way M d)\<^sup>*\<^sup>* c (Ret a, Ret b, [], [])"

lemma said_both_return: "said M e c a b \<Longrightarrow> both_return e c a b"
  unfolding said_def both_return_def runs_to_def by (erule rtranclp_mono [THEN predicate2D, rotated]) blast

lemma comm_net_step: "comm_step M c d \<Longrightarrow> net_step e c d"
  by (auto elim!: comm_step.cases intro: net_step.intros)

lemma comm_under_way: "comm_step M c d \<Longrightarrow> under_way M c \<Longrightarrow> under_way M d"
  by (auto elim!: comm_step.cases)

lemma comm_said_run:
  "(comm_step M)\<^sup>*\<^sup>* c d \<Longrightarrow> under_way M c \<Longrightarrow> (\<lambda>c d. net_step e c d \<and> under_way M d)\<^sup>*\<^sup>* c d \<and> under_way M d"
proof (induction rule: rtranclp_induct)
  case (step y z)
  then have "net_step e y z \<and> under_way M z" using comm_net_step comm_under_way by blast
  then show ?case using step by (auto intro: rtranclp.rtrancl_into_rtrancl)
qed simp

lemma meets_said: "meets M (p, q, [], []) a b \<Longrightarrow> said M e (p, q, [], []) a b"
  using comm_said_run [of M "(p, q, [], [])" "(Ret a, Ret b, [], [])" e] by (simp add: meets_def said_def)

lemma meets_every_schedule: "meets M (p, q, [], []) a b \<Longrightarrow> every_schedule e (p, q, [], []) a b"
  by (rule every_scheduleI, rule said_both_return, rule meets_said)

definition bind_net :: "('a \<Rightarrow> 'c proc) \<Rightarrow> ('b \<Rightarrow> 'd proc) \<Rightarrow> ('a, 'b) net \<Rightarrow> ('c, 'd) net" where
  "bind_net g h c = (case c of (p, q, lr, rl) \<Rightarrow> (bindP p g, bindP q h, lr, rl))"

lemma bind_net_simps [simp]: "bind_net g h (p, q, lr, rl) = (bindP p g, bindP q h, lr, rl)"
  by (simp add: bind_net_def)

lemma comm_bind: "comm_step M c d \<Longrightarrow> comm_step M (bind_net g h c) (bind_net g h d)"
proof (induction rule: comm_step.induct)
  case (1 m k q lr rl)
  then show ?case using comm_step.intros(1) [of M m "\<lambda>r. bindP (k r) g"] by simp
next
  case (2 k q lr m rl)
  show ?case using comm_step.intros(2) [of M "\<lambda>r. bindP (k r) g"] by simp
next
  case (3 m p k lr rl)
  then show ?case using comm_step.intros(3) [of M m _ "\<lambda>r. bindP (k r) h"] by simp
next
  case (4 p k m lr rl)
  show ?case using comm_step.intros(4) [of M _ "\<lambda>r. bindP (k r) h"] by simp
qed

lemma comm_bind_run: "(comm_step M)\<^sup>*\<^sup>* c d \<Longrightarrow> (comm_step M)\<^sup>*\<^sup>* (bind_net g h c) (bind_net g h d)"
  by (induction rule: rtranclp_induct) (auto intro: comm_bind rtranclp.rtrancl_into_rtrancl)

lemma meets_bind_said:
  assumes "meets M (p, q, [], []) a b" and "said M e (g a, h b, [], []) c d"
  shows "said M e (bindP p g, bindP q h, [], []) c d"
  using comm_said_run [OF comm_bind_run [OF assms(1) [unfolded meets_def], of g h], of e] assms(2)
  by (auto simp: said_def)

lemma meets_step: "comm_step M c d \<Longrightarrow> meets M d a b \<Longrightarrow> meets M c a b"
  unfolding meets_def by (rule converse_rtranclp_into_rtranclp)

lemma meets_Ret [simp]: "meets M (Ret a, Ret b, [], []) a b"
  by (simp add: meets_def)

lemma said_Ret [simp]: "said M e (Ret a, Ret b, [], []) a b"
  by (simp add: said_def)

text \<open>
  One run to the end whose messages satisfy \<open>M\<close> shows it of all runs: a step that another run takes
  first is taken by this one later, and then its message is under way.
\<close>

lemma net_diamond_under_way:
  "net_step e c a \<Longrightarrow> net_step e c b \<Longrightarrow>
   a = b \<or> (\<exists>d. net_step e a d \<and> net_step e b d \<and> (under_way M c \<longrightarrow> under_way M d \<longrightarrow> under_way M b))"
  by (erule net_step.cases; erule net_step.cases; clarsimp;
      (intro exI conjI, (rule net_step.intros)+)?; auto)

lemma said_strip:
  assumes "((\<lambda>c d. net_step e c d \<and> under_way M d) ^^ n) c (Ret a, Ret b, [], [])" and "net_step e c d" and "under_way M c"
  shows "under_way M d \<and> said M e d a b"
  using assms
proof (induction n arbitrary: c d)
  case 0
  then have "net_step e (Ret a, Ret b, [], []) d" by simp
  then show ?case by (rule notE [OF Ret_final])
next
  case (Suc n)
  obtain x where x: "net_step e c x" "under_way M x" "((\<lambda>c d. net_step e c d \<and> under_way M d) ^^ n) x (Ret a, Ret b, [], [])"
    using relpowp_Suc_D2 [OF Suc.prems(1)] by blast
  from net_diamond_under_way [OF x(1) Suc.prems(2), of M] show ?case
  proof
    assume "x = d"
    then show ?thesis using x by (auto simp: said_def dest: relpowp_imp_rtranclp)
  next
    assume "\<exists>y. net_step e x y \<and> net_step e d y \<and> (under_way M c \<longrightarrow> under_way M y \<longrightarrow> under_way M d)"
    then obtain y where y: "net_step e x y" "net_step e d y" "under_way M y \<Longrightarrow> under_way M d" using Suc.prems(3) by blast
    from Suc.IH [OF x(3) y(1) x(2)] y show ?thesis by (auto simp: said_def intro: converse_rtranclp_into_rtranclp)
  qed
qed

lemma said_always:
  assumes "(net_step e)\<^sup>*\<^sup>* c d" and "said M e c a b" and "under_way M c"
  shows "under_way M d \<and> said M e d a b"
  using assms
proof (induction rule: rtranclp_induct)
  case (step y z)
  then obtain n where "((\<lambda>c d. net_step e c d \<and> under_way M d) ^^ n) y (Ret a, Ret b, [], [])"
    by (auto simp: said_def rtranclp_power)
  then show ?case using said_strip [of n e M y a b z] step by blast
qed blast

text \<open>Symbolic execution: one rule per step, used backwards.\<close>

lemma ex_left_send:
  "meets M (k, q, lr @ [m], rl) a b \<Longrightarrow> M m \<Longrightarrow> meets M (send_or fail m k, q, lr, rl) a b"
  unfolding send_or_def by (rule meets_step [OF comm_step.intros(1)]) simp_all

lemma ex_right_send:
  "meets M (p, k, lr, rl @ [m]) a b \<Longrightarrow> M m \<Longrightarrow> meets M (p, send_or fail m k, lr, rl) a b"
  unfolding send_or_def by (rule meets_step [OF comm_step.intros(3)]) simp_all

lemma ex_left_recv:
  "meets M (k m, q, lr, rl) a b \<Longrightarrow> meets M (recv_or fail k, q, lr, m # rl) a b"
  unfolding recv_or_def by (rule meets_step [OF comm_step.intros(2)]) simp

lemma ex_right_recv:
  "meets M (p, k m, lr, rl) a b \<Longrightarrow> meets M (p, recv_or fail k, m # lr, rl) a b"
  unfolding recv_or_def by (rule meets_step [OF comm_step.intros(4)]) simp

lemma ex_right_closed:
  assumes "said M e (Ret v, k (Inl e), [], rl) a b" and "list_all M rl"
  shows "said M e (Ret v, Recv k, [], rl) a b"
  unfolding said_def
  by (rule converse_rtranclp_into_rtranclp [OF _ assms(1) [unfolded said_def]]) (simp add: assms(2) net_step.intros)

end
