(* ===== verification/B2P_Handshake.thy ===== *)
theory B2P_Handshake
  imports B2P_Crypto B2P_Channel
begin

text \<open>
  The password-authenticated key exchange (src/src/pake.rs) and the two handshakes that run it
  (src/src/handshake.rs): over a message channel and over a publish/subscribe rendezvous. SPAKE2
  is third-party: the record \<open>spake_lib\<close> holds its outgoing message and its final key as functions
  of password, identity and randomness, and \<open>spake_correct\<close> says that two runs with the same
  password and identity agree. The deadline of a handshake is a budget of frames it may read.
\<close>

section \<open>SPAKE2 with key confirmation (src/src/pake.rs)\<close>

datatype role = Receiver | Sender

type_synonym session_key = bytes

record spake_lib =
  spake_msg :: "bytes \<Rightarrow> bytes \<Rightarrow> bytes \<Rightarrow> bytes"
    \<comment> \<open>password, identity, randomness\<close>
  spake_finish :: "bytes \<Rightarrow> bytes \<Rightarrow> bytes \<Rightarrow> bytes \<Rightarrow> bytes option"

definition spake_correct :: "spake_lib \<Rightarrow> bool" where
  "spake_correct S \<longleftrightarrow> (\<forall>pw ident r1 r2. \<exists>k. length k = 32 \<and>
     spake_finish S pw ident r1 (spake_msg S pw ident r2) = Some k \<and>
     spake_finish S pw ident r2 (spake_msg S pw ident r1) = Some k)"

definition stream_key :: "'x crypto_lib_scheme \<Rightarrow> session_key \<Rightarrow> bytes" where
  "stream_key L key = blake3_derive_key L ''b2p-v2 stream key v1'' key"

definition signaling_key :: "'x crypto_lib_scheme \<Rightarrow> session_key \<Rightarrow> bytes" where
  "signaling_key L key = blake3_derive_key L ''b2p-v2 signaling key v1'' key"

record pake =
  pk_password :: bytes
  pk_identity :: bytes
  pk_random :: bytes

definition pake_start :: "spake_lib \<Rightarrow> bytes \<Rightarrow> bytes \<Rightarrow> string \<Rightarrow> pake \<times> bytes" where
  "pake_start S rnd secret topic =
     (let ident = str_bytes (''b2p-v2:'' @ topic) in
      (\<lparr>pk_password = secret, pk_identity = ident, pk_random = rnd\<rparr>,
       spake_msg S secret ident rnd))"

definition pake_finish :: "spake_lib \<Rightarrow> pake \<Rightarrow> bytes \<Rightarrow> session_key res" where
  "pake_finish S p peer_msg =
     bindR (ok_or (Msg ''PAKE handshake failed'')
              (spake_finish S (pk_password p) (pk_identity p) (pk_random p) peer_msg)) (\<lambda>key.
       if length key = 32 then Inr key
       else Inl (Msg (''unexpected PAKE key length '' @ show_nat (length key))))"

fun confirm_tag :: "role \<Rightarrow> bytes" where
  "confirm_tag Receiver = str_bytes ''b2p-v2-confirm-receiver''"
| "confirm_tag Sender = str_bytes ''b2p-v2-confirm-sender''"

definition confirmation :: "'x crypto_lib_scheme \<Rightarrow> session_key \<Rightarrow> role \<Rightarrow> bytes" where
  "confirmation L key sender_role = blake3_keyed_hash L key (confirm_tag sender_role)"

definition verify_confirmation :: "'x crypto_lib_scheme \<Rightarrow> session_key \<Rightarrow> role \<Rightarrow> bytes \<Rightarrow> bool" where
  "verify_confirmation L key peer_role mac = (confirmation L key peer_role = mac)"

text \<open>The keyed hash does not collide on the confirmation texts under these two keys.\<close>

definition confirmations_differ :: "'x crypto_lib_scheme \<Rightarrow> session_key \<Rightarrow> session_key \<Rightarrow> bool" where
  "confirmations_differ L k k' \<longleftrightarrow>
     (\<forall>r. blake3_keyed_hash L k (confirm_tag r) \<noteq> blake3_keyed_hash L k' (confirm_tag r))"

section \<open>Frames (src/src/handshake.rs)\<close>

definition KIND_PAKE :: u8 where "KIND_PAKE = 1"
definition KIND_CONFIRM :: u8 where "KIND_CONFIRM = 2"
definition KIND_SDP :: u8 where "KIND_SDP = 3"
definition KIND_ICE :: u8 where "KIND_ICE = 4"

lemmas KIND_defs = KIND_PAKE_def KIND_CONFIRM_def KIND_SDP_def KIND_ICE_def

fun role_byte :: "role \<Rightarrow> u8" where
  "role_byte Receiver = 0"
| "role_byte Sender = 1"

fun other :: "role \<Rightarrow> role" where
  "other Receiver = Sender"
| "other Sender = Receiver"

definition encode_frame :: "u8 \<Rightarrow> role \<Rightarrow> bytes \<Rightarrow> bytes" where
  "encode_frame k r payload = k # role_byte r # payload"

definition decode_frame :: "bytes \<Rightarrow> (u8 \<times> u8 \<times> bytes) option" where
  "decode_frame frame =
     (if length frame < 2 then None else Some (frame ! 0, frame ! 1, drop 2 frame))"

section \<open>The handshake over a channel\<close>

definition key_exchange_timeout :: err where
  "key_exchange_timeout =
     Ctx (''timed out during the key exchange '' @ em_dash @ '' the other side stopped responding'')
       (Msg ''deadline has elapsed'')"

fun recv_kind ::
  "nat \<Rightarrow> u8 \<Rightarrow> u8 \<Rightarrow> (err \<Rightarrow> 'r) \<Rightarrow> (nat \<Rightarrow> bytes \<Rightarrow> 'r proc) \<Rightarrow> 'r proc" where
  "recv_kind 0 k from_role fail cont = Ret (fail key_exchange_timeout)"
| "recv_kind (Suc n) k from_role fail cont =
     recv_or fail (\<lambda>frame.
       case decode_frame frame of
         Some (k', r, payload) \<Rightarrow>
           (if k' = k \<and> r = from_role then cont n payload
            else recv_kind n k from_role fail cont)
       | None \<Rightarrow> recv_kind n k from_role fail cont)"

definition handshake_channel_inner ::
  "'x crypto_lib_scheme \<Rightarrow> spake_lib \<Rightarrow> bytes \<Rightarrow> nat \<Rightarrow> string \<Rightarrow> bytes \<Rightarrow> role \<Rightarrow>
   session_key res proc" where
  "handshake_channel_inner L S rnd budget ctx password role =
     (let (pake, my_msg) = pake_start S rnd password ctx in
      send_or Inl (encode_frame KIND_PAKE role my_msg) (
      recv_kind budget KIND_PAKE (role_byte (other role)) Inl (\<lambda>budget peer_msg.
      case pake_finish S pake peer_msg of
        Inl e \<Rightarrow> Ret (Inl e)
      | Inr key \<Rightarrow>
          send_or Inl (encode_frame KIND_CONFIRM role (confirmation L key role)) (
          recv_kind budget KIND_CONFIRM (role_byte (other role)) Inl (\<lambda>_ peer_conf.
          if \<not> verify_confirmation L key (other role) peer_conf then Ret (Inl CodeMismatch)
          else Ret (Inr key))))))"

text \<open>The deadline is inside \<open>recv_kind\<close>, so the wrapper adds nothing but its budget.\<close>

definition handshake_over_channel ::
  "'x crypto_lib_scheme \<Rightarrow> spake_lib \<Rightarrow> bytes \<Rightarrow> nat \<Rightarrow> string \<Rightarrow> bytes \<Rightarrow> role \<Rightarrow>
   session_key res proc" where
  "handshake_over_channel L S rnd timeout ctx password role =
     handshake_channel_inner L S rnd timeout ctx password role"

section \<open>The handshake over a rendezvous\<close>

text \<open>
  \<open>Send\<close> is \<^verbatim>\<open>publish\<close>, \<open>Recv\<close> the next frame of the subscription, with any \<open>Inl\<close> for its end.
  The context line is the one \<^verbatim>\<open>handshake_with_timeout\<close> builds for the role.
\<close>

definition rendezvous_timeout :: "role \<Rightarrow> err" where
  "rendezvous_timeout role =
     (let base = ''timed out on the rendezvous '' @ em_dash @ '' is the other side running?'' in
      Ctx (case role of
             Receiver \<Rightarrow> base @ '' '' @ em_dash @ '' re-run `b2p receive` to try again''
           | Sender \<Rightarrow> base) (Msg ''deadline has elapsed''))"

definition stream_ended :: err where
  "stream_ended = Msg ''rendezvous stream ended before the peer responded''"

fun wait_for ::
  "err \<Rightarrow> nat \<Rightarrow> u8 \<Rightarrow> u8 \<Rightarrow> (err \<Rightarrow> 'r) \<Rightarrow> (nat \<Rightarrow> bytes \<Rightarrow> 'r proc) \<Rightarrow> 'r proc" where
  "wait_for late 0 want_kind want_role fail cont = Ret (fail late)"
| "wait_for late (Suc n) want_kind want_role fail cont =
     recv_or (\<lambda>_. fail stream_ended) (\<lambda>frame.
       case decode_frame frame of
         Some (k, r, payload) \<Rightarrow>
           (if k = want_kind \<and> r = want_role then cont n payload
            else wait_for late n want_kind want_role fail cont)
       | None \<Rightarrow> wait_for late n want_kind want_role fail cont)"

definition handshake_inner ::
  "'x crypto_lib_scheme \<Rightarrow> spake_lib \<Rightarrow> bytes \<Rightarrow> err \<Rightarrow> nat \<Rightarrow> unit res \<Rightarrow> string \<Rightarrow> bytes \<Rightarrow> role \<Rightarrow>
   session_key res proc" where
  "handshake_inner L S rnd late budget subscribed topic password role =
     (case subscribed of
        Inl e \<Rightarrow> Ret (Inl e)
      | Inr _ \<Rightarrow>
          (let (pake, my_msg) = pake_start S rnd password topic in
           send_or Inl (encode_frame KIND_PAKE role my_msg) (
           wait_for late budget KIND_PAKE (role_byte (other role)) Inl (\<lambda>budget peer_msg.
           case pake_finish S pake peer_msg of
             Inl e \<Rightarrow> Ret (Inl e)
           | Inr key \<Rightarrow>
               send_or Inl (encode_frame KIND_CONFIRM role (confirmation L key role)) (
               wait_for late budget KIND_CONFIRM (role_byte (other role)) Inl (\<lambda>_ peer_conf.
               if \<not> verify_confirmation L key (other role) peer_conf
               then Ret (Inl (Msg code_mismatch_text))
               else Ret (Inr key)))))))"

definition handshake_with_timeout ::
  "'x crypto_lib_scheme \<Rightarrow> spake_lib \<Rightarrow> bytes \<Rightarrow> unit res \<Rightarrow> string \<Rightarrow> bytes \<Rightarrow> role \<Rightarrow> nat \<Rightarrow>
   session_key res proc" where
  "handshake_with_timeout L S rnd subscribed topic password role timeout =
     handshake_inner L S rnd (rendezvous_timeout role) timeout subscribed topic password role"

section \<open>Facts\<close>

lemma decode_encode_frame [simp]: "decode_frame (encode_frame k r p) = Some (k, role_byte r, p)"
  by (simp add: decode_frame_def encode_frame_def)

lemma decode_frame_Some:
  "decode_frame frame = Some (k, r, p) \<longleftrightarrow> frame = k # r # p"
  by (auto simp: decode_frame_def Suc_le_eq intro!: nth_equalityI split: if_splits)
    (auto simp: nth_Cons split: nat.splits)

lemma role_byte_inj [simp]: "role_byte r = role_byte r' \<longleftrightarrow> r = r'"
  by (cases r; cases r') simp_all

lemma other_neq [simp]: "other r \<noteq> r" "r \<noteq> other r" "other (other r) = r"
  by (cases r; simp)+

lemma confirm_tag_inj: "confirm_tag r = confirm_tag r' \<longleftrightarrow> r = r'"
  by (cases r; cases r') (simp_all add: str_bytes_def)

text \<open>Frames of another kind or role are skipped, whatever they carry.\<close>

definition tagged :: "u8 \<Rightarrow> u8 \<Rightarrow> bytes \<Rightarrow> bool" where
  "tagged k r frame = (\<exists>p. frame = k # r # p)"

text \<open>
  What both waits promise: they skip frames with another tag, continue with the payload of the
  first frame with the wanted one, and fail when the input fails or the budget is used up.
\<close>

locale frame_wait =
  fixes wait :: "nat \<Rightarrow> u8 \<Rightarrow> u8 \<Rightarrow> (err \<Rightarrow> 'r) \<Rightarrow> (nat \<Rightarrow> bytes \<Rightarrow> 'r proc) \<Rightarrow> 'r proc"
  assumes skip: "\<not> tagged k r frame \<Longrightarrow>
      play (wait (Suc n) k r fail cont) (Inr frame # ins) = play (wait n k r fail cont) ins"
    and hit: "play (wait (Suc n) k r fail cont) (Inr (k # r # p) # ins) = play (cont n p) ins"
    and lost: "\<exists>e'. play (wait (Suc n) k r fail cont) (Inl e # ins) = ([], Some (fail e'))"
    and starved: "play (wait (Suc n) k r fail cont) [] = ([], None)"
    and late: "\<exists>e'. wait 0 k r fail cont = Ret (fail e')"
begin

lemma reads:
  assumes "snd (play (wait n k r fail cont) ins) = Some v" and "\<And>e. fail e \<noteq> v"
  shows "\<exists>m p pre rest. ins = pre @ Inr (k # r # p) # rest \<and> snd (play (cont m p) rest) = Some v"
  using assms
proof (induction n arbitrary: ins)
  case 0
  obtain e where "wait 0 k r fail cont = Ret (fail e)" using late by blast
  then show ?case using 0 by simp
next
  case (Suc n)
  show ?case
  proof (cases ins)
    case Nil
    then show ?thesis using Suc.prems by (simp add: starved)
  next
    case (Cons x xs)
    show ?thesis
    proof (cases x)
      case (Inl e)
      obtain e' where "play (wait (Suc n) k r fail cont) (Inl e # xs) = ([], Some (fail e'))"
        using lost by blast
      then show ?thesis using Suc.prems Cons Inl by simp
    next
      case (Inr frame)
      show ?thesis
      proof (cases "tagged k r frame")
        case True
        then obtain p where p: "frame = k # r # p" by (auto simp: tagged_def)
        have "snd (play (cont n p) xs) = Some v"
          using Suc.prems(1) by (simp only: Cons Inr p hit)
        then show ?thesis using Cons Inr p by (metis append_Nil)
      next
        case False
        have "snd (play (wait n k r fail cont) xs) = Some v"
          using Suc.prems(1) by (simp only: Cons Inr skip [OF False])
        from Suc.IH [OF this Suc.prems(2)] show ?thesis using Cons by (metis append_Cons)
      qed
    qed
  qed
qed

lemma finds:
  assumes "list_all (\<lambda>frame. \<not> tagged k r frame) noise"
  shows "play (wait (Suc (length noise + n)) k r fail cont) (map Inr noise @ Inr (k # r # p) # ins) =
    play (cont n p) ins"
  using assms by (induction noise) (simp_all add: hit skip)

end

interpretation in_band: frame_wait recv_kind
proof
  show "play (recv_kind (Suc n) k r fail cont) (Inr frame # ins) = play (recv_kind n k r fail cont) ins"
    if "\<not> tagged k r frame" for n k r and fail :: "err \<Rightarrow> 'r" and cont frame ins
    using that by (auto simp: tagged_def decode_frame_Some split: option.split)
  show "play (recv_kind (Suc n) k r fail cont) (Inr (k # r # p) # ins) = play (cont n p) ins"
    for n k r and fail :: "err \<Rightarrow> 'r" and cont p ins
    by (simp add: decode_frame_def)
qed auto

interpretation pub_sub: frame_wait "wait_for late" for late
proof
  show "play (wait_for late (Suc n) k r fail cont) (Inr frame # ins) = play (wait_for late n k r fail cont) ins"
    if "\<not> tagged k r frame" for n k r and fail :: "err \<Rightarrow> 'r" and cont frame ins
    using that by (auto simp: tagged_def decode_frame_Some split: option.split)
  show "play (wait_for late (Suc n) k r fail cont) (Inr (k # r # p) # ins) = play (cont n p) ins"
    for n k r and fail :: "err \<Rightarrow> 'r" and cont p ins
    by (simp add: decode_frame_def)
qed auto

text \<open>No key without a confirmation from the other role that was made with this very key.\<close>

lemma key_needs_confirmation:
  assumes "snd (play (handshake_over_channel L S rnd n ctx pw role) ins) = Some (Inr key)"
  shows "\<exists>pre mid post m. ins = pre @ Inr (encode_frame KIND_PAKE (other role) m) # mid @
      Inr (encode_frame KIND_CONFIRM (other role) (confirmation L key (other role))) # post \<and>
    pake_finish S (fst (pake_start S rnd pw ctx)) m = Inr key"
proof -
  obtain pk msg where st: "pake_start S rnd pw ctx = (pk, msg)" by (cases "pake_start S rnd pw ctx")
  let ?cont1 = "\<lambda>budget peer_msg.
      case pake_finish S pk peer_msg of Inl e \<Rightarrow> Ret (Inl e)
      | Inr key \<Rightarrow> send_or Inl (encode_frame KIND_CONFIRM role (confirmation L key role)) (
          recv_kind budget KIND_CONFIRM (role_byte (other role)) Inl (\<lambda>_ peer_conf.
          if \<not> verify_confirmation L key (other role) peer_conf then Ret (Inl CodeMismatch)
          else Ret (Inr key)))"
  have "snd (play (recv_kind n KIND_PAKE (role_byte (other role)) Inl ?cont1) ins) = Some (Inr key)"
    using assms by (simp add: handshake_over_channel_def handshake_channel_inner_def st)
  from in_band.reads [OF this] obtain b m pre rest
    where 1: "ins = pre @ Inr (KIND_PAKE # role_byte (other role) # m) # rest"
      and c1: "snd (play (?cont1 b m) rest) = Some (Inr key)" by auto
  obtain key' where fin: "pake_finish S pk m = Inr key'"
    using c1 by (cases "pake_finish S pk m") auto
  let ?cont2 = "\<lambda>_ peer_conf.
      if \<not> verify_confirmation L key' (other role) peer_conf then Ret (Inl CodeMismatch)
      else Ret (Inr key')"
  have "snd (play (recv_kind b KIND_CONFIRM (role_byte (other role)) Inl ?cont2) rest) = Some (Inr key)"
    using c1 fin by simp
  from in_band.reads [OF this] obtain b' c mid post
    where 2: "rest = mid @ Inr (KIND_CONFIRM # role_byte (other role) # c) # post"
      and c2: "snd (play (?cont2 b' c) post) = Some (Inr key)" by auto
  from c2 have "key' = key" "c = confirmation L key (other role)"
    by (auto simp: verify_confirmation_def split: if_splits)
  then show ?thesis using 1 2 fin st by (auto simp: encode_frame_def)
qed

section \<open>Two honest peers\<close>

lemma ex_left_kind:
  "meets M (cont n p, q, lr, rl) a b \<Longrightarrow>
   meets M (recv_kind (Suc n) k (role_byte r) fail cont, q, lr, encode_frame k r p # rl) a b"
  unfolding recv_kind.simps by (rule ex_left_recv) simp

lemma ex_right_kind:
  "meets M (q, cont n p, lr, rl) a b \<Longrightarrow>
   meets M (q, recv_kind (Suc n) k (role_byte r) fail cont, encode_frame k r p # lr, rl) a b"
  unfolding recv_kind.simps by (rule ex_right_recv) simp

text \<open>
  Two peers in opposite roles, with their own passwords and randomness, exchange two frames each;
  whatever keys they derive, each accepts exactly when the other's confirmation fits its own key.
\<close>

definition verdict :: "'x crypto_lib_scheme \<Rightarrow> role \<Rightarrow> session_key \<Rightarrow> session_key \<Rightarrow> session_key res" where
  "verdict L role key peer_key =
     (if confirmation L key (other role) = confirmation L peer_key (other role)
      then Inr key else Inl CodeMismatch)"

text \<open>The two frames a peer sends.\<close>

definition handshake_frames ::
  "'x crypto_lib_scheme \<Rightarrow> spake_lib \<Rightarrow> bytes \<Rightarrow> string \<Rightarrow> bytes \<Rightarrow> role \<Rightarrow> session_key \<Rightarrow> bytes list" where
  "handshake_frames L S rnd ctx pw role key =
     [encode_frame KIND_PAKE role (snd (pake_start S rnd pw ctx)),
      encode_frame KIND_CONFIRM role (confirmation L key role)]"

lemma handshake_pair:
  assumes "pake_finish S (fst (pake_start S r1 pw1 ctx)) (snd (pake_start S r2 pw2 ctx)) = Inr k1"
    and "pake_finish S (fst (pake_start S r2 pw2 ctx)) (snd (pake_start S r1 pw1 ctx)) = Inr k2"
    and "list_all M (handshake_frames L S r1 ctx pw1 role k1)"
    and "list_all M (handshake_frames L S r2 ctx pw2 (other role) k2)"
  shows "meets M (handshake_over_channel L S r1 (Suc (Suc n)) ctx pw1 role,
      handshake_over_channel L S r2 (Suc (Suc m)) ctx pw2 (other role), [], [])
    (verdict L role k1 k2) (verdict L (other role) k2 k1)"
proof -
  obtain p1 m1 p2 m2 where st: "pake_start S r1 pw1 ctx = (p1, m1)" "pake_start S r2 pw2 ctx = (p2, m2)"
    by (metis prod.exhaust)
  have fin: "pake_finish S p1 m2 = Inr k1" "pake_finish S p2 m1 = Inr k2"
    using assms st by simp_all
  show ?thesis
    unfolding handshake_over_channel_def handshake_channel_inner_def st Let_def prod.case other_neq(3)
    apply (rule ex_left_send, rule ex_right_send, unfold append_Nil)
    apply (rule ex_left_kind, rule ex_right_kind, unfold fin sum.case)
    apply (rule ex_left_send, rule ex_right_send, unfold append_Nil)
    apply (rule ex_left_kind, rule ex_right_kind)
    using assms(3,4) st apply (simp_all add: verdict_def verify_confirmation_def handshake_frames_def)
    done
qed

lemma spake_agree:
  assumes "spake_correct S"
  shows "\<exists>k. length k = 32 \<and>
    pake_finish S (fst (pake_start S r1 pw ctx)) (snd (pake_start S r2 pw ctx)) = Inr k \<and>
    pake_finish S (fst (pake_start S r2 pw ctx)) (snd (pake_start S r1 pw ctx)) = Inr k"
proof -
  define ident where "ident = str_bytes (''b2p-v2:'' @ ctx)"
  obtain k where k: "length k = 32"
    "spake_finish S pw ident r1 (spake_msg S pw ident r2) = Some k"
    "spake_finish S pw ident r2 (spake_msg S pw ident r1) = Some k"
    using assms unfolding spake_correct_def by blast
  show ?thesis unfolding pake_start_def pake_finish_def Let_def ident_def [symmetric]
    by (rule exI [of _ k]) (simp add: k)
qed

lemma verdict_same [simp]: "verdict L role k k = Inr k"
  by (simp add: verdict_def)

lemma verdict_differ:
  assumes "confirmations_differ L k k'"
  shows "verdict L role k k' = Inl CodeMismatch" and "verdict L role k' k = Inl CodeMismatch"
  using assms by (auto simp: verdict_def confirmation_def confirmations_differ_def) metis

text \<open>
  On a shared topic: echoes, other transfers' frames and stale frames of other kinds before the
  peer's two frames change nothing.
\<close>

lemma rendezvous_robust:
  assumes "list_all (\<lambda>frame. \<not> tagged KIND_PAKE (role_byte (other role)) frame) noise1"
    and "list_all (\<lambda>frame. \<not> tagged KIND_CONFIRM (role_byte (other role)) frame) noise2"
    and fin: "pake_finish S (fst (pake_start S rnd pw topic)) m = Inr key"
  shows "play (handshake_with_timeout L S rnd (Inr ()) topic pw role
      (Suc (length noise1 + Suc (length noise2 + n))))
      (map Inr noise1 @ Inr (encode_frame KIND_PAKE (other role) m) # map Inr noise2 @
       Inr (encode_frame KIND_CONFIRM (other role) c) # ins) =
    ([encode_frame KIND_PAKE role (snd (pake_start S rnd pw topic)),
      encode_frame KIND_CONFIRM role (confirmation L key role)],
     Some (if c = confirmation L key (other role) then Inr key else Inl (Msg code_mismatch_text)))"
proof -
  obtain pk msg where st: "pake_start S rnd pw topic = (pk, msg)" by (cases "pake_start S rnd pw topic")
  have enc: "encode_frame k r p = k # role_byte r # p" for k r p by (simp add: encode_frame_def)
  show ?thesis
    unfolding handshake_with_timeout_def handshake_inner_def st sum.case Let_def prod.case
      play_send_or enc pub_sub.finds [OF assms(1)]
    using fin
    by (auto simp del: wait_for.simps simp: st verify_confirmation_def pub_sub.finds [OF assms(2)])
qed

end
