(* ===== verification/B2P_Relay.thy ===== *)
theory B2P_Relay
  imports B2P_Framing B2P_Json B2P_Handshake
begin

text \<open>
  The relay transport above its wire format (src/src/transport/relay.rs): dialing a room, waiting
  for the peer, the flow-controlled channel and its I/O task, the doctor's probe. Sockets, TLS and
  HTTP upgrade are the fields of \<open>relay_net\<close>. What the \<^verbatim>\<open>select!\<close> loops wait for is an event;
  a run of a loop is its fold over a list of events.
\<close>

definition ACK_EVERY :: u64 where
  "ACK_EVERY = 1024 * 1024"

definition WINDOW :: u64 where
  "WINDOW = 8 * 1024 * 1024"

definition PROGRESS_TIMEOUT_SECS :: nat where
  "PROGRESS_TIMEOUT_SECS = 5 * 60"

definition PING :: string where
  "PING = ''{\"t\":\"ping\"}''"

definition lost :: "string \<Rightarrow> err" where
  "lost msg = TransportLost (Msg msg)"

definition normalize_relay_url :: "string \<Rightarrow> string res" where
  "normalize_relay_url s0 =
     (let s = trim_end_matches (\<lambda>c. c = CHR ''/'') (trim s0) in
      case strip_pre ''https://'' s of
        Some rest \<Rightarrow> Inr (''wss://'' @ rest)
      | None \<Rightarrow>
          (case strip_pre ''http://'' s of
             Some rest \<Rightarrow> Inr (''ws://'' @ rest)
           | None \<Rightarrow>
               if prefix ''wss://'' s \<or> prefix ''ws://'' s then Inr s
               else Inl (Msg (''relay URL must start with wss:// or https:// (got '' @ [CHR 39] @ s @
                              [CHR 39] @ '')''))))"

datatype control = PeerJoined | PeerLeft | Pong | Ack u64

definition parse_control :: "json_parser \<Rightarrow> string \<Rightarrow> control option" where
  "parse_control P t =
     Option.bind (P t) (\<lambda>v.
     Option.bind (json_get ''t'' v) (\<lambda>tv.
     Option.bind (json_str tv) (\<lambda>s.
       if s = ''peer-joined'' then Some PeerJoined
       else if s = ''peer-left'' then Some PeerLeft
       else if s = ''pong'' then Some Pong
       else if s = ''ack'' then
         Option.bind (json_get ''n'' v) (\<lambda>nv. map_option Ack (json_u64 nv))
       else None)))"

section \<open>Dialing\<close>

datatype dial_result = DialOk | DialTimeout | DialHttp nat | DialError string

record relay_net =
  into_client_request :: "string \<Rightarrow> unit res"
  parse_header :: "string \<Rightarrow> unit res"
  tls_connector :: "unit res"
  ws_connect :: "string \<Rightarrow> string option \<Rightarrow> dial_result"
    \<comment> \<open>request URL, authorization header\<close>

definition relay_dial_help :: "dial_result \<Rightarrow> string \<Rightarrow> err" where
  "relay_dial_help e base =
     (case e of
        DialHttp s \<Rightarrow>
          if s = 401 then
            Msg (''the relay '' @ base @ '' requires a token '' @ em_dash @ '' set it with `b2p relay set '' @
                 base @ '' --token <T>` or B2P_RELAY_TOKEN'')
          else if s = 409 then Ctx (''relay '' @ base @ '' refused the join'') RoomBusy
          else Msg (''the relay '' @ base @ '' refused the connection (HTTP '' @ show_nat s @ '')'')
      | DialError m \<Rightarrow> Ctx (''could not connect to the relay '' @ base) (Msg m)
      | _ \<Rightarrow> Msg [])"

definition role_query :: "role \<Rightarrow> string" where
  "role_query r = (case r of Receiver \<Rightarrow> ''recv'' | Sender \<Rightarrow> ''send'')"

definition dial :: "relay_net \<Rightarrow> string \<Rightarrow> string \<Rightarrow> role \<Rightarrow> string option \<Rightarrow> unit res" where
  "dial N relay_url room role token =
     bindR (normalize_relay_url relay_url) (\<lambda>base.
     let url = base @ ''/v1/room/'' @ room @ ''?role='' @ role_query role;
         header = map_option (\<lambda>t. ''Bearer '' @ t) token in
     bindR (into_client_request N url) (\<lambda>_.
     bindR (case header of Some h \<Rightarrow> parse_header N h | None \<Rightarrow> Inr ()) (\<lambda>_.
     bindR (tls_connector N) (\<lambda>_.
     case ws_connect N url header of
       DialOk \<Rightarrow> Inr ()
     | DialTimeout \<Rightarrow> Inl (Msg (''timed out connecting to the relay '' @ base))
     | e \<Rightarrow> Inl (relay_dial_help e base)))))"

datatype ws_msg = WsBinary bytes | WsText string | WsClose | WsOther

type_synonym ws_item = "(string + ws_msg) option"

datatype wait_event = Deadline | PingTick bool | Incoming ws_item

text \<open>\<open>None\<close>: still waiting when the events are used up.\<close>

fun wait_peer :: "json_parser \<Rightarrow> wait_event list \<Rightarrow> unit res option" where
  "wait_peer P [] = None"
| "wait_peer P (Deadline # es) =
     Some (Inl (Msg (''timed out waiting for the other side '' @ em_dash @
                     '' is it running with the same code?'')))"
| "wait_peer P (PingTick ok # es) =
     (if \<not> ok then Some (Inl (WaitClosed ''keepalive failed'')) else wait_peer P es)"
| "wait_peer P (Incoming item # es) =
     (case item of
        Some (Inl e) \<Rightarrow> Some (Inl (WaitClosed (''socket error: '' @ e)))
      | None \<Rightarrow> Some (Inl (WaitClosed ''connection closed''))
      | Some (Inr (WsText t)) \<Rightarrow>
          if parse_control P t = Some PeerJoined then Some (Inr ()) else wait_peer P es
      | Some (Inr WsClose) \<Rightarrow> Some (Inl (WaitClosed ''room expired or relay restarted''))
      | Some (Inr _) \<Rightarrow> wait_peer P es)"

section \<open>The channel\<close>

datatype out_msg = OutFrame bytes | OutClose

record relay_channel =
  rc_sent :: u64
  rc_acked :: u64
  rc_dead :: "string option"
  rc_open :: bool
    \<comment> \<open>whether the I/O task still takes messages\<close>

definition relay_spawn :: relay_channel where
  "relay_spawn = \<lparr>rc_sent = 0, rc_acked = 0, rc_dead = None, rc_open = True\<rparr>"

definition relay_connect ::
  "relay_net \<Rightarrow> json_parser \<Rightarrow> string \<Rightarrow> string \<Rightarrow> role \<Rightarrow> string option \<Rightarrow> wait_event list \<Rightarrow>
   relay_channel res option" where
  "relay_connect N P relay_url room role token events =
     (case dial N relay_url room role token of
        Inl e \<Rightarrow> Some (Inl e)
      | Inr _ \<Rightarrow> map_option (\<lambda>r. bindR r (\<lambda>_. Inr relay_spawn)) (wait_peer P events))"

definition death_reason :: "relay_channel \<Rightarrow> string \<Rightarrow> err" where
  "death_reason ch fallback = lost (case rc_dead ch of Some r \<Rightarrow> r | None \<Rightarrow> fallback)"

definition saturating_sub :: "u64 \<Rightarrow> u64 \<Rightarrow> u64" where
  "saturating_sub a b = (if b \<le> a then a - b else 0)"

definition unacked :: "relay_channel \<Rightarrow> u64" where
  "unacked ch = saturating_sub (rc_sent ch) (rc_acked ch)"

definition window_open :: "relay_channel \<Rightarrow> nat \<Rightarrow> bool" where
  "window_open ch len \<longleftrightarrow> unacked ch + of_nat len \<le> WINDOW \<or> unacked ch < ACK_EVERY"

text \<open>What a blocked send wakes up to: a new acknowledgement count, the end of the I/O task, or the watchdog.\<close>

datatype ack_wait = AckChanged u64 | AckClosed "string option" | NoProgress

fun window_loop ::
  "relay_channel \<Rightarrow> nat \<Rightarrow> ack_wait list \<Rightarrow> (relay_channel res \<times> relay_channel) option" where
  "window_loop ch len [] = (if window_open ch len then Some (Inr ch, ch) else None)"
| "window_loop ch len (w # ws) =
     (if window_open ch len then Some (Inr ch, ch)
      else (case w of
              AckChanged n \<Rightarrow> window_loop (ch\<lparr>rc_acked := n\<rparr>) len ws
            | AckClosed d \<Rightarrow>
                (let ch = ch\<lparr>rc_dead := d, rc_open := False\<rparr> in
                 Some (Inl (death_reason ch ''connection lost while sending''), ch))
            | NoProgress \<Rightarrow>
                Some (Inl (lost (''no acknowledgment progress for '' @ show_nat PROGRESS_TIMEOUT_SECS @
                  ''s '' @ em_dash @ '' the receiver appears stalled'')), ch)))"

text \<open>The result, the channel afterwards, and the message handed to the I/O task.\<close>

definition relay_send ::
  "relay_channel \<Rightarrow> bytes \<Rightarrow> ack_wait list \<Rightarrow> (unit res \<times> relay_channel \<times> out_msg option) option" where
  "relay_send ch msg waits =
     (if length msg > MAX_LOGICAL_FRAME
      then Some (Inl (Msg (''a metadata frame of '' @ show_nat (length msg) @
             '' bytes exceeds the relay limit ('' @ show_nat MAX_LOGICAL_FRAME @ '') '' @ em_dash @
             '' for folders with very many files, archive first (e.g. tar.gz) and send the single file'')),
             ch, None)
      else
        (case window_loop ch (length msg) waits of
           None \<Rightarrow> None
         | Some (Inl e, ch) \<Rightarrow> Some (Inl e, ch, None)
         | Some (Inr _, ch) \<Rightarrow>
             (let ch = ch\<lparr>rc_sent := rc_sent ch + of_nat (length msg)\<rparr> in
              if rc_open ch then Some (Inr (), ch, Some (OutFrame msg))
              else Some (Inl (death_reason ch ''connection lost while sending''), ch, None))))"

definition relay_recv :: "relay_channel \<Rightarrow> bytes option \<Rightarrow> bytes res" where
  "relay_recv ch item = ok_or (death_reason ch ''the other side disconnected'') item"

text \<open>
  Closing: the message for the I/O task, and how often the wait for its end wakes up. \<open>ws\<close> are the
  changes of the death reason within five seconds, \<open>None\<close> the end of the task.
\<close>

fun death_waits :: "string option \<Rightarrow> string option option list \<Rightarrow> nat" where
  "death_waits (Some reason) ws = 0"
| "death_waits None [] = 0"
| "death_waits None (None # ws) = 1"
| "death_waits None (Some d # ws) = Suc (death_waits d ws)"

definition relay_close :: "relay_channel \<Rightarrow> string option option list \<Rightarrow> out_msg option \<times> nat" where
  "relay_close ch ws = (if rc_open ch then Some OutClose else None, death_waits (rc_dead ch) ws)"

section \<open>The I/O task\<close>

record io_state =
  io_pending :: "bytes list"
  io_debatch :: debatcher
  io_consumed :: u64
  io_acked_out :: u64
  io_closing :: bool

definition io_start :: io_state where
  "io_start = \<lparr>io_pending = [], io_debatch = \<lparr>db_partial = []\<rparr>, io_consumed = 0, io_acked_out = 0,
     io_closing = False\<rparr>"

text \<open>
  \<open>Flushed\<close>: how the pending socket write ended. \<open>AppOut m queued\<close>: the application's queue yields
  \<open>m\<close> (\<open>None\<close> when it is closed) and has \<open>queued\<close> behind it. \<open>WsItem item room ok\<close>: the socket
  yields \<open>item\<close>; the consumer takes \<open>room\<close> more frames (\<open>None\<close>: all); an acknowledgement write
  ends as \<open>ok\<close>.
\<close>

datatype io_event =
    Flushed "string option"
  | AppOut "out_msg option" "out_msg list"
  | PingDue bool
  | WsItem ws_item "nat option" bool

datatype io_out = ToWs ws_msg | ToApp bytes | SetAcked u64

fun take_queued :: "out_msg list \<Rightarrow> bytes list \<times> bool" where
  "take_queued [] = ([], False)"
| "take_queued (OutFrame f # q) = (case take_queued q of (fs, c) \<Rightarrow> (f # fs, c))"
| "take_queued (OutClose # q) = ([], True)"

fun hand_over :: "bytes list \<Rightarrow> nat option \<Rightarrow> u64 \<Rightarrow> bytes list \<times> u64 \<times> bool" where
  "hand_over [] room consumed = ([], consumed, False)"
| "hand_over (f # fs) room consumed =
     (let consumed = consumed + of_nat (length f) in
      case room of
        Some 0 \<Rightarrow> ([], consumed, True)
      | _ \<Rightarrow>
          (case hand_over fs (map_option (\<lambda>n. n - 1) room) consumed of
             (d, c, closed) \<Rightarrow> (f # d, c, closed)))"

definition ack_text :: "u64 \<Rightarrow> string" where
  "ack_text n = ''{\"t\":\"ack\",\"n\":'' @ show_u64 n @ ''}''"

definition io_binary ::
  "io_state \<Rightarrow> bytes \<Rightarrow> nat option \<Rightarrow> bool \<Rightarrow> io_out list \<times> (string + io_state)" where
  "io_binary st b room ack_ok =
     (case debatch_push (io_debatch st) b of
        (Inl e, _) \<Rightarrow> ([], Inl (''bad frame from the relay: '' @ display_err e))
      | (Inr frames, d) \<Rightarrow>
          (case hand_over frames room (io_consumed st) of
             (delivered, consumed, gone) \<Rightarrow>
               (let st = st\<lparr>io_debatch := d, io_consumed := consumed,
                            io_closing := (gone \<or> io_closing st)\<rparr>;
                    outs = map ToApp delivered in
                if ACK_EVERY \<le> consumed - io_acked_out st
                then
                  (if ack_ok
                   then (outs @ [ToWs (WsText (ack_text consumed))], Inr (st\<lparr>io_acked_out := consumed\<rparr>))
                   else (outs, Inl ''relay connection dropped (ack failed)''))
                else (outs, Inr st))))"

definition io_iter ::
  "json_parser \<Rightarrow> io_state \<Rightarrow> io_event \<Rightarrow> io_out list \<times> (string + io_state)" where
  "io_iter P st ev =
     (case pack_frames (io_pending st) of
        (Some payload, rest) \<Rightarrow>
          (case ev of
             Flushed None \<Rightarrow> ([ToWs (WsBinary payload)], Inr (st\<lparr>io_pending := rest\<rparr>))
           | Flushed (Some e) \<Rightarrow> ([], Inl (''could not send to the relay: '' @ e))
           | _ \<Rightarrow> ([], Inr st))
      | (None, _) \<Rightarrow>
          if io_closing st then ([ToWs WsClose], Inl ''closed'')
          else
            (case ev of
               Flushed _ \<Rightarrow> ([], Inr st)
             | AppOut (Some (OutFrame f)) queued \<Rightarrow>
                 (case take_queued queued of (fs, closing) \<Rightarrow>
                  ([], Inr (st\<lparr>io_pending := io_pending st @ f # fs, io_closing := closing\<rparr>)))
             | AppOut _ _ \<Rightarrow> ([], Inr (st\<lparr>io_closing := True\<rparr>))
             | PingDue ok \<Rightarrow>
                 if ok then ([ToWs (WsText PING)], Inr st)
                 else ([], Inl ''relay connection dropped (keepalive failed)'')
             | WsItem item room ack_ok \<Rightarrow>
                 (case item of
                    Some (Inl e) \<Rightarrow> ([], Inl (''relay socket error: '' @ e))
                  | None \<Rightarrow> ([], Inl ''the relay closed the connection'')
                  | Some (Inr (WsBinary b)) \<Rightarrow> io_binary st b room ack_ok
                  | Some (Inr (WsText t)) \<Rightarrow>
                      (case parse_control P t of
                         Some (Ack n) \<Rightarrow> ([SetAcked n], Inr st)
                       | Some PeerLeft \<Rightarrow> ([], Inl ''the other side disconnected'')
                       | _ \<Rightarrow> ([], Inr st))
                  | Some (Inr WsClose) \<Rightarrow> ([], Inl ''the relay closed the connection'')
                  | Some (Inr WsOther) \<Rightarrow> ([], Inr st))))"

text \<open>A run: the outputs, and the reason the loop ended with, if it did.\<close>

fun io_task :: "json_parser \<Rightarrow> io_state \<Rightarrow> io_event list \<Rightarrow> io_out list \<times> (string + io_state)" where
  "io_task P st [] = ([], Inr st)"
| "io_task P st (ev # evs) =
     (case io_iter P st ev of
        (outs, Inl reason) \<Rightarrow> (outs, Inl reason)
      | (outs, Inr st) \<Rightarrow> (case io_task P st evs of (outs', r) \<Rightarrow> (outs @ outs', r)))"

section \<open>The probe\<close>

datatype probe_event = ProbeTimeout | ProbeItem ws_item

fun probe_loop :: "json_parser \<Rightarrow> probe_event list \<Rightarrow> unit res option" where
  "probe_loop P [] = None"
| "probe_loop P (ProbeTimeout # es) =
     Some (Inl (Msg ''relay accepted the connection but never answered a ping''))"
| "probe_loop P (ProbeItem item # es) =
     (case item of
        None \<Rightarrow> Some (Inl (Msg ''relay closed the connection during the probe''))
      | Some (Inl e) \<Rightarrow> Some (Inl (Msg e))
      | Some (Inr (WsText t)) \<Rightarrow>
          if parse_control P t = Some Pong then Some (Inr ()) else probe_loop P es
      | Some (Inr _) \<Rightarrow> probe_loop P es)"

definition probe ::
  "relay_net \<Rightarrow> json_parser \<Rightarrow> (bytes \<Rightarrow> string) \<Rightarrow> bytes \<Rightarrow> string \<Rightarrow> string option \<Rightarrow> string option \<Rightarrow>
   probe_event list \<Rightarrow> unit res option" where
  "probe N P hex_encode rnd relay_url token ping_error events =
     (case dial N relay_url (''doctor'' @ hex_encode rnd) Receiver token of
        Inl e \<Rightarrow> Some (Inl e)
      | Inr _ \<Rightarrow>
          (case ping_error of
             Some e \<Rightarrow> Some (Inl (Msg e))
           | None \<Rightarrow> probe_loop P events))"

section \<open>Flow control\<close>

lemma hand_over_all: "fst (hand_over fs None c) = fs"
proof (induction fs arbitrary: c)
  case (Cons f fs)
  show ?case using Cons.IH [of "c + of_nat (length f)"] by (auto simp: Let_def split: prod.splits)
qed simp

text \<open>After every turn of the loop less than \<open>ACK_EVERY\<close> of what was consumed is unacknowledged.\<close>

definition ack_inv :: "io_state \<Rightarrow> bool" where
  "ack_inv st \<longleftrightarrow> io_consumed st - io_acked_out st < ACK_EVERY"

lemma ack_inv_start: "ack_inv io_start"
  by (simp add: ack_inv_def io_start_def ACK_EVERY_def)

lemma ack_inv_binary: "io_binary st b room ok = (outs, Inr st') \<Longrightarrow> ack_inv st'"
  by (auto simp: io_binary_def ack_inv_def Let_def ACK_EVERY_def
      split: prod.splits sum.splits if_splits)

lemma ack_inv_iter:
  assumes "ack_inv st" and "io_iter P st ev = (outs, Inr st')"
  shows "ack_inv st'"
proof -
  obtain pl rest where pk: "pack_frames (io_pending st) = (pl, rest)" by (metis prod.exhaust)
  show ?thesis
  proof (cases pl)
    case (Some payload)
    then show ?thesis using assms pk
      by (cases ev) (auto simp: io_iter_def ack_inv_def split: option.splits)
  next
    case None
    show ?thesis
    proof (cases ev)
      case (WsItem item room ok)
      then show ?thesis using assms pk None
        by (auto simp: io_iter_def intro: ack_inv_binary
            split: if_splits option.splits sum.splits ws_msg.splits control.splits)
    qed (use assms pk None in \<open>auto simp: io_iter_def ack_inv_def
        split: if_splits option.splits out_msg.splits prod.splits\<close>)
  qed
qed

lemma ack_inv_task: "ack_inv st \<Longrightarrow> io_task P st evs = (outs, Inr st') \<Longrightarrow> ack_inv st'"
proof (induction evs arbitrary: st outs)
  case Nil
  then show ?case by simp
next
  case (Cons ev evs)
  then show ?case by (auto split: prod.splits sum.splits dest: ack_inv_iter)
qed

text \<open>
  So a sender whose bytes were all consumed, and which has seen the acknowledgements, is let
  through, however large its next frame is.
\<close>

lemma drained_window_open:
  assumes "ack_inv st" and "rc_acked ch = io_acked_out st" and "io_consumed st = rc_sent ch"
  shows "window_open ch len"
proof -
  have "unacked ch < ACK_EVERY"
    using assms by (auto simp: unacked_def saturating_sub_def ack_inv_def ACK_EVERY_def)
  then show ?thesis by (simp add: window_open_def)
qed

lemma window_loop_Inr:
  "window_loop ch len ws = Some (Inr ch', ch'') \<Longrightarrow>
   ch'' = ch' \<and> window_open ch' len \<and> rc_sent ch' = rc_sent ch \<and> rc_open ch' = rc_open ch"
  by (induction ch len ws rule: window_loop.induct)
    (auto split: if_splits ack_wait.splits simp: Let_def)

lemma unacked_nat: "unat (unacked ch) = unat (rc_sent ch) - unat (rc_acked ch)"
  by (auto simp: unacked_def saturating_sub_def unat_sub_u64 word_le_nat_alt)

lemma window_open_bound:
  assumes "window_open ch len" and "unat (rc_sent ch) + len < 2 ^ 64"
  shows "unat (rc_sent ch) - unat (rc_acked ch) + len \<le> max (8 * 1024 * 1024) (len + (1024 * 1024 - 1))"
proof -
  have lw: "unat (of_nat len :: u64) = len" using assms(2) by (intro unat_of_nat_u64) linarith
  have sum: "unat (unacked ch + of_nat len) = unat (rc_sent ch) - unat (rc_acked ch) + len"
    using unat_add_u64 [of "unacked ch" "of_nat len"] assms(2) by (simp add: unacked_nat lw)
  from assms(1) consider "unacked ch + of_nat len \<le> WINDOW" | "unacked ch < ACK_EVERY"
    by (auto simp: window_open_def)
  then show ?thesis
  proof cases
    case 1
    then have "unat (unacked ch + of_nat len) \<le> 8 * 1024 * 1024"
      by (simp add: WINDOW_def word_le_nat_alt)
    then show ?thesis unfolding sum by simp
  next
    case 2
    then have "unat (rc_sent ch) - unat (rc_acked ch) < 1024 * 1024"
      by (simp add: ACK_EVERY_def word_less_nat_alt unacked_nat)
    then show ?thesis by simp
  qed
qed

lemma relay_send_bound:
  assumes "relay_send ch msg waits = Some (Inr (), ch', out)" and "unat (rc_sent ch) + length msg < 2 ^ 64"
  shows "unat (rc_sent ch') - unat (rc_acked ch') \<le>
      max (8 * 1024 * 1024) (length msg + (1024 * 1024 - 1)) \<and>
    out = Some (OutFrame msg) \<and> length msg \<le> MAX_LOGICAL_FRAME"
proof -
  from assms(1) have len: "length msg \<le> MAX_LOGICAL_FRAME" by (auto simp: relay_send_def split: if_splits)
  from assms(1) len obtain ch1 ch2 where w: "window_loop ch (length msg) waits = Some (Inr ch1, ch2)"
    and ch': "ch' = ch2\<lparr>rc_sent := rc_sent ch2 + of_nat (length msg)\<rparr>" and out: "out = Some (OutFrame msg)"
    by (auto simp: relay_send_def Let_def split: option.splits prod.splits sum.splits if_splits)
  from window_loop_Inr [OF w] have c: "ch2 = ch1" "window_open ch1 (length msg)" "rc_sent ch1 = rc_sent ch"
    by auto
  have u: "unat (rc_sent ch') = unat (rc_sent ch1) + length msg"
    using assms(2) c ch' unat_add_u64 [of "rc_sent ch1" "of_nat (length msg)"]
      unat_of_nat_u64 [of "length msg"] by simp
  have "unat (rc_sent ch1) + length msg - unat (rc_acked ch1) \<le>
      unat (rc_sent ch1) - unat (rc_acked ch1) + length msg" by linarith
  then show ?thesis using window_open_bound [OF c(2)] assms(2) c u ch' out len by simp
qed

text \<open>Errors of the channel: only the oversized frame is not a transport loss.\<close>

lemma window_loop_Inl: "window_loop ch len ws = Some (Inl e, ch') \<Longrightarrow> is_TransportLost e"
  by (induction ch len ws rule: window_loop.induct)
    (auto split: if_splits ack_wait.splits simp: Let_def death_reason_def lost_def)

lemma relay_send_error:
  assumes "relay_send ch msg waits = Some (Inl e, ch', out)"
  shows "is_TransportLost e \<longleftrightarrow> length msg \<le> MAX_LOGICAL_FRAME" and "out = None"
  using assms
  by (auto simp: relay_send_def Let_def death_reason_def lost_def
      split: if_splits option.splits prod.splits sum.splits dest: window_loop_Inl)

lemma relay_recv_error: "relay_recv ch item = Inl e \<Longrightarrow> is_TransportLost e"
  by (cases item) (auto simp: relay_recv_def death_reason_def lost_def)

section \<open>Addresses\<close>

lemma normalize_scheme:
  "normalize_relay_url s = Inr u \<Longrightarrow> prefix ''wss://'' u \<or> prefix ''ws://'' u"
  by (auto simp: normalize_relay_url_def Let_def split: option.splits if_splits)

text \<open>The token is sent in the header of the dialed relay only.\<close>

lemma dial_errors:
  assumes "normalize_relay_url relay_url = Inr base" and "into_client_request N (base @ ''/v1/room/'' @ room @ ''?role='' @ role_query role) = Inr ()"
    and "\<And>h. parse_header N h = Inr ()" and "tls_connector N = Inr ()"
    and "ws_connect N (base @ ''/v1/room/'' @ room @ ''?role='' @ role_query role)
      (map_option (\<lambda>t. ''Bearer '' @ t) token) = DialHttp 409"
  shows "\<exists>e. dial N relay_url room role token = Inl e \<and> is_RoomBusy e"
  using assms by (simp add: dial_def Let_def relay_dial_help_def split: option.split)

end
