(* ===== verification/B2P_Protocol.thy ===== *)
theory B2P_Protocol
  imports B2P_Crypto
begin

text \<open>
  The messages both transports exchange (src/src/protocol.rs): the manifest and its
  acknowledgements, the run-length form of the staged indices, and the sealed JSON wrapper.
  \<^verbatim>\<open>serde_json\<close> is third-party: the record \<open>proto_lib\<close> extends the library argument with one
  encoder and one decoder per message type, and \<open>json_correct\<close> names the round trip relied on.
\<close>

definition PROTOCOL_VERSION :: u32 where
  "PROTOCOL_VERSION = 1"

datatype kind = KFile | KTar | KText

record entry =
  e_path :: string
  e_size :: u64

record manifest =
  m_version :: u32
  m_transfer_id :: string
  m_kind :: kind
  m_name :: string
  m_entries :: "entry list"
  m_total_size :: u64
  m_chunk_size :: u64
  m_text :: "string option"

definition manifest_total_chunks :: "manifest \<Rightarrow> u64 res" where
  "manifest_total_chunks m = div_ceil (m_total_size m) (m_chunk_size m)"

record manifest_ack =
  ma_accepted :: bool
  ma_complete :: bool
  ma_have :: "u64 list"

record stream_manifest_ack =
  sa_accepted :: bool
  sa_complete :: bool
  sa_have_runs :: "(u64 \<times> u64) list"

record status_resp =
  sr_have :: "u64 list"

record commit =
  co_blake3_hex :: string

record commit_ack =
  ca_ok :: bool
  ca_error :: "string option"

definition runs_push :: "u64 \<Rightarrow> (u64 \<times> u64) list \<Rightarrow> (u64 \<times> u64) list" where
  "runs_push i runs =
     (if runs \<noteq> [] \<and> fst (last runs) + snd (last runs) = i
      then butlast runs @ [(fst (last runs), snd (last runs) + 1)]
      else runs @ [(i, 1)])"

definition runs_from_sorted :: "u64 list \<Rightarrow> (u64 \<times> u64) list" where
  "runs_from_sorted sorted_is = fold runs_push sorted_is []"

definition runs_contain :: "(u64 \<times> u64) list \<Rightarrow> u64 \<Rightarrow> bool" where
  "runs_contain runs i = list_ex (\<lambda>(s, l). s \<le> i \<and> i < s + l) runs"

record proto_lib = crypto_lib +
  js_manifest :: "manifest \<Rightarrow> bytes"
  un_manifest :: "bytes \<Rightarrow> manifest option"
  js_manifest_ack :: "manifest_ack \<Rightarrow> bytes"
  un_manifest_ack :: "bytes \<Rightarrow> manifest_ack option"
  js_stream_ack :: "stream_manifest_ack \<Rightarrow> bytes"
  un_stream_ack :: "bytes \<Rightarrow> stream_manifest_ack option"
  js_status :: "status_resp \<Rightarrow> bytes"
  un_status :: "bytes \<Rightarrow> status_resp option"
  js_commit :: "commit \<Rightarrow> bytes"
  un_commit :: "bytes \<Rightarrow> commit option"
  js_commit_ack :: "commit_ack \<Rightarrow> bytes"
  un_commit_ack :: "bytes \<Rightarrow> commit_ack option"

definition json_correct :: "'x proto_lib_scheme \<Rightarrow> bool" where
  "json_correct L \<longleftrightarrow>
     (\<forall>v. un_manifest L (js_manifest L v) = Some v) \<and>
     (\<forall>v. un_manifest_ack L (js_manifest_ack L v) = Some v) \<and>
     (\<forall>v. un_stream_ack L (js_stream_ack L v) = Some v) \<and>
     (\<forall>v. un_status L (js_status L v) = Some v) \<and>
     (\<forall>v. un_commit L (js_commit L v) = Some v) \<and>
     (\<forall>v. un_commit_ack L (js_commit_ack L v) = Some v)"

definition seal_json ::
  "'x crypto_lib_scheme \<Rightarrow> ('v \<Rightarrow> bytes) \<Rightarrow> bytes \<Rightarrow> domain \<Rightarrow> bytes \<Rightarrow> 'v \<Rightarrow> bytes" where
  "seal_json L to_vec key d aad v = seal L key d 0 aad (to_vec v)"

definition open_json ::
  "'x crypto_lib_scheme \<Rightarrow> (bytes \<Rightarrow> 'v option) \<Rightarrow> bytes \<Rightarrow> domain \<Rightarrow> bytes \<Rightarrow> bytes \<Rightarrow> 'v res" where
  "open_json L from_slice key d aad ct =
     bindR (open_sealed L key d 0 aad ct) (\<lambda>pt. ok_or (Msg ''invalid JSON'') (from_slice pt))"

section \<open>Facts\<close>

lemma open_seal_json:
  "aead_correct L \<Longrightarrow> from_slice (to_vec v) = Some v \<Longrightarrow>
   open_json L from_slice k d a (seal_json L to_vec k d a v) = Inr v"
  by (simp add: open_json_def seal_json_def open_seal)

text \<open>A run that ends below the largest word covers the indices its two numbers say.\<close>

definition run_fits :: "u64 \<times> u64 \<Rightarrow> bool" where
  "run_fits r = (unat (fst r) + unat (snd r) < 2 ^ 64)"

lemma run_fits_member:
  "run_fits (s, l) \<Longrightarrow> s \<le> i \<and> i < s + l \<longleftrightarrow> unat s \<le> unat i \<and> unat i < unat s + unat l"
  by (simp add: run_fits_def word_le_nat_alt word_less_nat_alt unat_add_u64)

lemma runs_push_fits:
  assumes "list_all run_fits runs" and "i < U64_MAX"
  shows "list_all run_fits (runs_push i runs)"
proof -
  have i: "unat i + 1 < 2 ^ 64"
    using assms(2) by (rule unat_Suc_lt)
  have one: "run_fits (i, 1)" using i by (simp add: run_fits_def)
  show ?thesis
  proof (cases "runs \<noteq> [] \<and> fst (last runs) + snd (last runs) = i")
    case True
    then obtain s l where sl: "last runs = (s, l)" by (cases "last runs")
    with True assms(1) have fit: "run_fits (s, l)" by (metis last_in_set list_all_iff)
    have "unat s + unat l = unat i"
      using True sl fit unat_add_u64 [of s l] by (simp add: run_fits_def)
    then have "unat (l + 1) = unat l + 1" and "unat s + (unat l + 1) < 2 ^ 64"
      using i unat_add_u64 [of l 1] by auto
    then have "run_fits (s, l + 1)" by (simp add: run_fits_def)
    moreover have "list_all run_fits (butlast runs)"
      using assms(1) by (auto simp: list_all_iff dest: in_set_butlastD)
    ultimately show ?thesis using True sl by (simp add: runs_push_def)
  next
    case False
    then have "runs_push i runs = runs @ [(i, 1)]" by (simp only: runs_push_def if_False)
    then show ?thesis using assms(1) one by simp
  qed
qed

lemma runs_contain_append:
  "runs_contain (xs @ ys) j \<longleftrightarrow> runs_contain xs j \<or> runs_contain ys j"
  by (simp add: runs_contain_def)

lemma runs_contain_push:
  assumes "list_all run_fits runs" and "i < U64_MAX"
  shows "runs_contain (runs_push i runs) j \<longleftrightarrow> runs_contain runs j \<or> j = i"
proof -
  have i: "unat i + 1 < 2 ^ 64"
    using assms(2) by (rule unat_Suc_lt)
  have one: "runs_contain [(i, 1)] j \<longleftrightarrow> j = i"
    using run_fits_member [of i 1 j] i
    by (auto simp: runs_contain_def run_fits_def word_unat_eq_iff)
  show ?thesis
  proof (cases "runs \<noteq> [] \<and> fst (last runs) + snd (last runs) = i")
    case True
    then obtain s l where sl: "last runs = (s, l)" by (cases "last runs")
    with True assms(1) have fit: "run_fits (s, l)" by (metis last_in_set list_all_iff)
    have end_i: "unat s + unat l = unat i"
      using True sl fit unat_add_u64 [of s l] by (simp add: run_fits_def)
    then have l1: "unat (l + 1) = unat l + 1" using i unat_add_u64 [of l 1] by auto
    have fit1: "run_fits (s, l + 1)" using l1 end_i i by (simp add: run_fits_def)
    have "runs_contain [(s, l + 1)] j \<longleftrightarrow> runs_contain [(s, l)] j \<or> j = i"
      using run_fits_member [OF fit1, of j] run_fits_member [OF fit, of j] l1 end_i
      by (auto simp: runs_contain_def word_unat_eq_iff)
    moreover have "runs = butlast runs @ [(s, l)]" using True sl by (metis append_butlast_last_id)
    ultimately show ?thesis
      using True sl runs_contain_append [of "butlast runs" "[(s, l)]" j]
        runs_contain_append [of "butlast runs" "[(s, l + 1)]" j]
      by (simp add: runs_push_def)
  next
    case False
    then show ?thesis using one by (simp only: runs_push_def if_False runs_contain_append)
  qed
qed

lemma runs_fold:
  assumes "list_all run_fits runs" and "\<forall>x \<in> set xs. x < U64_MAX"
  shows "list_all run_fits (fold runs_push xs runs) \<and>
    (\<forall>j. runs_contain (fold runs_push xs runs) j \<longleftrightarrow> runs_contain runs j \<or> j \<in> set xs)"
  using assms
proof (induction xs arbitrary: runs)
  case Nil
  then show ?case by simp
next
  case (Cons x xs)
  then have "list_all run_fits (runs_push x runs)" by (simp add: runs_push_fits)
  then show ?case using Cons.IH [of "runs_push x runs"] Cons.prems by (auto simp: runs_contain_push)
qed

lemma runs_contain_iff:
  "\<forall>x \<in> set xs. x < U64_MAX \<Longrightarrow> runs_contain (runs_from_sorted xs) j \<longleftrightarrow> j \<in> set xs"
  using runs_fold [of "[]" xs] by (simp add: runs_from_sorted_def runs_contain_def)

end
