(* ===== verification/B2P_Fs.thy ===== *)
theory B2P_Fs
  imports B2P_Prelude
begin

text \<open>
  The file system as the programs see it: a partial map from paths (component lists) to
  directories and files, and the operations of \<^verbatim>\<open>std::fs\<close> the sources call. Every
  operation may fail: \<open>io_fault\<close> holds how many operations still succeed and how many bytes of
  the first failing write reach the disk, so a theorem over all values of \<open>io_fault\<close> covers a
  failure, or a crash, at every point. A failing rename, removal or length change has no effect.
\<close>

type_synonym path = "string list"

fun path_text :: "path \<Rightarrow> string" where
  "path_text [] = []"
| "path_text [c] = c"
| "path_text (c # cs) = c @ ''/'' @ path_text cs"

datatype node = Dir | File bytes

record fs =
  files :: "path \<Rightarrow> node option"
  io_fault :: "(nat \<times> nat) option"

type_synonym 'a io = "fs \<Rightarrow> 'a res \<times> fs"

definition io_ret :: "'a \<Rightarrow> 'a io" where
  "io_ret v f = (Inr v, f)"

definition io_err :: "err \<Rightarrow> 'a io" where
  "io_err e f = (Inl e, f)"

definition bindIO :: "'a io \<Rightarrow> ('a \<Rightarrow> 'b io) \<Rightarrow> 'b io" where
  "bindIO m k f = (case m f of (Inl e, f') \<Rightarrow> (Inl e, f') | (Inr v, f') \<Rightarrow> k v f')"

text \<open>\<open>io_try m\<close> hands the result of \<open>m\<close> over as a value, as a \<^verbatim>\<open>match\<close> on it does.\<close>

definition io_try :: "'a io \<Rightarrow> 'a res io" where
  "io_try m f = (case m f of (r, f') \<Rightarrow> (Inr r, f'))"

definition io_context :: "string \<Rightarrow> 'a io \<Rightarrow> 'a io" where
  "io_context s m f = (case m f of (r, f') \<Rightarrow> (context_of s r, f'))"

definition io_tick :: "fs \<Rightarrow> nat option \<times> fs" where
  "io_tick f =
     (case io_fault f of
        None \<Rightarrow> (None, f)
      | Some (n, k) \<Rightarrow>
          (if n = 0 then (Some k, f) else (None, f\<lparr>io_fault := Some (n - 1, k)\<rparr>)))"

definition put_node :: "path \<Rightarrow> node \<Rightarrow> fs \<Rightarrow> fs" where
  "put_node p x f = f\<lparr>files := (files f)(p := Some x)\<rparr>"

definition io_failed :: err where
  "io_failed = Io ''input/output error''"

definition fs_exists :: "path \<Rightarrow> fs \<Rightarrow> bool" where
  "fs_exists p f = (files f p \<noteq> None)"

definition fs_read :: "path \<Rightarrow> bytes io" where
  "fs_read p f =
     (case io_tick f of
        (Some _, f') \<Rightarrow> (Inl io_failed, f')
      | (None, f') \<Rightarrow>
          (case files f' p of
             Some (File c) \<Rightarrow> (Inr c, f')
           | Some Dir \<Rightarrow> (Inl (Io ''is a directory''), f')
           | None \<Rightarrow> (Inl (Io ''not found''), f')))"

definition may_create :: "path \<Rightarrow> fs \<Rightarrow> bool" where
  "may_create p f = (p \<noteq> [] \<and> files f (butlast p) = Some Dir \<and> files f p \<noteq> Some Dir)"

definition fs_write :: "path \<Rightarrow> bytes \<Rightarrow> unit io" where
  "fs_write p c f =
     (case io_tick f of
        (Some k, f') \<Rightarrow>
          (Inl io_failed, if may_create p f' then put_node p (File (take k c)) f' else f')
      | (None, f') \<Rightarrow>
          (if may_create p f' then (Inr (), put_node p (File c) f')
           else (Inl (Io ''cannot write''), f')))"

definition fs_rename :: "path \<Rightarrow> path \<Rightarrow> unit io" where
  "fs_rename p q f =
     (case io_tick f of
        (Some _, f') \<Rightarrow> (Inl io_failed, f')
      | (None, f') \<Rightarrow>
          (case files f' p of
             Some (File c) \<Rightarrow>
               (if may_create q f'
                then (Inr (), f'\<lparr>files := ((files f')(p := None))(q := Some (File c))\<rparr>)
                else (Inl (Io ''cannot rename''), f'))
           | _ \<Rightarrow> (Inl (Io ''not found''), f')))"

definition fs_create_dir_all :: "path \<Rightarrow> unit io" where
  "fs_create_dir_all p f =
     (case io_tick f of
        (Some _, f') \<Rightarrow> (Inl io_failed, f')
      | (None, f') \<Rightarrow>
          (if list_ex (\<lambda>q. case files f' q of Some (File _) \<Rightarrow> True | _ \<Rightarrow> False) (prefixes p)
           then (Inl (Io ''not a directory''), f')
           else (Inr (), f'\<lparr>files := (\<lambda>q. if prefix q p then Some Dir else files f' q)\<rparr>)))"

definition fs_remove_dir_all :: "path \<Rightarrow> unit io" where
  "fs_remove_dir_all p f =
     (case io_tick f of
        (Some _, f') \<Rightarrow> (Inl io_failed, f')
      | (None, f') \<Rightarrow>
          (if files f' p = Some Dir
           then (Inr (), f'\<lparr>files := (\<lambda>q. if prefix p q then None else files f' q)\<rparr>)
           else (Inl (Io ''not a directory''), f')))"

text \<open>\<^verbatim>\<open>OpenOptions\<close> with create, read, write and the given truncate flag.\<close>

definition fs_open :: "path \<Rightarrow> bool \<Rightarrow> unit io" where
  "fs_open p trunc f =
     (case io_tick f of
        (Some _, f') \<Rightarrow> (Inl io_failed, f')
      | (None, f') \<Rightarrow>
          (if may_create p f'
           then (Inr (), case files f' p of
                           Some (File c) \<Rightarrow> put_node p (File (if trunc then [] else c)) f'
                         | _ \<Rightarrow> put_node p (File []) f')
           else (Inl (Io ''cannot open''), f')))"

definition resize :: "nat \<Rightarrow> bytes \<Rightarrow> bytes" where
  "resize n c = take n c @ replicate (n - length c) 0"

definition overwrite :: "nat \<Rightarrow> bytes \<Rightarrow> bytes \<Rightarrow> bytes" where
  "overwrite off b c =
     take off (c @ replicate (off - length c) 0) @ b @ drop (off + length b) c"

definition bslice :: "nat \<Rightarrow> nat \<Rightarrow> bytes \<Rightarrow> bytes" where
  "bslice off n c = take n (drop off c)"

definition fs_set_len :: "path \<Rightarrow> nat \<Rightarrow> unit io" where
  "fs_set_len p n f =
     (case io_tick f of
        (Some _, f') \<Rightarrow> (Inl io_failed, f')
      | (None, f') \<Rightarrow>
          (case files f' p of
             Some (File c) \<Rightarrow> (Inr (), put_node p (File (resize n c)) f')
           | _ \<Rightarrow> (Inl (Io ''bad file''), f')))"

text \<open>Seek, \<^verbatim>\<open>write_all\<close> and flush through an open handle of \<open>p\<close>.\<close>

definition fs_write_at :: "path \<Rightarrow> nat \<Rightarrow> bytes \<Rightarrow> unit io" where
  "fs_write_at p off b f =
     (case io_tick f of
        (Some k, f') \<Rightarrow>
          (Inl io_failed,
           case files f' p of
             Some (File c) \<Rightarrow> put_node p (File (overwrite off (take k b) c)) f'
           | _ \<Rightarrow> f')
      | (None, f') \<Rightarrow>
          (case files f' p of
             Some (File c) \<Rightarrow> (Inr (), put_node p (File (overwrite off b c)) f')
           | _ \<Rightarrow> (Inl (Io ''bad file''), f')))"

text \<open>Seek and \<^verbatim>\<open>read_exact\<close>: short content is an error.\<close>

definition fs_read_at :: "path \<Rightarrow> nat \<Rightarrow> nat \<Rightarrow> bytes io" where
  "fs_read_at p off n f =
     (case fs_read p f of
        (Inl e, f') \<Rightarrow> (Inl e, f')
      | (Inr c, f') \<Rightarrow>
          (if off + n \<le> length c \<or> n = 0 then (Inr (bslice off n c), f')
           else (Inl (Io ''failed to fill whole buffer''), f')))"

text \<open>\<^verbatim>\<open>Path::file_name\<close> of a Unix path given as text.\<close>

definition file_name :: "string \<Rightarrow> string option" where
  "file_name s =
     (case rev (filter (\<lambda>c. c \<noteq> [] \<and> c \<noteq> ''.'') (split_char CHR ''/'' s)) of
        [] \<Rightarrow> None
      | c # _ \<Rightarrow> if c = ''..'' then None else Some c)"

section \<open>Facts about the operations\<close>

lemma bindIO_simps [simp]:
  "m f = (Inl e, f') \<Longrightarrow> bindIO m k f = (Inl e, f')"
  "m f = (Inr v, f') \<Longrightarrow> bindIO m k f = k v f'"
  by (simp_all add: bindIO_def)

lemma bindIO_Inr:
  "bindIO m k f = (Inr y, f'') \<longleftrightarrow> (\<exists>v f'. m f = (Inr v, f') \<and> k v f' = (Inr y, f''))"
  by (auto simp: bindIO_def split: prod.splits sum.splits)

lemma io_tick_files [simp]: "files (snd (io_tick f)) = files f"
  by (auto simp: io_tick_def split: option.splits)

lemma io_tick_none [simp]: "io_fault f = None \<Longrightarrow> io_tick f = (None, f)"
  by (simp add: io_tick_def)

lemma put_node_sel [simp]:
  "files (put_node p x f) = (files f)(p := Some x)" "io_fault (put_node p x f) = io_fault f"
  by (simp_all add: put_node_def)

lemma file_name_safe:
  assumes "file_name s = Some n"
  shows "n \<noteq> [] \<and> n \<noteq> ''.'' \<and> n \<noteq> ''..'' \<and> CHR ''/'' \<notin> set n"
proof -
  from assms obtain cs where cs: "rev (filter (\<lambda>c. c \<noteq> [] \<and> c \<noteq> ''.'') (split_char CHR ''/'' s)) = n # cs"
    and dd: "n \<noteq> ''..''"
    by (auto simp: file_name_def split: list.splits if_splits)
  have "n \<in> set (n # cs)" by simp
  then have "n \<in> set (filter (\<lambda>c. c \<noteq> [] \<and> c \<noteq> ''.'') (split_char CHR ''/'' s))"
    unfolding cs [symmetric] by simp
  then show ?thesis using dd split_char_sound by auto
qed

lemma file_name_plain:
  "s \<noteq> [] \<Longrightarrow> s \<noteq> ''.'' \<Longrightarrow> s \<noteq> ''..'' \<Longrightarrow> CHR ''/'' \<notin> set s \<Longrightarrow> file_name s = Some s"
  by (simp add: file_name_def)

section \<open>Slices of file contents\<close>

lemma length_resize [simp]: "length (resize n c) = n"
  by (simp add: resize_def)

lemma resize_id [simp]: "length c = n \<Longrightarrow> resize n c = c"
  by (simp add: resize_def)

lemma length_slice: "length (bslice off n c) = min n (length c - off)"
  by (simp add: bslice_def)

lemma overwrite_in:
  "off + length b \<le> length c \<Longrightarrow> overwrite off b c = take off c @ b @ drop (off + length b) c"
  by (simp add: overwrite_def)

lemma length_overwrite:
  "off + length b \<le> length c \<Longrightarrow> length (overwrite off b c) = length c"
  by (simp add: overwrite_in)

lemma slice_overwrite_same:
  "off + length b \<le> length c \<Longrightarrow> bslice off (length b) (overwrite off b c) = b"
  by (simp add: overwrite_in bslice_def)

lemma slice_overwrite_before:
  assumes "off + length b \<le> length c" and "o2 + n \<le> off"
  shows "bslice o2 n (overwrite off b c) = bslice o2 n c"
proof -
  have "take (o2 + n) (overwrite off b c) = take (o2 + n) c"
    using assms by (simp add: overwrite_in)
  then show ?thesis by (simp add: bslice_def take_drop add.commute)
qed

lemma slice_overwrite_after:
  assumes "off + length b \<le> length c" and "off + length b \<le> o2"
  shows "bslice o2 n (overwrite off b c) = bslice o2 n c"
proof -
  have "drop o2 (overwrite off b c) = drop o2 c"
    using assms by (simp add: overwrite_in drop_append)
  then show ?thesis by (simp add: bslice_def)
qed

lemma nth_slice: "j < n \<Longrightarrow> off + j < length c \<Longrightarrow> bslice off n c ! j = c ! (off + j)"
  by (simp add: bslice_def)

lemma slices_determine:
  assumes len: "length xs = length ys" and cs: "cs > 0"
    and eq: "\<And>i. i < ceil_nat (length xs) cs \<Longrightarrow> bslice (i * cs) cs xs = bslice (i * cs) cs ys"
  shows "xs = ys"
proof (rule nth_equalityI [OF len])
  fix j assume j: "j < length xs"
  define i where "i = j div cs"
  have ij: "i * cs + j mod cs = j" by (simp add: i_def)
  have m: "j mod cs < cs" using cs by simp
  have "i < ceil_nat (length xs) cs"
  proof (rule ccontr)
    assume "\<not> i < ceil_nat (length xs) cs"
    then have "ceil_nat (length xs) cs * cs \<le> i * cs" by simp
    then show False using ceil_nat_bounds(1) [OF cs, of "length xs"] ij j by linarith
  qed
  then have "bslice (i * cs) cs xs ! (j mod cs) = bslice (i * cs) cs ys ! (j mod cs)"
    using eq by simp
  moreover have "bslice (i * cs) cs xs ! (j mod cs) = xs ! j"
    using nth_slice [OF m, of "i * cs" xs] ij j by simp
  moreover have "bslice (i * cs) cs ys ! (j mod cs) = ys ! j"
    using nth_slice [OF m, of "i * cs" ys] ij j len by simp
  ultimately show "xs ! j = ys ! j" by simp
qed

section \<open>Which paths an operation may change\<close>

definition io_keeps :: "(path \<Rightarrow> bool) \<Rightarrow> 'a io \<Rightarrow> bool" where
  "io_keeps P m \<longleftrightarrow> (\<forall>f q. \<not> P q \<longrightarrow> files (snd (m f)) q = files f q)"

named_theorems keeps_intros \<open>operations that change allowed paths only\<close>

lemma io_keeps_bind [keeps_intros]:
  "io_keeps P m \<Longrightarrow> (\<And>v. io_keeps P (k v)) \<Longrightarrow> io_keeps P (bindIO m k)"
  unfolding io_keeps_def bindIO_def by (auto split: prod.splits sum.splits) (metis snd_conv)+

lemma io_keeps_simple [keeps_intros]:
  "io_keeps P (io_ret v)" "io_keeps P (io_err e)"
  "io_keeps P m \<Longrightarrow> io_keeps P (io_try m)" "io_keeps P m \<Longrightarrow> io_keeps P (io_context s m)"
  by (auto simp: io_keeps_def io_ret_def io_err_def io_try_def io_context_def split: prod.splits)
    (metis snd_conv)+

lemma io_tick_keeps: "io_tick f = (t, f') \<Longrightarrow> files f' = files f"
  using io_tick_files [of f] by simp

lemma io_keeps_read [keeps_intros]:
  "io_keeps P (fs_read p)" "io_keeps P (fs_read_at p off n)"
  by (auto simp: io_keeps_def fs_read_at_def fs_read_def dest!: io_tick_keeps
      split: prod.splits option.splits node.splits sum.splits if_splits)

lemma io_keeps_change [keeps_intros]:
  "P p \<Longrightarrow> io_keeps P (fs_write p c)"
  "P p \<Longrightarrow> io_keeps P (fs_write_at p off c)"
  "P p \<Longrightarrow> io_keeps P (fs_set_len p n)"
  "P p \<Longrightarrow> io_keeps P (fs_open p tr)"
  "P p \<Longrightarrow> P q \<Longrightarrow> io_keeps P (fs_rename p q)"
  by (auto simp: io_keeps_def fs_write_def fs_write_at_def fs_set_len_def fs_open_def fs_rename_def
      dest!: io_tick_keeps split: prod.splits option.splits node.splits if_splits)

lemma io_keeps_dirs [keeps_intros]:
  "(\<And>q. prefix q p \<Longrightarrow> P q) \<Longrightarrow> io_keeps P (fs_create_dir_all p)"
  "(\<And>q. prefix p q \<Longrightarrow> P q) \<Longrightarrow> io_keeps P (fs_remove_dir_all p)"
  by (auto simp: io_keeps_def fs_create_dir_all_def fs_remove_dir_all_def
      dest!: io_tick_keeps split: prod.splits option.splits)

lemma io_keepsD: "io_keeps P m \<Longrightarrow> m f = (r, f') \<Longrightarrow> \<not> P q \<Longrightarrow> files f' q = files f q"
  unfolding io_keeps_def by (metis snd_conv)

end
