(* ===== verification/B2P_Archive.thy ===== *)
theory B2P_Archive
  imports B2P_Protocol B2P_Fs "HOL-Library.List_Lexorder" "HOL-Library.Char_ord"
begin

text \<open>
  What is sent (src/src/archive.rs) and how its bytes are read back (\<^verbatim>\<open>read_chunk\<close> and
  \<^verbatim>\<open>blake3_file\<close> of src/src/send.rs). Metadata, the directory walk and the tar writer come from
  the operating system and from third-party crates: they are fields of \<open>source_env\<close>.
\<close>

datatype source =
    Blob (s_kind: kind) (s_name: string) (s_entries: "entry list") (s_total_size: u64)
      (s_transfer_id: string) (s_path: path) (s_spool: "path option")
  | TextSource (s_content: string) (s_transfer_id: string)

record file_meta =
  fm_is_file :: bool
  fm_is_dir :: bool
  fm_len :: u64
  fm_modified :: "u64 option"
    \<comment> \<open>seconds since the epoch, where the system knows a time after it\<close>

record walk_entry =
  we_rel :: path
  we_meta :: file_meta

record source_env =
  metadata :: "path \<Rightarrow> file_meta res"
  walk_sorted :: "path \<Rightarrow> walk_entry res list"
  tar_build :: "(path \<times> string) list \<Rightarrow> bytes res"
  temp_path :: path

definition source_transfer_id :: "source \<Rightarrow> string" where
  "source_transfer_id s =
     (case s of Blob _ _ _ _ tid _ _ \<Rightarrow> tid | TextSource _ tid \<Rightarrow> tid)"

type_synonym file_item = "string \<times> path \<times> u64 \<times> u64"

definition mtime_secs :: "file_meta \<Rightarrow> u64" where
  "mtime_secs m = (case fm_modified m of Some t \<Rightarrow> t | None \<Rightarrow> 0)"

definition path_file_name :: "path \<Rightarrow> string option" where
  "path_file_name p = file_name (path_text p)"

definition replace_backslash :: "string \<Rightarrow> string" where
  "replace_backslash s = map (\<lambda>c. if c = CHR 0x5C then CHR ''/'' else c) s"

fun walk_files :: "string \<Rightarrow> path \<Rightarrow> walk_entry res list \<Rightarrow> file_item list res" where
  "walk_files base inp [] = Inr []"
| "walk_files base inp (Inl e # es) = Inl e"
| "walk_files base inp (Inr w # es) =
     (if \<not> fm_is_file (we_meta w) then walk_files base inp es
      else bindR (walk_files base inp es) (\<lambda>rest. Inr (
        (base @ ''/'' @ replace_backslash (path_text (we_rel w)), inp @ we_rel w,
         fm_len (we_meta w), mtime_secs (we_meta w)) # rest)))"

fun collect_inputs :: "source_env \<Rightarrow> path list \<Rightarrow> file_item list res" where
  "collect_inputs E [] = Inr []"
| "collect_inputs E (inp # ps) =
     bindR (context_of (''cannot read '' @ path_text inp) (metadata E inp)) (\<lambda>meta.
     bindR (ok_or (Msg ''path has no file name'') (path_file_name inp)) (\<lambda>base.
     bindR (if fm_is_file meta then Inr [(base, inp, fm_len meta, mtime_secs meta)]
            else if fm_is_dir meta then walk_files base inp (walk_sorted E inp)
            else Inl (Msg (path_text inp @ '' is neither a file nor a directory''))) (\<lambda>fs0.
     bindR (collect_inputs E ps) (\<lambda>rest. Inr (fs0 @ rest)))))"

definition collect_files :: "source_env \<Rightarrow> path list \<Rightarrow> file_item list res" where
  "collect_files E ps = bindR (collect_inputs E ps) (\<lambda>fs0. Inr (sort_key fst fs0))"

definition fingerprint_bytes :: "file_item list \<Rightarrow> bytes" where
  "fingerprint_bytes fs0 =
     concat (map (\<lambda>(rel, _, sz, mtime).
       str_bytes rel @ [0] @ u64_le_bytes sz @ [0] @ u64_le_bytes mtime @ [10]) fs0)"

definition fingerprint :: "'x crypto_lib_scheme \<Rightarrow> file_item list \<Rightarrow> string" where
  "fingerprint L fs0 = take 32 (blake3_hex L (fingerprint_bytes fs0))"

definition prepare :: "'x crypto_lib_scheme \<Rightarrow> source_env \<Rightarrow> path list \<Rightarrow> source res" where
  "prepare L E paths =
     (if paths = [] then Inl (Msg ''nothing to send'')
      else bindR (collect_files E paths) (\<lambda>fs0.
        if fs0 = [] then Inl (Msg ''no regular files found in the given paths'')
        else
          let tid = fingerprint L fs0;
              ents = map (\<lambda>(rel, _, sz, _). \<lparr>e_path = rel, e_size = sz\<rparr>) fs0 in
          if length paths = 1 \<and> length fs0 = 1 \<and>
             (case metadata E (hd paths) of Inr m \<Rightarrow> fm_is_file m | Inl _ \<Rightarrow> False)
          then (case hd fs0 of (rel, ab, sz, _) \<Rightarrow>
                  Inr (Blob KFile rel ents sz tid ab None))
          else bindR (tar_build E (map (\<lambda>(rel, ab, _, _). (ab, rel)) fs0)) (\<lambda>tar.
                 Inr (Blob KTar ''b2p-bundle.tar'' ents (of_nat (length tar)) tid
                        (temp_path E) (Some (temp_path E))))))"

definition prepare_text :: "'x crypto_lib_scheme \<Rightarrow> string \<Rightarrow> source" where
  "prepare_text L content = TextSource content (take 32 (blake3_hex L (str_bytes content)))"

section \<open>Reading the source (src/src/send.rs)\<close>

definition read_chunk :: "path \<Rightarrow> u64 \<Rightarrow> u64 \<Rightarrow> u64 \<Rightarrow> bytes io" where
  "read_chunk p index csz tot =
     fs_read_at p (unat (index * csz)) (unat (min csz (tot - index * csz)))"

definition blake3_file :: "'x crypto_lib_scheme \<Rightarrow> path \<Rightarrow> string io" where
  "blake3_file L p = bindIO (fs_read p) (\<lambda>c. io_ret (hash_loop L [] c))"

section \<open>Facts\<close>

text \<open>
  A relative name without NUL bytes, then fixed-width fields: the hashed text determines the
  list of names, sizes and times.
\<close>

definition item_key :: "file_item \<Rightarrow> string \<times> u64 \<times> u64" where
  "item_key it = (fst it, fst (snd (snd it)), snd (snd (snd it)))"

definition no_nul :: "file_item \<Rightarrow> bool" where
  "no_nul it = list_all (\<lambda>c. (of_char c :: nat) \<noteq> 0) (fst it)"

lemma unat_char_byte: "unat (of_nat (of_char c) :: u8) = of_char c"
proof -
  have "(of_char c :: nat) < 256" by simp
  then show ?thesis by (simp only: unat_of_nat) simp
qed

lemma str_bytes_inj: "str_bytes s = str_bytes t \<longleftrightarrow> s = t"
proof
  have inj: "inj (\<lambda>c :: char. of_nat (of_char c) :: u8)"
  proof (rule injI)
    fix c d :: char
    assume "(of_nat (of_char c) :: u8) = of_nat (of_char d)"
    then have "(of_char c :: nat) = of_char d" using unat_char_byte [of c] unat_char_byte [of d] by argo
    then show "c = d" by simp
  qed
  assume "str_bytes s = str_bytes t"
  then show "s = t" using map_injective [OF _ inj] by (simp add: str_bytes_def)
qed simp

lemma split_at_nul:
  assumes "0 \<notin> set a" and "0 \<notin> set b" and "a @ (0 :: u8) # c = b @ 0 # d"
  shows "a = b \<and> c = d"
  using assms
proof (induction a arbitrary: b)
  case Nil
  then show ?case by (cases b) auto
next
  case (Cons x a)
  then show ?case by (cases b) auto
qed

lemma str_bytes_no_nul: "list_all (\<lambda>c. (of_char c :: nat) \<noteq> 0) s \<Longrightarrow> 0 \<notin> set (str_bytes s)"
proof
  assume a: "list_all (\<lambda>c. (of_char c :: nat) \<noteq> 0) s" and "0 \<in> set (str_bytes s)"
  then obtain c where c: "c \<in> set s" "(of_nat (of_char c) :: u8) = 0" by (auto simp: str_bytes_def)
  have "(of_char c :: nat) = 0" using unat_char_byte [of c] unfolding c(2) by simp
  then show False using a c(1) by (auto simp: list_all_iff)
qed

lemma fingerprint_bytes_inj:
  assumes "list_all no_nul xs" and "list_all no_nul ys"
    and "fingerprint_bytes xs = fingerprint_bytes ys"
  shows "map item_key xs = map item_key ys"
  using assms
proof (induction xs arbitrary: ys)
  case Nil
  then show ?case by (cases ys) (auto simp: fingerprint_bytes_def split: prod.splits)
next
  case (Cons x xs)
  obtain r p s m where x: "x = (r, p, s, m)" by (cases x)
  obtain y ys' where ys: "ys = y # ys'"
    using Cons.prems(3) by (cases ys) (auto simp: fingerprint_bytes_def x)
  obtain r' p' s' m' where y: "y = (r', p', s', m')" by (cases y)
  have eq: "str_bytes r @ 0 # u64_le_bytes s @ 0 # u64_le_bytes m @ 10 # fingerprint_bytes xs =
      str_bytes r' @ 0 # u64_le_bytes s' @ 0 # u64_le_bytes m' @ 10 # fingerprint_bytes ys'"
    using Cons.prems(3) by (simp add: fingerprint_bytes_def ys x y)
  have "0 \<notin> set (str_bytes r)" "0 \<notin> set (str_bytes r')"
    using Cons.prems(1,2) str_bytes_no_nul by (auto simp: no_nul_def x y ys)
  from split_at_nul [OF this eq] have r: "r = r'"
    and rest: "u64_le_bytes s @ 0 # u64_le_bytes m @ 10 # fingerprint_bytes xs =
      u64_le_bytes s' @ 0 # u64_le_bytes m' @ 10 # fingerprint_bytes ys'"
    by (auto simp: str_bytes_inj)
  from rest have "s = s'" "m = m'" "fingerprint_bytes xs = fingerprint_bytes ys'"
    by (auto simp: u64_le_bytes_inj)
  then show ?case using Cons.IH [of ys'] Cons.prems r x y ys by (auto simp: item_key_def)
qed

lemma read_chunk_ok:
  assumes "io_fault f = None" and "files f p = Some (File c)" and "length c = unat tot"
    and "csz \<noteq> 0" and i: "unat i < ceil_nat (unat tot) (unat csz)"
  shows "read_chunk p i csz tot f = (Inr (bslice (unat i * unat csz) (unat csz) c), f)"
proof -
  have cs: "unat csz > 0" using assms(4) by (simp add: unat_gt_0)
  have lt: "unat i * unat csz < unat tot" by (rule ceil_nat_bounds(2) [OF cs i])
  have mult: "unat (i * csz) = unat i * unat csz"
    using lt unat_lt_u64 [of tot] by (intro unat_mult_u64) linarith
  have sub: "unat (tot - i * csz) = unat tot - unat i * unat csz"
    using unat_sub_u64 [of "i * csz" tot] mult lt by simp
  have mn: "unat (min csz (tot - i * csz)) = min (unat csz) (unat tot - unat i * unat csz)"
    by (simp add: min_def word_le_nat_alt sub)
  have "bslice (unat i * unat csz) (min (unat csz) (unat tot - unat i * unat csz)) c =
      bslice (unat i * unat csz) (unat csz) c"
    using assms(3) by (simp add: bslice_def min_def)
  moreover have "unat i * unat csz + min (unat csz) (unat tot - unat i * unat csz) \<le> unat tot"
    using lt by linarith
  ultimately show ?thesis
    using assms(1-3) by (simp add: read_chunk_def fs_read_at_def fs_read_def mult mn)
qed

end
