(* ===== verification/B2P_Config.thy ===== *)
theory B2P_Config
  imports B2P_Relay B2P_Archive
begin

text \<open>
  The operator's configuration and which relay a run uses (src/src/config.rs). The TOML crate and
  the location of the configuration directory are arguments.
\<close>

record config =
  cf_relay :: "string option"
  cf_relay_token :: "string option"

record relay_cfg =
  rl_url :: string
  rl_token :: "string option"

definition default_config :: config where
  "default_config = \<lparr>cf_relay = None, cf_relay_token = None\<rparr>"

record toml_lib =
  toml_to_string :: "config \<Rightarrow> bytes"
  toml_from_str :: "bytes \<Rightarrow> config option"

definition config_path :: "path option \<Rightarrow> path res" where
  "config_path config_dir =
     bindR (ok_or (Msg ''cannot determine the OS config directory'') config_dir) (\<lambda>d.
     Inr (d @ [''config.toml'']))"

definition config_load :: "toml_lib \<Rightarrow> path option \<Rightarrow> config io" where
  "config_load T config_dir f =
     (case config_path config_dir of
        Inl e \<Rightarrow> (Inl e, f)
      | Inr p \<Rightarrow>
          (case fs_read p f of
             (Inr s, f) \<Rightarrow> (ok_or (Ctx (''parsing '' @ path_text p) (Msg ''invalid TOML'')) (toml_from_str T s), f)
           | (Inl e, f) \<Rightarrow>
               if e = Io ''not found'' then (Inr default_config, f)
               else (Inl (Ctx (''reading '' @ path_text p) e), f)))"

definition config_save :: "toml_lib \<Rightarrow> path option \<Rightarrow> config \<Rightarrow> path io" where
  "config_save T config_dir cfg f =
     (case config_path config_dir of
        Inl e \<Rightarrow> (Inl e, f)
      | Inr p \<Rightarrow>
          bindIO (fs_create_dir_all (butlast p)) (\<lambda>_.
          bindIO (fs_write p (toml_to_string T cfg)) (\<lambda>_. io_ret p)) f)"

definition own_relay :: "string option \<Rightarrow> string option \<Rightarrow> config \<Rightarrow> string option res" where
  "own_relay flag env_url file =
     (case flag of
        Some f \<Rightarrow> map_sum id Some (normalize_relay_url f)
      | None \<Rightarrow>
          (case env_url of
             Some e \<Rightarrow> map_sum id Some (normalize_relay_url e)
           | None \<Rightarrow>
               (case cf_relay file of
                  Some f \<Rightarrow> map_sum id Some (normalize_relay_url f)
                | None \<Rightarrow> Inr None)))"

definition no_relay_text :: string where
  "no_relay_text =
     ''no relay configured '' @ em_dash @ '' deploy relay-worker/ once (npx wrangler deploy), then run: b2p relay set wss://<your-worker>.workers.dev  (or pass --relay / set B2P_RELAY)''"

definition resolve_relay ::
  "string option \<Rightarrow> string option \<Rightarrow> string option \<Rightarrow> string option \<Rightarrow> config \<Rightarrow> relay_cfg res" where
  "resolve_relay flag code_host env_url env_token file =
     bindR (own_relay flag env_url file) (\<lambda>own.
     bindR (case flag of
              Some f \<Rightarrow> bindR (normalize_relay_url f) (\<lambda>u. Inr (u, True))
            | None \<Rightarrow>
                (case code_host of
                   Some h \<Rightarrow>
                     (let h = (if contains_str ''://'' h then h else ''wss://'' @ h) in
                      bindR (normalize_relay_url h) (\<lambda>url. Inr (url, own = Some url)))
                 | None \<Rightarrow>
                     (case own of
                        Some own \<Rightarrow> Inr (own, True)
                      | None \<Rightarrow> Inl (Msg no_relay_text)))) (\<lambda>(url, trusted).
     let token = (if trusted
                  then (case env_token of Some t \<Rightarrow> Some t | None \<Rightarrow> cf_relay_token file)
                  else None) in
     Inr \<lparr>rl_url = url, rl_token = token\<rparr>))"

section \<open>Facts\<close>

text \<open>The relay the user configured: the flag, else the environment, else the file.\<close>

definition user_relay :: "string option \<Rightarrow> string option \<Rightarrow> config \<Rightarrow> string option" where
  "user_relay flag env_url file =
     (case flag of Some f \<Rightarrow> Some f | None \<Rightarrow>
        (case env_url of Some e \<Rightarrow> Some e | None \<Rightarrow> cf_relay file))"

lemma own_relay_Some:
  "own_relay flag env_url file = Inr (Some u) \<Longrightarrow>
   \<exists>r. user_relay flag env_url file = Some r \<and> normalize_relay_url r = Inr u"
  by (auto simp: own_relay_def user_relay_def map_sum_def split: option.splits sum.splits)

lemma token_to_own_relay:
  assumes "resolve_relay flag code_host env_url env_token file = Inr cfg" and "rl_token cfg = Some t"
  shows "\<exists>r. user_relay flag env_url file = Some r \<and> normalize_relay_url r = Inr (rl_url cfg)"
proof (cases flag)
  case (Some f)
  then show ?thesis using assms by (auto simp: resolve_relay_def user_relay_def bindR_eq_Inr Let_def)
next
  case None
  from assms(1) obtain own where own: "own_relay flag env_url file = Inr own"
    by (auto simp: resolve_relay_def bindR_eq_Inr)
  have "own = Some (rl_url cfg)"
    using assms own None
    by (auto simp: resolve_relay_def bindR_eq_Inr Let_def split: option.splits if_splits)
  then show ?thesis using own_relay_Some own by blast
qed

lemma flag_wins:
  "normalize_relay_url f = Inr u \<Longrightarrow>
   \<exists>cfg. resolve_relay (Some f) code_host env_url env_token file = Inr cfg \<and> rl_url cfg = u"
  by (simp add: resolve_relay_def own_relay_def Let_def)

lemma code_host_beats_config:
  assumes "resolve_relay None (Some h) env_url env_token file = Inr cfg"
  shows "normalize_relay_url (if contains_str ''://'' h then h else ''wss://'' @ h) = Inr (rl_url cfg)"
  using assms by (auto simp: resolve_relay_def bindR_eq_Inr Let_def split: if_splits)

lemma save_load:
  assumes "\<And>c. toml_from_str T (toml_to_string T c) = Some c"
    and "config_save T (Some dir) cfg f = (Inr p, f')" and "io_fault f = None"
  shows "config_load T (Some dir) f' = (Inr cfg, f')"
proof -
  have "io_fault f' = None \<and> files f' (dir @ [''config.toml'']) = Some (File (toml_to_string T cfg))"
    using assms(2,3)
    by (auto simp: config_save_def config_path_def bindIO_Inr io_ret_def fs_create_dir_all_def fs_write_def
        split: if_splits)
  then show ?thesis using assms(1) by (simp add: config_load_def config_path_def fs_read_def)
qed

end
