(* ===== verification/B2P_Store.thy ===== *)
theory B2P_Store
  imports B2P_Protocol B2P_Fs
begin

text \<open>
  The staging store of the receiver (src/src/store.rs): chunks of an incoming blob are written
  into \<^verbatim>\<open><name>.b2p-partial/data\<close> and the set of staged indices is persisted beside it, so an
  interrupted transfer resumes. The locale \<open>chunk_staging\<close> is the contract the transports rely
  on; its interpretation \<open>staging\<close> discharges it for \<open>write_chunk\<close>.
\<close>

record store_state =
  ss_transfer_id :: string
  ss_total_size :: u64
  ss_chunk_size :: u64
  ss_have :: u64_set

record store =
  st_dir :: path
  st_data_path :: path
  st_state_path :: path
  st_state :: store_state

text \<open>
  The library argument grows by the JSON form of the state file and by the \<^verbatim>\<open>tar\<close> crate's
  \<^verbatim>\<open>unpack\<close>. A decoded index set is a \<^verbatim>\<open>BTreeSet\<close>, so it is ascending.
\<close>

record store_lib = proto_lib +
  js_state :: "store_state \<Rightarrow> bytes"
  un_state :: "bytes \<Rightarrow> store_state option"
  tar_unpack :: "bytes \<Rightarrow> path \<Rightarrow> unit io"

definition state_json_correct :: "'x store_lib_scheme \<Rightarrow> bool" where
  "state_json_correct L \<longleftrightarrow>
     (\<forall>s. ascending (ss_have s) \<longrightarrow> un_state L (js_state L s) = Some s) \<and>
     (\<forall>b s. un_state L b = Some s \<longrightarrow> ascending (ss_have s))"

section \<open>The module\<close>

definition fresh_state :: "string \<Rightarrow> u64 \<Rightarrow> u64 \<Rightarrow> store_state" where
  "fresh_state tid tot chunk =
     \<lparr>ss_transfer_id = tid, ss_total_size = tot, ss_chunk_size = chunk, ss_have = []\<rparr>"

definition persist_state :: "'x store_lib_scheme \<Rightarrow> store \<Rightarrow> unit io" where
  "persist_state L st =
     (let tmp = butlast (st_state_path st) @ [''state.json.tmp''] in
      bindIO (fs_write tmp (js_state L (st_state st))) (\<lambda>_.
      fs_rename tmp (st_state_path st)))"

definition partial_dir :: "path \<Rightarrow> string \<Rightarrow> path" where
  "partial_dir out_dir name = out_dir @ [name @ ''.b2p-partial'']"

definition loaded_state ::
  "'x store_lib_scheme \<Rightarrow> bytes res \<Rightarrow> string \<Rightarrow> u64 \<Rightarrow> u64 \<Rightarrow> store_state" where
  "loaded_state L r tid tot chunk =
     (case r of
        Inr b \<Rightarrow>
          (case un_state L b of
             Some s \<Rightarrow>
               (if ss_transfer_id s = tid \<and> ss_total_size s = tot \<and> ss_chunk_size s = chunk
                then s else fresh_state tid tot chunk)
           | None \<Rightarrow> fresh_state tid tot chunk)
      | Inl _ \<Rightarrow> fresh_state tid tot chunk)"

definition open_or_create ::
  "'x store_lib_scheme \<Rightarrow> path \<Rightarrow> string \<Rightarrow> string \<Rightarrow> u64 \<Rightarrow> u64 \<Rightarrow> store io" where
  "open_or_create L out_dir name tid tot chunk =
     (let dir = partial_dir out_dir name;
          data_path = dir @ [''data''];
          state_path = dir @ [''state.json''] in
      bindIO (fs_create_dir_all dir) (\<lambda>_.
      bindIO (io_try (fs_read state_path)) (\<lambda>r.
      let state = loaded_state L r tid tot chunk in
      bindIO (fs_open data_path (ss_have state = [])) (\<lambda>_.
      bindIO (fs_set_len data_path (unat tot)) (\<lambda>_.
      let st = \<lparr>st_dir = dir, st_data_path = data_path, st_state_path = state_path,
                st_state = state\<rparr> in
      bindIO (persist_state L st) (\<lambda>_. io_ret st))))))"

definition store_total_chunks :: "store \<Rightarrow> u64 res" where
  "store_total_chunks st = div_ceil (ss_total_size (st_state st)) (ss_chunk_size (st_state st))"

definition expected_len :: "store \<Rightarrow> u64 \<Rightarrow> u64 res" where
  "expected_len st index =
     bindR (store_total_chunks st) (\<lambda>tc.
       let last = tc - 1 in
       Inr (if index < last then ss_chunk_size (st_state st)
            else ss_total_size (st_state st) - last * ss_chunk_size (st_state st)))"

definition write_chunk ::
  "'x store_lib_scheme \<Rightarrow> store \<Rightarrow> u64 \<Rightarrow> bytes \<Rightarrow> fs \<Rightarrow> unit res \<times> store \<times> fs" where
  "write_chunk L st index plaintext f =
     (case bindR (store_total_chunks st) (\<lambda>tc.
             if tc \<le> index
             then Inl (Msg (''chunk index '' @ show_u64 index @ '' out of range''))
             else bindR (expected_len st index) (\<lambda>len.
               if of_nat (length plaintext) \<noteq> len
               then Inl (Msg (''chunk '' @ show_u64 index @ '' has wrong length '' @
                      show_nat (length plaintext) @ '' (expected '' @ show_u64 len @ '')''))
               else Inr ())) of
        Inl e \<Rightarrow> (Inl e, st, f)
      | Inr _ \<Rightarrow>
          (case fs_write_at (st_data_path st) (unat (index * ss_chunk_size (st_state st)))
                  plaintext f of
             (Inl e, f') \<Rightarrow> (Inl e, st, f')
           | (Inr _, f') \<Rightarrow>
               (let st' = st\<lparr>st_state := (st_state st)
                              \<lparr>ss_have := bt_insert index (ss_have (st_state st))\<rparr>\<rparr> in
                case persist_state L st' f' of (r, f'') \<Rightarrow> (r, st', f''))))"

definition store_have :: "store \<Rightarrow> u64 list" where
  "store_have st = ss_have (st_state st)"

definition is_complete :: "store \<Rightarrow> bool res" where
  "is_complete st =
     bindR (store_total_chunks st) (\<lambda>tc. Inr (of_nat (length (ss_have (st_state st))) = tc))"

definition file_hash :: "'x store_lib_scheme \<Rightarrow> store \<Rightarrow> string io" where
  "file_hash L st = bindIO (fs_read (st_data_path st)) (\<lambda>c. io_ret (hash_loop L [] c))"

definition finalize_file :: "store \<Rightarrow> path \<Rightarrow> unit io" where
  "finalize_file st dest =
     bindIO (io_context (''moving download into place at '' @ path_text dest) (fs_rename (st_data_path st) dest)) (\<lambda>_.
     fs_remove_dir_all (st_dir st))"

definition cleanup :: "store \<Rightarrow> unit io" where
  "cleanup st = fs_remove_dir_all (st_dir st)"

text \<open>\<^verbatim>\<open>unpack_tar\<close> of src/src/archive.rs: the staged bytes are read through one file handle.\<close>

definition unpack_tar :: "'x store_lib_scheme \<Rightarrow> path \<Rightarrow> path \<Rightarrow> unit io" where
  "unpack_tar L tar_path dest = bindIO (fs_read tar_path) (\<lambda>c.
     io_context ''unpacking received archive'' (tar_unpack L c dest))"

section \<open>Specification\<close>

definition nchunks :: "store \<Rightarrow> nat" where
  "nchunks st = ceil_nat (unat (ss_total_size (st_state st))) (unat (ss_chunk_size (st_state st)))"

abbreviation csize :: "store \<Rightarrow> nat" where
  "csize st \<equiv> unat (ss_chunk_size (st_state st))"

abbreviation tsize :: "store \<Rightarrow> nat" where
  "tsize st \<equiv> unat (ss_total_size (st_state st))"

definition chunk_bytes :: "store \<Rightarrow> nat \<Rightarrow> nat" where
  "chunk_bytes st i = min (csize st) (tsize st - i * csize st)"

definition store_data :: "store \<Rightarrow> fs \<Rightarrow> bytes" where
  "store_data st f = (case files f (st_data_path st) of Some (File d) \<Rightarrow> d | _ \<Rightarrow> [])"

text \<open>The abstract view: which chunks are staged, and with what content.\<close>

definition staged :: "store \<times> fs \<Rightarrow> nat \<Rightarrow> bytes option" where
  "staged s i =
     (if i \<in> unat ` set (ss_have (st_state (fst s)))
      then Some (bslice (i * csize (fst s)) (csize (fst s)) (store_data (fst s) (snd s)))
      else None)"

definition store_paths :: "store \<Rightarrow> bool" where
  "store_paths st \<longleftrightarrow> st_data_path st = st_dir st @ [''data''] \<and>
     st_state_path st = st_dir st @ [''state.json'']"

definition state_ok :: "store \<Rightarrow> bool" where
  "state_ok st \<longleftrightarrow> ss_chunk_size (st_state st) \<noteq> 0 \<and> ascending (ss_have (st_state st)) \<and>
     (\<forall>i \<in> set (ss_have (st_state st)). unat i < nchunks st)"

definition disk_ok :: "'x store_lib_scheme \<Rightarrow> store \<Rightarrow> fs \<Rightarrow> bool" where
  "disk_ok L st f \<longleftrightarrow> files f (st_dir st) = Some Dir \<and>
     (\<exists>d. files f (st_data_path st) = Some (File d) \<and> length d = tsize st) \<and>
     files f (st_state_path st) = Some (File (js_state L (st_state st))) \<and>
     files f (st_dir st @ [''state.json.tmp'']) \<noteq> Some Dir"

definition store_inv :: "'x store_lib_scheme \<Rightarrow> store \<times> fs \<Rightarrow> bool" where
  "store_inv L s \<longleftrightarrow> store_paths (fst s) \<and> state_ok (fst s) \<and> disk_ok L (fst s) (snd s) \<and>
     io_fault (snd s) = None"

definition store_write ::
  "'x store_lib_scheme \<Rightarrow> store \<times> fs \<Rightarrow> u64 \<Rightarrow> bytes \<Rightarrow> (store \<times> fs) res" where
  "store_write L s i b =
     (case write_chunk L (fst s) i b (snd s) of
        (Inl e, _, _) \<Rightarrow> Inl e
      | (Inr _, st', f') \<Rightarrow> Inr (st', f'))"

fun write_seq :: "('s \<Rightarrow> u64 \<Rightarrow> bytes \<Rightarrow> 's res) \<Rightarrow> (u64 \<times> bytes) list \<Rightarrow> 's \<Rightarrow> 's res" where
  "write_seq w [] s = Inr s"
| "write_seq w ((i, b) # ps) s = bindR (w s i b) (write_seq w ps)"

locale chunk_staging =
  fixes inv :: "'s \<Rightarrow> bool" and count :: "'s \<Rightarrow> nat" and chunk_length :: "'s \<Rightarrow> nat \<Rightarrow> nat"
    and view :: "'s \<Rightarrow> nat \<Rightarrow> bytes option" and wr :: "'s \<Rightarrow> u64 \<Rightarrow> bytes \<Rightarrow> 's res"
  assumes write_ok:
    "inv s \<Longrightarrow> unat i < count s \<Longrightarrow> length b = chunk_length s (unat i) \<Longrightarrow>
     \<exists>s'. wr s i b = Inr s' \<and> inv s' \<and> count s' = count s \<and> chunk_length s' = chunk_length s \<and>
       view s' = (view s)(unat i \<mapsto> b)"
    and write_out_of_range: "inv s \<Longrightarrow> \<not> unat i < count s \<Longrightarrow> \<exists>e. wr s i b = Inl e"
    and write_bad_length:
      "inv s \<Longrightarrow> unat i < count s \<Longrightarrow> length b < 2 ^ 64 \<Longrightarrow> length b \<noteq> chunk_length s (unat i) \<Longrightarrow>
       \<exists>e. wr s i b = Inl e"
begin

lemma write_seq_ok:
  "inv s \<Longrightarrow> (\<And>i b. (i, b) \<in> set ps \<Longrightarrow> unat i < count s \<and> length b = chunk_length s (unat i)) \<Longrightarrow>
   \<exists>s'. write_seq wr ps s = Inr s' \<and> inv s' \<and> count s' = count s \<and>
     chunk_length s' = chunk_length s \<and>
     view s' = fold (\<lambda>(i, b) v. v(unat i \<mapsto> b)) ps (view s)"
proof (induction ps arbitrary: s)
  case Nil
  then show ?case by simp
next
  case (Cons p ps)
  obtain i b where p: "p = (i, b)" by (cases p)
  from Cons.prems p obtain s1 where s1: "wr s i b = Inr s1" "inv s1" "count s1 = count s"
    "chunk_length s1 = chunk_length s" "view s1 = (view s)(unat i \<mapsto> b)"
    using write_ok [of s i b] by auto
  from Cons.prems s1 have "\<And>i b. (i, b) \<in> set ps \<Longrightarrow> unat i < count s1 \<and> length b = chunk_length s1 (unat i)"
    by auto
  then show ?case using Cons.IH [OF s1(2)] s1 p by auto
qed

text \<open>
  Writing the missing chunks of a content, in any order, stages that content completely.
\<close>

lemma write_missing:
  assumes "inv s"
    and ps: "\<And>i b. (i, b) \<in> set ps \<Longrightarrow>
      unat i < count s \<and> length b = chunk_length s (unat i) \<and> b = content (unat i)"
    and old: "\<And>i. i < count s \<Longrightarrow> view s i = Some (content i) \<or> i \<in> unat ` fst ` set ps"
  shows "\<exists>s'. write_seq wr ps s = Inr s' \<and> inv s' \<and> count s' = count s \<and>
    chunk_length s' = chunk_length s \<and> (\<forall>i < count s. view s' i = Some (content i))"
proof -
  have fold_view: "(i \<notin> unat ` fst ` set ps \<longrightarrow> v i = Some (content i)) \<Longrightarrow>
      fold (\<lambda>(i, b) v. v(unat i \<mapsto> b)) ps v i = Some (content i)"
    if "\<And>i b. (i, b) \<in> set ps \<Longrightarrow> b = content (unat i)" for v i
    using that
  proof (induction ps arbitrary: v)
    case Nil
    then show ?case by simp
  next
    case (Cons p ps)
    then show ?case by (cases p) auto
  qed
  obtain s' where s': "write_seq wr ps s = Inr s'" "inv s'" "count s' = count s"
    "chunk_length s' = chunk_length s" "view s' = fold (\<lambda>(i, b) v. v(unat i \<mapsto> b)) ps (view s)"
    using write_seq_ok [OF assms(1), of ps] ps by blast
  have "view s' i = Some (content i)" if "i < count s" for i
    unfolding s'(5)
    by (rule fold_view) (use ps old [OF that] in blast)+
  then show ?thesis using s' by blast
qed

end

section \<open>The store implements the contract\<close>

lemma total_chunks_nat:
  assumes "state_ok st"
  shows "\<exists>w. store_total_chunks st = Inr w \<and> unat w = nchunks st"
  using assms div_ceil_nat by (simp add: store_total_chunks_def nchunks_def state_ok_def)

lemma chunk_offset:
  assumes "ss_chunk_size (st_state st) \<noteq> 0" and "unat i < nchunks st"
  shows "unat i * csize st < tsize st"
    and "unat (i * ss_chunk_size (st_state st)) = unat i * csize st"
proof -
  have "csize st > 0" using assms(1) by (simp add: unat_gt_0)
  then show lt: "unat i * csize st < tsize st"
    using ceil_nat_bounds(2) [of "csize st" "unat i" "tsize st"] assms(2) by (simp add: nchunks_def)
  then show "unat (i * ss_chunk_size (st_state st)) = unat i * csize st"
    using unat_lt_u64 [of "ss_total_size (st_state st)"] by (intro unat_mult_u64) linarith
qed

lemma expected_len_nat:
  assumes "state_ok st" and i: "unat i < nchunks st"
  shows "\<exists>w. expected_len st i = Inr w \<and> unat w = chunk_bytes st (unat i)"
proof -
  from assms(1) have cs0: "ss_chunk_size (st_state st) \<noteq> 0" by (simp add: state_ok_def)
  then have cs: "csize st > 0" by (simp add: unat_gt_0)
  obtain tc where tc: "store_total_chunks st = Inr tc" "unat tc = nchunks st"
    using total_chunks_nat [OF assms(1)] by blast
  have n0: "nchunks st > 0" using i by simp
  then have ts: "tsize st > 0" by (cases "tsize st = 0") (auto simp: nchunks_def)
  have last: "unat (tc - 1) = nchunks st - 1" using tc n0 unat_sub_u64 [of 1 tc] by simp
  have off: "(nchunks st - 1) * csize st < tsize st" "tsize st - (nchunks st - 1) * csize st \<le> csize st"
    using ceil_nat_last [OF cs ts] by (simp_all add: nchunks_def)
  have mult: "unat ((tc - 1) * ss_chunk_size (st_state st)) = (nchunks st - 1) * csize st"
    using chunk_offset(2) [OF cs0, of "tc - 1"] last n0 by simp
  have sub: "unat (ss_total_size (st_state st) - (tc - 1) * ss_chunk_size (st_state st)) =
      tsize st - (nchunks st - 1) * csize st"
    using unat_sub_u64 [of "(tc - 1) * ss_chunk_size (st_state st)" "ss_total_size (st_state st)"]
      mult off(1) by simp
  show ?thesis
  proof (cases "i < tc - 1")
    case True
    then have "unat i < nchunks st - 1" using last by (simp add: word_less_nat_alt)
    then have "unat i * csize st + csize st \<le> (nchunks st - 1) * csize st"
      by (metis Suc_leI mult_Suc mult_le_mono1 add.commute)
    then have "csize st \<le> tsize st - unat i * csize st" using off(1) by linarith
    then show ?thesis using True tc by (simp add: expected_len_def chunk_bytes_def)
  next
    case False
    then have "unat i = nchunks st - 1" using i last by (simp add: word_less_nat_alt)
    then show ?thesis using False tc sub off(2)
      by (simp add: expected_len_def chunk_bytes_def)
  qed
qed

lemma slice_length_chunk:
  "length d = tsize st \<Longrightarrow> length (bslice (i * csize st) (csize st) d) = chunk_bytes st i"
  by (simp add: length_slice chunk_bytes_def)

definition add_have :: "store \<Rightarrow> u64 \<Rightarrow> store" where
  "add_have st i = st\<lparr>st_state := (st_state st)\<lparr>ss_have := bt_insert i (ss_have (st_state st))\<rparr>\<rparr>"

lemma add_have_sel [simp]:
  "st_dir (add_have st i) = st_dir st" "st_data_path (add_have st i) = st_data_path st"
  "st_state_path (add_have st i) = st_state_path st" "csize (add_have st i) = csize st"
  "tsize (add_have st i) = tsize st" "nchunks (add_have st i) = nchunks st"
  "chunk_bytes (add_have st i) = chunk_bytes st"
  "ss_have (st_state (add_have st i)) = bt_insert i (ss_have (st_state st))"
  "ss_chunk_size (st_state (add_have st i)) = ss_chunk_size (st_state st)"
  by (auto simp: add_have_def nchunks_def chunk_bytes_def fun_eq_iff)

lemma state_ok_add_have: "state_ok st \<Longrightarrow> unat i < nchunks st \<Longrightarrow> state_ok (add_have st i)"
  by (auto simp: state_ok_def ascending_bt_insert)

text \<open>What the checks of \<open>write_chunk\<close> decide, in terms of natural numbers.\<close>

lemma write_chunk_accepts:
  assumes "state_ok st" and "unat i < nchunks st" and "length b = chunk_bytes st (unat i)"
  shows "write_chunk L st i b f =
    (case fs_write_at (st_data_path st) (unat i * csize st) b f of
       (Inl e, f') \<Rightarrow> (Inl e, st, f')
     | (Inr _, f') \<Rightarrow> (case persist_state L (add_have st i) f' of (r, f'') \<Rightarrow> (r, add_have st i, f'')))"
proof -
  obtain tc where tc: "store_total_chunks st = Inr tc" "unat tc = nchunks st"
    using total_chunks_nat [OF assms(1)] by blast
  obtain w where w: "expected_len st i = Inr w" "unat w = chunk_bytes st (unat i)"
    using expected_len_nat [OF assms(1,2)] by blast
  have "of_nat (length b) = w" unfolding assms(3) w(2) [symmetric] by simp
  moreover have "\<not> tc \<le> i" using tc assms(2) by (simp add: word_le_nat_alt)
  moreover have "unat (i * ss_chunk_size (st_state st)) = unat i * csize st"
    using chunk_offset(2) assms(1,2) by (simp add: state_ok_def)
  ultimately show ?thesis
    using tc w by (simp add: write_chunk_def add_have_def Let_def split: prod.split sum.split)
qed

lemma write_chunk_range:
  assumes "state_ok st" and "\<not> unat i < nchunks st"
  shows "write_chunk L st i b f =
    (Inl (Msg (''chunk index '' @ show_u64 i @ '' out of range'')), st, f)"
proof -
  obtain tc where tc: "store_total_chunks st = Inr tc" "unat tc = nchunks st"
    using total_chunks_nat [OF assms(1)] by blast
  then have "tc \<le> i" using assms(2) by (simp add: word_le_nat_alt)
  then show ?thesis using tc by (simp add: write_chunk_def)
qed

lemma write_chunk_length:
  assumes "state_ok st" and "unat i < nchunks st" and "length b < 2 ^ 64"
    and "length b \<noteq> chunk_bytes st (unat i)"
  shows "\<exists>m. write_chunk L st i b f = (Inl (Msg m), st, f)"
proof -
  obtain tc where tc: "store_total_chunks st = Inr tc" "unat tc = nchunks st"
    using total_chunks_nat [OF assms(1)] by blast
  obtain w where w: "expected_len st i = Inr w" "unat w = chunk_bytes st (unat i)"
    using expected_len_nat [OF assms(1,2)] by blast
  have "of_nat (length b) \<noteq> w" using w(2) assms(3,4) unat_of_nat_u64 by metis
  moreover have "\<not> tc \<le> i" using tc assms(2) by (simp add: word_le_nat_alt)
  ultimately show ?thesis using tc w by (simp add: write_chunk_def)
qed

lemma persist_state_ok:
  assumes "store_paths st" and "files f (st_dir st) = Some Dir" and "io_fault f = None"
    and "files f (st_dir st @ [''state.json.tmp'']) \<noteq> Some Dir"
    and "files f (st_state_path st) \<noteq> Some Dir"
  shows "persist_state L st f =
    (Inr (), f\<lparr>files := (files f)(st_dir st @ [''state.json.tmp''] := None,
       st_state_path st := Some (File (js_state L (st_state st))))\<rparr>)"
proof -
  have sp: "st_state_path st = st_dir st @ [''state.json'']" using assms(1) by (simp add: store_paths_def)
  have w: "fs_write (st_dir st @ [''state.json.tmp'']) c f =
      (Inr (), put_node (st_dir st @ [''state.json.tmp'']) (File c) f)" for c
    using assms by (simp add: fs_write_def may_create_def)
  have "may_create (st_dir st @ [''state.json'']) (put_node (st_dir st @ [''state.json.tmp'']) (File c) f)" for c
    using assms sp by (simp add: may_create_def)
  then show ?thesis
    using assms(3) by (simp add: persist_state_def sp Let_def bindIO_def w fs_rename_def put_node_def)
qed

lemma store_data_eq: "files f (st_data_path st) = Some (File d) \<Longrightarrow> store_data st f = d"
  by (simp add: store_data_def)

lemma paths_distinct:
  "store_paths st \<Longrightarrow> st_data_path st \<noteq> st_state_path st \<and>
     st_data_path st \<noteq> st_dir st @ [''state.json.tmp''] \<and>
     st_state_path st \<noteq> st_dir st @ [''state.json.tmp''] \<and>
     st_dir st \<noteq> st_data_path st \<and> st_dir st \<noteq> st_state_path st"
  by (simp add: store_paths_def)

text \<open>The whole effect of an accepted write when no operation fails.\<close>

definition after_write :: "'x store_lib_scheme \<Rightarrow> store \<Rightarrow> u64 \<Rightarrow> bytes \<Rightarrow> fs \<Rightarrow> fs" where
  "after_write L st i b f = f\<lparr>files := (files f)(
     st_data_path st := Some (File (overwrite (unat i * csize st) b (store_data st f))),
     st_dir st @ [''state.json.tmp''] := None,
     st_state_path st := Some (File (js_state L (st_state (add_have st i)))))\<rparr>"

lemma write_chunk_effect:
  assumes "store_inv L (st, f)" and "unat i < nchunks st" and "length b = chunk_bytes st (unat i)"
  shows "write_chunk L st i b f = (Inr (), add_have st i, after_write L st i b f)"
proof -
  from assms(1) have inv: "store_paths st" "state_ok st" "disk_ok L st f" "io_fault f = None"
    by (auto simp: store_inv_def)
  from inv(3) obtain d where d: "files f (st_data_path st) = Some (File d)" "length d = tsize st"
    by (auto simp: disk_ok_def)
  have sd: "store_data st f = d" using d(1) by (simp add: store_data_eq)
  note pd = paths_distinct [OF inv(1)]
  let ?c = "overwrite (unat i * csize st) b d"
  have w: "fs_write_at (st_data_path st) (unat i * csize st) b f = (Inr (), put_node (st_data_path st) (File ?c) f)"
    using inv(4) d by (simp add: fs_write_at_def)
  have p: "persist_state L (add_have st i) (put_node (st_data_path st) (File ?c) f) =
      (Inr (), after_write L st i b f)"
    using inv pd d sd
      persist_state_ok [of "add_have st i" "put_node (st_data_path st) (File ?c) f" L]
    by (auto simp: store_paths_def disk_ok_def after_write_def put_node_def)
  show ?thesis using write_chunk_accepts [OF inv(2) assms(2,3), of L f] w p by simp
qed

lemma data_after_write:
  "store_paths st \<Longrightarrow> store_data (add_have st i) (after_write L st i b f) =
     overwrite (unat i * csize st) b (store_data st f)"
  using paths_distinct [of st] by (simp add: store_data_def after_write_def)

lemma chunk_fits:
  assumes "state_ok st" and "unat (i :: u64) < nchunks st" and "length b = chunk_bytes st (unat i)"
    and "length d = tsize st"
  shows "unat i * csize st + length b \<le> length d"
  using chunk_offset(1) [of st i] assms by (simp add: state_ok_def chunk_bytes_def)

lemma store_inv_after_write:
  assumes "store_inv L (st, f)" and "unat i < nchunks st" and "length b = chunk_bytes st (unat i)"
  shows "store_inv L (add_have st i, after_write L st i b f)"
proof -
  from assms(1) have inv: "store_paths st" "state_ok st" "disk_ok L st f" "io_fault f = None"
    by (auto simp: store_inv_def)
  from inv(3) obtain d where d: "files f (st_data_path st) = Some (File d)" "length d = tsize st"
    by (auto simp: disk_ok_def)
  have len: "length (overwrite (unat i * csize st) b (store_data st f)) = tsize st"
    using length_overwrite [OF chunk_fits [OF inv(2) assms(2,3) d(2)]] d store_data_eq [OF d(1)] by simp
  have "disk_ok L (add_have st i) (after_write L st i b f)"
    using inv(1,3) len paths_distinct [OF inv(1)]
    by (auto simp: disk_ok_def after_write_def store_paths_def)
  then show ?thesis using inv state_ok_add_have [OF inv(2) assms(2)]
    by (simp add: store_inv_def store_paths_def after_write_def)
qed

lemma slice_after_overwrite:
  assumes "state_ok st" and i: "unat (i :: u64) < nchunks st" and b: "length b = chunk_bytes st (unat i)"
    and d: "length d = tsize st"
  shows "bslice (j * csize st) (csize st) (overwrite (unat i * csize st) b d) =
    (if j = unat i then b else bslice (j * csize st) (csize st) d)"
proof -
  note fits = chunk_fits [OF assms]
  have lb: "length b \<le> csize st" using b by (simp add: chunk_bytes_def)
  consider "j < unat i" | "j = unat i" | "unat i < j" by linarith
  then show ?thesis
  proof cases
    case 1
    then have "j * csize st + csize st \<le> unat i * csize st"
      by (metis Suc_leI mult_Suc mult_le_mono1 add.commute)
    then show ?thesis using 1 slice_overwrite_before [OF fits] by simp
  next
    case 2
    have "bslice (unat i * csize st) (csize st) (overwrite (unat i * csize st) b d) =
        bslice (unat i * csize st) (length b) (overwrite (unat i * csize st) b d)"
      using length_overwrite [OF fits] d b fits
      by (auto simp: bslice_def chunk_bytes_def min_def)
    then show ?thesis using 2 slice_overwrite_same [OF fits] by simp
  next
    case 3
    then have "unat i * csize st + csize st \<le> j * csize st"
      by (metis Suc_leI mult_Suc mult_le_mono1 add.commute)
    then have "unat i * csize st + length b \<le> j * csize st" using lb by linarith
    then show ?thesis using 3 slice_overwrite_after [OF fits] by simp
  qed
qed

lemma staged_after_write:
  assumes "store_inv L (st, f)" and "unat i < nchunks st" and "length b = chunk_bytes st (unat i)"
  shows "staged (add_have st i, after_write L st i b f) = (staged (st, f))(unat i \<mapsto> b)"
proof -
  from assms(1) have inv: "store_paths st" "state_ok st" "disk_ok L st f"
    by (auto simp: store_inv_def)
  then have d: "length (store_data st f) = tsize st" by (auto simp: disk_ok_def store_data_def)
  show ?thesis
    using slice_after_overwrite [OF inv(2) assms(2,3) d]
    by (auto simp: staged_def fun_eq_iff data_after_write [OF inv(1)])
qed

interpretation staging: chunk_staging "store_inv L" "\<lambda>s. nchunks (fst s)"
  "\<lambda>s. chunk_bytes (fst s)" staged "store_write L" for L
proof
  fix s :: "store \<times> fs" and i :: u64 and b :: bytes
  assume a: "store_inv L s" "unat i < nchunks (fst s)" "length b = chunk_bytes (fst s) (unat i)"
  obtain st f where s: "s = (st, f)" by (cases s)
  show "\<exists>s'. store_write L s i b = Inr s' \<and> store_inv L s' \<and> nchunks (fst s') = nchunks (fst s) \<and>
      chunk_bytes (fst s') = chunk_bytes (fst s) \<and> staged s' = (staged s)(unat i \<mapsto> b)"
    using a s write_chunk_effect [of L st f i b] store_inv_after_write [of L st f i b]
      staged_after_write [of L st f i b]
    by (simp add: store_write_def)
next
  fix s :: "store \<times> fs" and i :: u64 and b :: bytes
  assume "store_inv L s" "\<not> unat i < nchunks (fst s)"
  then show "\<exists>e. store_write L s i b = Inl e"
    by (simp add: store_write_def write_chunk_range store_inv_def)
next
  fix s :: "store \<times> fs" and i :: u64 and b :: bytes
  assume "store_inv L s" "unat i < nchunks (fst s)" "length b < 2 ^ 64"
    "length b \<noteq> chunk_bytes (fst s) (unat i)"
  then show "\<exists>e. store_write L s i b = Inl e"
    using write_chunk_length [of "fst s" i b L "snd s"] by (auto simp: store_write_def store_inv_def)
qed


text \<open>
  The same contract with a frame: everything outside the partial directory, and all of the store but its
  index set, stays as it was.
\<close>

definition framed :: "(path \<Rightarrow> node option) \<Rightarrow> store \<Rightarrow> store \<times> fs \<Rightarrow> bool" where
  "framed g st0 s \<longleftrightarrow>
     (\<exists>have_set. fst s = st0\<lparr>st_state := (st_state st0)\<lparr>ss_have := have_set\<rparr>\<rparr>) \<and>
     (\<forall>q. \<not> prefix (st_dir st0) q \<longrightarrow> files (snd s) q = g q)"

lemma framed_sel:
  assumes "framed g st0 (st, f)"
  shows "st_dir st = st_dir st0" "csize st = csize st0" "tsize st = tsize st0"
    "nchunks st = nchunks st0" "st_data_path st = st_data_path st0"
  using assms by (auto simp: framed_def nchunks_def)

lemma framed_self: "framed (files f) st (st, f)"
  by (auto simp: framed_def intro: exI [of _ "ss_have (st_state st)"])

lemma framed_after_write:
  assumes "store_paths st" and "framed g st0 (st, f)"
  shows "framed g st0 (add_have st i, after_write L st i b f)"
proof -
  have "files (after_write L st i b f) q = files f q" if "\<not> prefix (st_dir st) q" for q
    using that assms(1) by (auto simp: after_write_def store_paths_def)
  moreover have "st_dir st = st_dir st0" by (rule framed_sel [OF assms(2)])
  ultimately show ?thesis using assms(2) by (auto simp: framed_def add_have_def)
qed

interpretation framed_staging: chunk_staging "\<lambda>s. store_inv L s \<and> framed g st0 s"
  "\<lambda>s. nchunks (fst s)" "\<lambda>s. chunk_bytes (fst s)" staged "store_write L" for L g st0
proof
  fix s :: "store \<times> fs" and i :: u64 and b :: bytes
  assume a: "store_inv L s \<and> framed g st0 s" "unat i < nchunks (fst s)"
    "length b = chunk_bytes (fst s) (unat i)"
  obtain st f where s: "s = (st, f)" by (cases s)
  show "\<exists>s'. store_write L s i b = Inr s' \<and> (store_inv L s' \<and> framed g st0 s') \<and>
      nchunks (fst s') = nchunks (fst s) \<and> chunk_bytes (fst s') = chunk_bytes (fst s) \<and>
      staged s' = (staged s)(unat i \<mapsto> b)"
    using a s write_chunk_effect [of L st f i b] store_inv_after_write [of L st f i b]
      staged_after_write [of L st f i b] framed_after_write [of st g st0 f i L b]
    by (simp add: store_write_def store_inv_def)
qed (use staging.write_out_of_range staging.write_bad_length in blast)+

section \<open>Completeness and content\<close>

lemma have_card:
  assumes "state_ok st"
  shows "length (ss_have (st_state st)) = card (unat ` set (ss_have (st_state st)))"
proof -
  have "inj_on unat (set (ss_have (st_state st)))" by (auto simp: inj_on_def word_unat_eq_iff)
  then show ?thesis
    using assms bt.size_iter [of "ss_have (st_state st)"] by (simp add: card_image state_ok_def)
qed

lemma is_complete_iff:
  assumes "state_ok st"
  shows "is_complete st = Inr (\<forall>i < nchunks st. i \<in> unat ` set (ss_have (st_state st)))"
proof -
  let ?H = "unat ` set (ss_have (st_state st))"
  obtain tc where tc: "store_total_chunks st = Inr tc" "unat tc = nchunks st"
    using total_chunks_nat [OF assms] by blast
  have sub: "?H \<subseteq> {..<nchunks st}" using assms by (auto simp: state_ok_def)
  then have le: "card ?H \<le> nchunks st" using card_mono [of "{..<nchunks st}" ?H] by simp
  then have u: "unat (of_nat (card ?H) :: u64) = card ?H"
    using tc(2) unat_lt_u64 [of tc] by (intro unat_of_nat_u64) linarith
  have "of_nat (card ?H) = tc \<longleftrightarrow> card ?H = nchunks st"
    unfolding word_unat_eq_iff u tc(2) ..
  also have "\<dots> \<longleftrightarrow> (\<forall>i < nchunks st. i \<in> ?H)" by (rule card_full [OF sub])
  finally show ?thesis using tc have_card [OF assms] by (simp add: is_complete_def)
qed

lemma staged_iff: "staged (st, f) i \<noteq> None \<longleftrightarrow> i \<in> unat ` set (ss_have (st_state st))"
  by (simp add: staged_def)

lemma complete_content:
  assumes inv: "store_inv L (st, f)" and len: "length c = tsize st"
    and all: "\<And>i. i < nchunks st \<Longrightarrow> staged (st, f) i = Some (bslice (i * csize st) (csize st) c)"
  shows "is_complete st = Inr True" and "store_data st f = c"
    and "files f (st_data_path st) = Some (File c)"
proof -
  from inv have so: "state_ok st" and dk: "disk_ok L st f" by (auto simp: store_inv_def)
  have "i \<in> unat ` set (ss_have (st_state st))" if "i < nchunks st" for i
    using all [OF that] by (auto simp only: staged_def fst_conv snd_conv option.distinct split: if_splits)
  then show "is_complete st = Inr True" using is_complete_iff [OF so] by simp
  from so have cs: "csize st > 0" by (simp add: state_ok_def unat_gt_0)
  from dk obtain d where d: "files f (st_data_path st) = Some (File d)" "length d = tsize st"
    by (auto simp: disk_ok_def)
  have "d = c"
  proof (rule slices_determine [OF _ cs])
    show "length d = length c" using d len by simp
    fix i assume "i < ceil_nat (length d) (csize st)"
    then have "staged (st, f) i = Some (bslice (i * csize st) (csize st) c)"
      using all d by (simp add: nchunks_def)
    then show "bslice (i * csize st) (csize st) d = bslice (i * csize st) (csize st) c"
      using store_data_eq [OF d(1)] by (auto simp: staged_def split: if_splits)
  qed
  then show "store_data st f = c" "files f (st_data_path st) = Some (File c)"
    using d store_data_eq by auto
qed

section \<open>Opening, resuming, finalizing\<close>

definition openable :: "path \<Rightarrow> string \<Rightarrow> fs \<Rightarrow> bool" where
  "openable out_dir nm f \<longleftrightarrow>
     (\<forall>q. prefix q (partial_dir out_dir nm) \<longrightarrow> files f q = None \<or> files f q = Some Dir) \<and>
     (\<forall>x \<in> {''data'', ''state.json'', ''state.json.tmp''}.
        files f (partial_dir out_dir nm @ [x]) \<noteq> Some Dir)"

definition read_result :: "path \<Rightarrow> fs \<Rightarrow> bytes res" where
  "read_result p f = (case files f p of Some (File c) \<Rightarrow> Inr c | _ \<Rightarrow> Inl (Io ''not found''))"

definition opened_state ::
  "'x store_lib_scheme \<Rightarrow> path \<Rightarrow> string \<Rightarrow> string \<Rightarrow> u64 \<Rightarrow> u64 \<Rightarrow> fs \<Rightarrow> store_state" where
  "opened_state L out_dir nm tid tot chunk f =
     loaded_state L (read_result (partial_dir out_dir nm @ [''state.json'']) f) tid tot chunk"

definition opened_store ::
  "'x store_lib_scheme \<Rightarrow> path \<Rightarrow> string \<Rightarrow> string \<Rightarrow> u64 \<Rightarrow> u64 \<Rightarrow> fs \<Rightarrow> store" where
  "opened_store L out_dir nm tid tot chunk f =
     \<lparr>st_dir = partial_dir out_dir nm, st_data_path = partial_dir out_dir nm @ [''data''],
      st_state_path = partial_dir out_dir nm @ [''state.json''],
      st_state = opened_state L out_dir nm tid tot chunk f\<rparr>"

definition opened_data :: "store \<Rightarrow> u64 \<Rightarrow> fs \<Rightarrow> bytes" where
  "opened_data st tot f =
     resize (unat tot) (if ss_have (st_state st) = [] then [] else store_data st f)"

definition opened_fs :: "'x store_lib_scheme \<Rightarrow> store \<Rightarrow> u64 \<Rightarrow> fs \<Rightarrow> fs" where
  "opened_fs L st tot f = f\<lparr>files := (\<lambda>q. if prefix q (st_dir st) then Some Dir else files f q)(
     st_data_path st := Some (File (opened_data st tot f)),
     st_dir st @ [''state.json.tmp''] := None,
     st_state_path st := Some (File (js_state L (st_state st))))\<rparr>"

lemma not_prefix_snoc [simp]: "\<not> prefix (p @ [x]) p"
  by (auto dest: prefix_length_le)

lemma create_dir_ok:
  assumes "openable out_dir nm f" and "io_fault f = None"
  shows "fs_create_dir_all (partial_dir out_dir nm) f =
    (Inr (), f\<lparr>files := (\<lambda>q. if prefix q (partial_dir out_dir nm) then Some Dir else files f q)\<rparr>)"
proof -
  have "\<not> list_ex (\<lambda>q. case files f q of Some (File _) \<Rightarrow> True | _ \<Rightarrow> False)
      (prefixes (partial_dir out_dir nm))"
    using assms(1) by (auto simp: list_ex_iff openable_def split: option.splits node.splits)
  then show ?thesis using assms(2) by (simp add: fs_create_dir_all_def)
qed

lemma open_effect:
  fixes L :: "'x store_lib_scheme" and tid :: string and tot chunk :: u64
  assumes "openable out_dir nm f" and "io_fault f = None"
  defines "st \<equiv> opened_store L out_dir nm tid tot chunk f"
  shows "open_or_create L out_dir nm tid tot chunk f = (Inr st, opened_fs L st tot f)"
proof -
  let ?dir = "partial_dir out_dir nm"
  let ?f1 = "f\<lparr>files := (\<lambda>q. if prefix q ?dir then Some Dir else files f q)\<rparr>"
  let ?s = "opened_state L out_dir nm tid tot chunk f"
  from assms(1) have nd: "files f (?dir @ [''data'']) \<noteq> Some Dir"
    "files f (?dir @ [''state.json'']) \<noteq> Some Dir" "files f (?dir @ [''state.json.tmp'']) \<noteq> Some Dir"
    by (auto simp: openable_def)
  have rd: "io_try (fs_read (?dir @ [''state.json''])) ?f1 =
      (Inr (read_result (?dir @ [''state.json'']) f), ?f1)"
    using nd assms(2) by (auto simp: io_try_def fs_read_def read_result_def split: option.splits node.splits)
  let ?d0 = "if ss_have ?s = [] then [] else store_data st f"
  have op: "fs_open (?dir @ [''data'']) (ss_have ?s = []) ?f1 =
      (Inr (), put_node (?dir @ [''data'']) (File ?d0) ?f1)"
    using nd assms(2)
    by (auto simp: fs_open_def may_create_def store_data_def st_def opened_store_def
          split: option.splits node.splits)
  let ?f3 = "put_node (?dir @ [''data'']) (File (resize (unat tot) ?d0)) ?f1"
  have sl: "fs_set_len (?dir @ [''data'']) (unat tot) (put_node (?dir @ [''data'']) (File ?d0) ?f1) =
      (Inr (), ?f3)"
    using assms(2) by (simp add: fs_set_len_def put_node_def)
  have pe: "persist_state L st ?f3 = (Inr (), opened_fs L st tot f)"
    using persist_state_ok [of st ?f3 L] nd assms(2)
    by (simp add: st_def opened_store_def store_paths_def opened_fs_def put_node_def opened_data_def
          store_data_def)
  have ls: "loaded_state L (read_result (?dir @ [''state.json'']) f) tid tot chunk = ?s"
    by (simp add: opened_state_def)
  have stx: "\<lparr>st_dir = ?dir, st_data_path = ?dir @ [''data''], st_state_path = ?dir @ [''state.json''],
      st_state = ?s\<rparr> = st"
    by (simp add: st_def opened_store_def)
  show ?thesis
    using create_dir_ok [OF assms(1,2)] rd op sl pe
    by (simp add: open_or_create_def Let_def ls stx bindIO_def io_ret_def)
qed

lemma loaded_state_ids:
  "ss_transfer_id (loaded_state L r tid tot chunk) = tid"
  "ss_total_size (loaded_state L r tid tot chunk) = tot"
  "ss_chunk_size (loaded_state L r tid tot chunk) = chunk"
  by (auto simp: loaded_state_def fresh_state_def split: sum.splits option.splits)

lemma opened_store_sel [simp]:
  "tsize (opened_store L out_dir nm tid tot chunk f) = unat tot"
  "csize (opened_store L out_dir nm tid tot chunk f) = unat chunk"
  "ss_chunk_size (st_state (opened_store L out_dir nm tid tot chunk f)) = chunk"
  "st_dir (opened_store L out_dir nm tid tot chunk f) = partial_dir out_dir nm"
  "st_data_path (opened_store L out_dir nm tid tot chunk f) = partial_dir out_dir nm @ [''data'']"
  "st_state_path (opened_store L out_dir nm tid tot chunk f) = partial_dir out_dir nm @ [''state.json'']"
  by (simp_all add: opened_store_def opened_state_def loaded_state_ids)

lemma opened_inv:
  fixes L :: "'x store_lib_scheme" and tid :: string and tot chunk :: u64
  assumes "io_fault f = None" and "state_ok (opened_store L out_dir nm tid tot chunk f)"
  defines "st \<equiv> opened_store L out_dir nm tid tot chunk f"
  shows "store_inv L (st, opened_fs L st tot f)"
proof -
  have "disk_ok L st (opened_fs L st tot f)"
    unfolding st_def by (simp add: disk_ok_def opened_fs_def opened_data_def)
  moreover have "store_paths st" unfolding st_def by (simp add: store_paths_def)
  ultimately show ?thesis using assms(1,2) unfolding st_def by (simp add: store_inv_def opened_fs_def)
qed

lemma opened_staged:
  assumes "length (store_data st f) = unat tot \<or> ss_have (st_state st) = []" and "store_paths st"
  shows "staged (st, opened_fs L st tot f) = staged (st, f)"
proof -
  have "store_data st (opened_fs L st tot f) = opened_data st tot f"
    using assms(2) by (simp add: store_data_def opened_fs_def store_paths_def)
  then show ?thesis using assms(1) by (auto simp: staged_def fun_eq_iff opened_data_def)
qed

text \<open>A store whose state file is its own state is reopened as it was.\<close>

lemma reopen:
  assumes inv: "store_inv L (st, f)" and js: "state_json_correct L"
    and dir: "st_dir st = partial_dir out_dir nm" and op: "openable out_dir nm f"
  shows "\<exists>f'. open_or_create L out_dir nm (ss_transfer_id (st_state st))
      (ss_total_size (st_state st)) (ss_chunk_size (st_state st)) f = (Inr st, f') \<and>
    store_inv L (st, f') \<and> staged (st, f') = staged (st, f)"
proof -
  let ?o = "opened_store L out_dir nm (ss_transfer_id (st_state st)) (ss_total_size (st_state st))
    (ss_chunk_size (st_state st)) f"
  from inv have sp: "store_paths st" and so: "state_ok st" and dk: "disk_ok L st f"
    and nf: "io_fault f = None" by (auto simp: store_inv_def)
  have "un_state L (js_state L (st_state st)) = Some (st_state st)"
    using js so by (simp add: state_json_correct_def state_ok_def)
  then have "opened_state L out_dir nm (ss_transfer_id (st_state st)) (ss_total_size (st_state st))
      (ss_chunk_size (st_state st)) f = st_state st"
    using dk dir sp by (simp add: opened_state_def read_result_def loaded_state_def disk_ok_def store_paths_def)
  then have o: "?o = st" using dir sp by (simp add: opened_store_def store_paths_def)
  have len: "length (store_data st f) = tsize st" using dk by (auto simp: disk_ok_def store_data_def)
  show ?thesis
    using open_effect [OF op nf, of L "ss_transfer_id (st_state st)" "ss_total_size (st_state st)"
        "ss_chunk_size (st_state st)"]
      opened_inv [OF nf, of L out_dir nm "ss_transfer_id (st_state st)" "ss_total_size (st_state st)"
        "ss_chunk_size (st_state st)"] opened_staged [of st f "ss_total_size (st_state st)" L] o so len sp
    by auto
qed

lemma finalize_file_effect:
  assumes "store_inv L (st, f)" and "may_create dest f" and "\<not> prefix (st_dir st) dest"
  shows "\<exists>f'. finalize_file st dest f = (Inr (), f') \<and> io_fault f' = None \<and>
    files f' = (\<lambda>q. if prefix (st_dir st) q then None
                 else if q = dest then Some (File (store_data st f)) else files f q)"
proof -
  from assms(1) have sp: "store_paths st" and dk: "disk_ok L st f" and nf: "io_fault f = None"
    by (auto simp: store_inv_def)
  from dk obtain d where d: "files f (st_data_path st) = Some (File d)" by (auto simp: disk_ok_def)
  have "prefix (st_dir st) (st_data_path st)" using sp by (simp add: store_paths_def)
  then show ?thesis
    using assms(2,3) nf d dk store_data_eq [OF d] paths_distinct [OF sp]
    by (auto simp: finalize_file_def io_context_def fs_rename_def fs_remove_dir_all_def bindIO_def
          disk_ok_def fun_eq_iff)
qed


section \<open>Failures and crashes during a write\<close>

abbreviation healed :: "fs \<Rightarrow> fs" where
  "healed f \<equiv> f\<lparr>io_fault := None\<rparr>"

text \<open>
  Whatever operation fails first, the disk is in one of two shapes: the new state is in place, or
  the old state file is, with a prefix of the chunk in the data file.
\<close>

definition torn :: "store \<Rightarrow> u64 \<Rightarrow> bytes \<Rightarrow> fs \<Rightarrow> fs \<Rightarrow> bool" where
  "torn st i b f f1 \<longleftrightarrow> (\<exists>k x. x \<noteq> Some Dir \<and> files f1 = (files f)(
     st_data_path st := Some (File (overwrite (unat i * csize st) (take k b) (store_data st f))),
     st_dir st @ [''state.json.tmp''] := x))"

lemma fs_write_at_cases:
  assumes "files f p = Some (File d)"
  shows "(\<exists>k. fs_write_at p off b f = (Inl io_failed, put_node p (File (overwrite off (take k b) d)) f)) \<or>
    (\<exists>f1. fs_write_at p off b f = (Inr (), f1) \<and> files f1 = (files f)(p := Some (File (overwrite off b d))))"
  using assms by (auto simp: fs_write_at_def io_tick_def put_node_def split: option.splits)

lemma fs_write_cases:
  assumes "may_create p f"
  shows "(\<exists>k. fs_write p c f = (Inl io_failed, put_node p (File (take k c)) f)) \<or>
    (\<exists>f1. fs_write p c f = (Inr (), f1) \<and> files f1 = (files f)(p := Some (File c)))"
  using assms by (auto simp: fs_write_def io_tick_def put_node_def may_create_def split: option.splits)

lemma fs_rename_cases:
  assumes "files f p = Some (File c)" and "may_create q f"
  shows "fs_rename p q f = (Inl io_failed, f) \<or> (\<exists>f1. fs_rename p q f = (Inr (), f1) \<and> files f1 = (files f)(p := None, q := Some (File c)))"
  using assms by (auto simp: fs_rename_def io_tick_def may_create_def split: option.splits)

lemma persist_state_cases:
  assumes "store_paths st" and "files f (st_dir st) = Some Dir"
    and "files f (st_dir st @ [''state.json.tmp'']) \<noteq> Some Dir"
    and "files f (st_state_path st) \<noteq> Some Dir"
  shows "(\<exists>x f1. persist_state L st f = (Inl io_failed, f1) \<and> x \<noteq> Some Dir \<and>
      files f1 = (files f)(st_dir st @ [''state.json.tmp''] := x)) \<or>
    (\<exists>f1. persist_state L st f = (Inr (), f1) \<and>
      files f1 = (files f)(st_dir st @ [''state.json.tmp''] := None,
        st_state_path st := Some (File (js_state L (st_state st)))))"
proof -
  let ?t = "st_dir st @ [''state.json.tmp'']"
  let ?c = "js_state L (st_state st)"
  have sp: "st_state_path st = st_dir st @ [''state.json'']" using assms(1) by (simp add: store_paths_def)
  have ps: "persist_state L st f = bindIO (fs_write ?t ?c) (\<lambda>_. fs_rename ?t (st_state_path st)) f"
    by (simp add: persist_state_def sp Let_def)
  have mc: "may_create ?t f" using assms by (simp add: may_create_def)
  consider k where "fs_write ?t ?c f = (Inl io_failed, put_node ?t (File (take k ?c)) f)"
    | f2 where "fs_write ?t ?c f = (Inr (), f2)" "files f2 = (files f)(?t := Some (File ?c))"
    using fs_write_cases [OF mc, of ?c] by blast
  then show ?thesis
  proof cases
    case 1
    then show ?thesis by (auto simp: ps)
  next
    case 2
    have "may_create (st_state_path st) f2" using assms sp 2 by (simp add: may_create_def)
    then consider "fs_rename ?t (st_state_path st) f2 = (Inl io_failed, f2)"
      | f3 where "fs_rename ?t (st_state_path st) f2 = (Inr (), f3)"
          "files f3 = (files f2)(?t := None, st_state_path st := Some (File ?c))"
      using fs_rename_cases [of f2 ?t ?c "st_state_path st"] 2 by auto
    then show ?thesis using 2 by cases (auto simp: ps)
  qed
qed

lemma write_chunk_cases:
  assumes inv: "store_inv L (st, healed f)" and i: "unat i < nchunks st"
    and b: "length b = chunk_bytes st (unat i)"
  shows "(\<exists>st1 f1. write_chunk L st i b f = (Inl io_failed, st1, f1) \<and> torn st i b f f1) \<or>
    (\<exists>f1. write_chunk L st i b f = (Inr (), add_have st i, f1) \<and>
       files f1 = files (after_write L st i b f))"
proof -
  from inv have sp: "store_paths st" and so: "state_ok st" and dk: "disk_ok L st (healed f)"
    by (auto simp: store_inv_def)
  from dk obtain d where d: "files f (st_data_path st) = Some (File d)" by (auto simp: disk_ok_def)
  have sd: "store_data st f = d" using d by (rule store_data_eq)
  note acc = write_chunk_accepts [OF so i b, of L f] and pd = paths_distinct [OF sp]
  let ?off = "unat i * csize st"
  consider k where "fs_write_at (st_data_path st) ?off b f =
        (Inl io_failed, put_node (st_data_path st) (File (overwrite ?off (take k b) d)) f)"
    | f2 where "fs_write_at (st_data_path st) ?off b f = (Inr (), f2)"
        "files f2 = (files f)(st_data_path st := Some (File (overwrite ?off b d)))"
    using fs_write_at_cases [OF d, of ?off b] by blast
  then show ?thesis
  proof cases
    case 1
    have "torn st i b f (put_node (st_data_path st) (File (overwrite ?off (take k b) d)) f)"
      unfolding torn_def sd
      by (rule exI [of _ k], rule exI [of _ "files f (st_dir st @ [''state.json.tmp''])"])
        (use dk pd in \<open>auto simp: disk_ok_def fun_eq_iff\<close>)
    then show ?thesis using 1 acc by simp
  next
    case 2
    have pre: "store_paths (add_have st i)" "files f2 (st_dir (add_have st i)) = Some Dir"
      "files f2 (st_dir (add_have st i) @ [''state.json.tmp'']) \<noteq> Some Dir"
      "files f2 (st_state_path (add_have st i)) \<noteq> Some Dir"
      using sp dk pd 2(2) by (auto simp: store_paths_def disk_ok_def)
    consider x f1 where "persist_state L (add_have st i) f2 = (Inl io_failed, f1)" "x \<noteq> Some Dir"
        "files f1 = (files f2)(st_dir st @ [''state.json.tmp''] := x)"
      | f1 where "persist_state L (add_have st i) f2 = (Inr (), f1)"
        "files f1 = files (after_write L st i b f)"
      using persist_state_cases [OF pre, of L] sd 2(2) by (auto simp: after_write_def)
    then show ?thesis
    proof cases
      case A: 1
      have "torn st i b f f1" unfolding torn_def sd
        by (rule exI [of _ "length b"], rule exI [of _ x]) (use A 2(2) in simp)
      then show ?thesis using A 2 acc by simp
    next
      case B: 2
      then show ?thesis using 2 acc by simp
    qed
  qed
qed

lemma overwrite_prefix_same:
  assumes "off + length b \<le> length d" and "bslice off (length b) d = b"
  shows "overwrite off (take k b) d = d"
proof -
  have "take (length (take k b)) (drop off d) = take k b"
    using assms(2) by (metis bslice_def length_take min.commute take_take)
  moreover have "off + length (take k b) \<le> length d" using assms(1) by simp
  ultimately show ?thesis
    by (metis overwrite_in append_take_drop_id drop_drop add.commute)
qed

lemma torn_inv:
  assumes inv: "store_inv L (st, healed f)" and i: "unat i < nchunks st"
    and b: "length b = chunk_bytes st (unat i)"
    and fresh: "staged (st, healed f) (unat i) = None \<or> staged (st, healed f) (unat i) = Some b"
    and t: "torn st i b f f1"
  shows "store_inv L (st, healed f1) \<and> staged (st, healed f1) = staged (st, healed f)"
proof -
  from inv have sp: "store_paths st" and so: "state_ok st" and dk: "disk_ok L st (healed f)"
    by (auto simp: store_inv_def)
  note pd = paths_distinct [OF sp]
  from dk obtain d where d: "files f (st_data_path st) = Some (File d)" "length d = tsize st"
    by (auto simp: disk_ok_def)
  have sd: "store_data st f = d" "store_data st (healed f) = d" using d by (simp_all add: store_data_eq)
  note fits = chunk_fits [OF so i b d(2)]
  let ?off = "unat i * csize st"
  from t sd obtain k x where x: "x \<noteq> Some Dir" and f1: "files f1 = (files f)(
     st_data_path st := Some (File (overwrite ?off (take k b) d)),
     st_dir st @ [''state.json.tmp''] := x)"
    by (auto simp: torn_def)
  have sd1: "store_data st (healed f1) = overwrite ?off (take k b) d"
    using pd by (simp add: store_data_def f1)
  have fits': "?off + length (take k b) \<le> length d" using fits by simp
  have "store_inv L (st, healed f1)"
    using sp so dk pd x length_overwrite [OF fits'] d(2)
    by (auto simp: store_inv_def disk_ok_def f1)
  moreover have "staged (st, healed f1) j = staged (st, healed f) j" for j
  proof (cases "j = unat i")
    case False
    have "bslice (j * csize st) (csize st) (overwrite ?off (take k b) d) =
        bslice (j * csize st) (csize st) d"
    proof (cases "j < unat i")
      case True
      then have "j * csize st + csize st \<le> ?off"
        by (metis Suc_leI mult_Suc mult_le_mono1 add.commute)
      then show ?thesis by (rule slice_overwrite_before [OF fits'])
    next
      case F: False
      with False have "unat i < j" by simp
      then have "?off + csize st \<le> j * csize st"
        by (metis Suc_leI mult_Suc mult_le_mono1 add.commute)
      moreover have "length (take k b) \<le> csize st" using b by (simp add: chunk_bytes_def)
      ultimately show ?thesis by (intro slice_overwrite_after [OF fits']) linarith
    qed
    then show ?thesis by (simp add: staged_def sd1 sd(2))
  next
    case True
    show ?thesis
    proof (cases "staged (st, healed f) (unat i)")
      case None
      then show ?thesis using True by (auto simp: staged_def split: if_splits)
    next
      case (Some y)
      with fresh have y: "bslice ?off (csize st) d = b" by (auto simp: staged_def sd(2) split: if_splits)
      then have "bslice ?off (length b) d = b" unfolding y [symmetric] by (simp add: bslice_def min_def)
      then have "overwrite ?off (take k b) d = d" by (rule overwrite_prefix_same [OF fits])
      then show ?thesis by (simp add: staged_def sd1 sd(2))
    qed
  qed
  ultimately show ?thesis by auto
qed

lemma openable_frame:
  assumes "openable out_dir nm f" and "st_dir st = partial_dir out_dir nm" and "store_paths st"
    and "\<And>q. q \<noteq> st_data_path st \<Longrightarrow> q \<noteq> st_state_path st \<Longrightarrow>
      q \<noteq> st_dir st @ [''state.json.tmp''] \<Longrightarrow> files f1 q = files f q"
    and "files f1 (st_data_path st) \<noteq> Some Dir" and "files f1 (st_state_path st) \<noteq> Some Dir"
    and "files f1 (st_dir st @ [''state.json.tmp'']) \<noteq> Some Dir"
  shows "openable out_dir nm f1"
proof -
  have "files f1 q = files f q" if "prefix q (partial_dir out_dir nm)" for q
    using that assms(2,3) by (intro assms(4)) (auto simp: store_paths_def)
  then show ?thesis using assms by (simp add: openable_def store_paths_def)
qed

lemma crash_recovers:
  assumes inv: "store_inv L (st, healed f)" and js: "state_json_correct L"
    and dir: "st_dir st = partial_dir out_dir nm" and op: "openable out_dir nm f"
    and i: "unat i < nchunks st" and b: "length b = chunk_bytes st (unat i)"
    and fresh: "staged (st, healed f) (unat i) = None \<or> staged (st, healed f) (unat i) = Some b"
    and w: "write_chunk L st i b f = (r, st1, f1)"
  shows "\<exists>st2 f2. open_or_create L out_dir nm (ss_transfer_id (st_state st))
      (ss_total_size (st_state st)) (ss_chunk_size (st_state st)) (healed f1) = (Inr st2, f2) \<and>
    store_inv L (st2, f2) \<and>
    staged (st2, f2) = (if r = Inr () then (staged (st, healed f))(unat i \<mapsto> b)
                        else staged (st, healed f))"
proof -
  from inv have sp: "store_paths st" and dk: "disk_ok L st (healed f)" by (auto simp: store_inv_def)
  note pd = paths_distinct [OF sp]
  consider "r = Inl io_failed" "torn st i b f f1"
    | "r = Inr ()" "files f1 = files (after_write L st i b f)"
    using write_chunk_cases [OF inv i b] w by auto
  then show ?thesis
  proof cases
    case 1
    have "openable out_dir nm (healed f1)"
      using op dir sp by (rule openable_frame) (use 1(2) pd dk in \<open>auto simp: torn_def disk_ok_def\<close>)
    then show ?thesis
      using torn_inv [OF inv i b fresh 1(2)] reopen [OF _ js dir, of "healed f1"] 1 by auto
  next
    case 2
    have eq: "healed f1 = after_write L st i b (healed f)"
      using 2(2) by (simp add: after_write_def store_data_def)
    have "openable out_dir nm (healed f1)"
      using op dir sp by (rule openable_frame) (use 2(2) pd dk in \<open>auto simp: after_write_def\<close>)
    then have op': "openable out_dir nm (after_write L st i b (healed f))" by (simp only: eq)
    have dir': "st_dir (add_have st i) = partial_dir out_dir nm" using dir by simp
    have ids: "ss_transfer_id (st_state (add_have st i)) = ss_transfer_id (st_state st)"
      "ss_total_size (st_state (add_have st i)) = ss_total_size (st_state st)"
      by (simp_all add: add_have_def)
    show ?thesis
      using reopen [OF store_inv_after_write [OF inv i b] js dir' op']
        staged_after_write [OF inv i b] 2(1)
      unfolding eq ids add_have_sel by auto
  qed
qed

section \<open>The store stays inside its directory\<close>

lemma persist_state_keeps [keeps_intros]:
  "P (st_state_path st) \<Longrightarrow> P (butlast (st_state_path st) @ [''state.json.tmp'']) \<Longrightarrow>
   io_keeps P (persist_state L st)"
  unfolding persist_state_def Let_def by (intro keeps_intros)

lemma open_or_create_keeps [keeps_intros]:
  assumes "\<And>q. prefix q out_dir \<Longrightarrow> P q" and "\<And>rest. P (partial_dir out_dir nm @ rest)"
  shows "io_keeps P (open_or_create L out_dir nm tid tot chunk)"
proof -
  have all: "P q" if "prefix q (partial_dir out_dir nm)" for q
    using that assms(1) assms(2) [of "[]"] by (auto simp: partial_dir_def)
  show ?thesis
    unfolding open_or_create_def Let_def
    by (intro keeps_intros) (use all assms(2) in \<open>auto simp: butlast_append\<close>)
qed

lemma finalize_file_keeps [keeps_intros]:
  "P (st_data_path st) \<Longrightarrow> P dest \<Longrightarrow> (\<And>rest. P (st_dir st @ rest)) \<Longrightarrow> io_keeps P (finalize_file st dest)"
  unfolding finalize_file_def by (intro keeps_intros) (auto simp: prefix_def)

lemma cleanup_keeps [keeps_intros]: "(\<And>rest. P (st_dir st @ rest)) \<Longrightarrow> io_keeps P (cleanup st)"
  unfolding cleanup_def by (intro keeps_intros) (auto simp: prefix_def)

lemma file_hash_keeps [keeps_intros]: "io_keeps P (file_hash L st)"
  unfolding file_hash_def by (intro keeps_intros)

text \<open>Paths of a store, and that every operation leaves them as they are.\<close>

lemma opened_paths:
  "open_or_create L out_dir nm tid tot chunk f = (Inr st, f') \<Longrightarrow>
   store_paths st \<and> st_dir st = partial_dir out_dir nm"
  by (auto simp: open_or_create_def Let_def bindIO_Inr io_ret_def store_paths_def)

lemma write_chunk_paths:
  "write_chunk L st i b f = (r, st', f') \<Longrightarrow>
   st_dir st' = st_dir st \<and> st_data_path st' = st_data_path st \<and> st_state_path st' = st_state_path st"
  by (auto simp: write_chunk_def Let_def split: sum.splits prod.splits)

lemma write_chunk_keeps:
  assumes w: "write_chunk L st i b f = (r, st', f')" and sp: "store_paths st"
    and P: "\<And>rest. P (st_dir st @ rest)" and q: "\<not> P q"
  shows "files f' q = files f q"
proof -
  have d: "P (st_data_path st)" "P (st_state_path st)" "P (butlast (st_state_path st) @ [''state.json.tmp''])"
    using sp P by (simp_all add: store_paths_def)
  have k1: "io_keeps P (fs_write_at (st_data_path st) off b)" for off using d(1) by (rule keeps_intros)
  have k2: "io_keeps P (persist_state L (st\<lparr>st_state := s\<rparr>))" for s
    by (rule persist_state_keeps) (use d in simp_all)
  show ?thesis using w io_keepsD [OF k1 _ q] io_keepsD [OF k2 _ q]
    by (auto simp: write_chunk_def Let_def split: sum.splits prod.splits)
qed

section \<open>Completing a transfer\<close>

abbreviation piece :: "bytes \<Rightarrow> u64 \<Rightarrow> u64 \<Rightarrow> bytes" where
  "piece c csz i \<equiv> bslice (unat i * unat csz) (unat csz) c"

text \<open>
  The receiver can take a file \<open>nm\<close> with content \<open>c\<close>: nothing is in the way, and what an earlier
  run of the same transfer left staged, if anything, is part of \<open>c\<close>.
\<close>

definition resumable ::
  "'x store_lib_scheme \<Rightarrow> path \<Rightarrow> string \<Rightarrow> string \<Rightarrow> u64 \<Rightarrow> u64 \<Rightarrow> bytes \<Rightarrow> fs \<Rightarrow> bool" where
  "resumable L out_dir nm tid tot csz c f \<longleftrightarrow>
     openable out_dir nm f \<and> io_fault f = None \<and> length c = unat tot \<and>
     (let st = opened_store L out_dir nm tid tot csz f in
      state_ok st \<and> (ss_have (st_state st) = [] \<or> length (store_data st f) = unat tot) \<and>
      (\<forall>i \<in> set (ss_have (st_state st)). piece (store_data st f) csz i = piece c csz i))"

lemma fresh_resumable:
  assumes "openable out_dir nm f" and "io_fault f = None" and "length c = unat tot" and "csz \<noteq> 0"
    and "files f (partial_dir out_dir nm @ [''state.json'']) = None"
  shows "resumable L out_dir nm tid tot csz c f"
proof -
  have "opened_state L out_dir nm tid tot csz f = fresh_state tid tot csz"
    using assms(5) by (simp add: opened_state_def read_result_def loaded_state_def)
  then show ?thesis using assms(1-4)
    by (simp add: resumable_def opened_store_def fresh_state_def state_ok_def ascending_def)
qed

lemma missing_stage_content:
  fixes L :: "'x store_lib_scheme" and tid :: string and tot csz :: u64
  assumes res: "resumable L out_dir nm tid tot csz c f"
    and idx: "set is = {i. unat i < ceil_nat (unat tot) (unat csz) \<and>
      i \<notin> set (store_have (opened_store L out_dir nm tid tot csz f))}"
  defines "st \<equiv> opened_store L out_dir nm tid tot csz f"
  shows "\<exists>st' f'. write_seq (store_write L) (map (\<lambda>i. (i, piece c csz i)) is)
      (st, opened_fs L st tot f) = Inr (st', f') \<and> store_inv L (st', f') \<and>
    framed (files (opened_fs L st tot f)) st (st', f') \<and>
    is_complete st' = Inr True \<and> store_data st' f' = c"
proof -
  let ?f = "opened_fs L st tot f"
  from res have nf: "io_fault f = None" and so: "state_ok st" and len: "length c = unat tot"
    and dl: "ss_have (st_state st) = [] \<or> length (store_data st f) = unat tot"
    and same: "\<forall>i \<in> set (ss_have (st_state st)). piece (store_data st f) csz i = piece c csz i"
    by (simp_all add: resumable_def Let_def st_def)
  have inv: "store_inv L (st, ?f) \<and> framed (files ?f) st (st, ?f)"
    using opened_inv [OF nf, of L out_dir nm tid tot csz] so
    by (simp add: st_def framed_self)
  have n: "nchunks st = ceil_nat (unat tot) (unat csz)" and cs: "csize st = unat csz"
    and sp: "store_paths st" by (simp_all add: nchunks_def st_def store_paths_def)
  obtain tc where tc: "unat (tc :: u64) = nchunks st" using total_chunks_nat [OF so] by blast
  let ?ps = "map (\<lambda>i. (i, piece c csz i)) is"
  let ?content = "\<lambda>i. bslice (i * unat csz) (unat csz) c"
  have ps: "unat i < nchunks (fst (st, ?f)) \<and> length b = chunk_bytes (fst (st, ?f)) (unat i) \<and>
      b = ?content (unat i)" if "(i, b) \<in> set ?ps" for i b
    using that slice_length_chunk [of c st "unat i"] n cs len idx by (auto simp: st_def)
  have old: "staged (st, ?f) i = Some (?content i) \<or> i \<in> unat ` fst ` set ?ps"
    if "i < nchunks (fst (st, ?f))" for i
  proof (cases "i \<in> unat ` set (ss_have (st_state st))")
    case True
    then have "staged (st, f) i = Some (?content i)" using same cs by (auto simp: staged_def)
    moreover have "staged (st, ?f) = staged (st, f)" by (rule opened_staged [OF _ sp]) (use dl in blast)
    ultimately show ?thesis by simp
  next
    case False
    have u: "unat (of_nat i :: u64) = i"
      using that tc unat_lt_u64 [of tc] by (intro unat_of_nat_u64) simp
    then have "of_nat i \<notin> set (store_have st)" using False unfolding store_have_def by force
    then have "of_nat i \<in> set is" using that n u idx by (simp add: st_def)
    then have "of_nat i \<in> fst ` set ?ps" by (auto simp: image_iff)
    then show ?thesis using u by force
  qed
  obtain s' where s': "write_seq (store_write L) ?ps (st, ?f) = Inr s'"
    "store_inv L s' \<and> framed (files ?f) st s'" "nchunks (fst s') = nchunks st"
    "chunk_bytes (fst s') = chunk_bytes st" "\<forall>i < nchunks st. staged s' i = Some (?content i)"
    using framed_staging.write_missing [where content = ?content, OF inv ps old] by auto
  obtain st' f' where p: "s' = (st', f')" by (cases s')
  have fr: "framed (files ?f) st (st', f')" and inv': "store_inv L (st', f')" using s'(2) p by auto
  have sel: "csize st' = unat csz" "tsize st' = unat tot" "nchunks st' = nchunks st"
    using framed_sel [OF fr] cs by (simp_all add: st_def)
  have all: "staged (st', f') i = Some (bslice (i * csize st') (csize st') c)" if "i < nchunks st'" for i
    using s'(5) that p sel by simp
  have "length c = tsize st'" using len sel by simp
  from complete_content [OF inv' this all] show ?thesis using s'(1) p fr inv' by blast
qed

lemma partial_not_prefix: "\<not> prefix (partial_dir out_dir nm) (out_dir @ [nm])"
  by (auto simp: partial_dir_def)

lemma prefix_partial:
  "prefix q (partial_dir out_dir nm) \<longleftrightarrow> prefix q out_dir \<or> q = partial_dir out_dir nm"
  by (auto simp: partial_dir_def)

text \<open>What a delivered file leaves on the receiver's disk.\<close>

definition delivered :: "path \<Rightarrow> string \<Rightarrow> bytes \<Rightarrow> fs \<Rightarrow> path \<Rightarrow> node option" where
  "delivered out_dir nm c f q =
     (if prefix (partial_dir out_dir nm) q then None
      else if q = out_dir @ [nm] then Some (File c)
      else if prefix q out_dir then Some Dir
      else files f q)"

lemma complete_store_delivers:
  fixes L :: "'x store_lib_scheme"
  assumes inv: "store_inv L (st', f')" and fr: "framed (files (opened_fs L st tot f)) st (st', f')"
    and st: "st = opened_store L out_dir nm tid tot csz f" and sd: "store_data st' f' = c"
    and dest: "files f (out_dir @ [nm]) \<noteq> Some Dir"
  shows "\<exists>f3. finalize_file st' (out_dir @ [nm]) f' = (Inr (), f3) \<and> files f3 = delivered out_dir nm c f \<and>
    file_hash L st' f' = (Inr (blake3_hex L c), f')"
proof -
  have dir: "st_dir st' = partial_dir out_dir nm" using framed_sel(1) [OF fr] st by simp
  have out: "files f' q = (if prefix q out_dir then Some Dir else files f q)"
    if "\<not> prefix (partial_dir out_dir nm) q" for q
  proof -
    have nd: "q \<noteq> partial_dir out_dir nm @ xs" for xs using that by auto
    have "files f' q = files (opened_fs L st tot f) q" using fr that st by (simp add: framed_def)
    also have "\<dots> = (if prefix q out_dir then Some Dir else files f q)"
      using nd [of "[]"] nd [of "[''data'']"] nd [of "[''state.json'']"] nd [of "[''state.json.tmp'']"]
      by (simp add: opened_fs_def st prefix_partial)
    finally show ?thesis .
  qed
  have np: "\<not> prefix (partial_dir out_dir nm) out_dir" by (auto simp: partial_dir_def dest: prefix_length_le)
  have mc: "may_create (out_dir @ [nm]) f'"
    using dest out [OF np] out [OF partial_not_prefix] by (auto simp: may_create_def)
  obtain f3 where f3: "finalize_file st' (out_dir @ [nm]) f' = (Inr (), f3)"
    "files f3 = (\<lambda>q. if prefix (partial_dir out_dir nm) q then None
       else if q = out_dir @ [nm] then Some (File c) else files f' q)"
    using finalize_file_effect [OF inv mc] partial_not_prefix dir sd by auto
  from inv obtain d where d: "files f' (st_data_path st') = Some (File d)" and nf: "io_fault f' = None"
    by (auto simp: store_inv_def disk_ok_def)
  then have "file_hash L st' f' = (Inr (blake3_hex L c), f')"
    using sd store_data_eq [OF d] by (simp add: file_hash_def bindIO_def fs_read_def io_ret_def)
  moreover have "files f3 = delivered out_dir nm c f"
    by (rule ext) (simp add: f3(2) delivered_def out)
  ultimately show ?thesis using f3(1) by blast
qed

end
