(* ===== verification/B2P_Stream.thy ===== *)
theory B2P_Stream
  imports B2P_Store B2P_Archive B2P_Handshake
begin

text \<open>
  The framed, resumable transfer over a message channel (src/src/stream.rs). Both sides are
  processes over a \<open>MsgChannel\<close> that thread their own file system. Progress bars are display
  only and are left out, except for the lengths they add up (\<open>chunk_len\<close>).
\<close>

definition STREAM_FRAME_SIZE :: u64 where
  "STREAM_FRAME_SIZE = 16 * 1024"

type_synonym outcome = "string res \<times> fs"

definition seal_val ::
  "'x crypto_lib_scheme \<Rightarrow> ('v \<Rightarrow> bytes) \<Rightarrow> bytes \<Rightarrow> domain \<Rightarrow> u64 \<Rightarrow> 'v \<Rightarrow> bytes" where
  "seal_val L to_vec sk d index v = seal L sk d index [] (to_vec v)"

definition open_val ::
  "'x crypto_lib_scheme \<Rightarrow> (bytes \<Rightarrow> 'v option) \<Rightarrow> bytes \<Rightarrow> domain \<Rightarrow> u64 \<Rightarrow> bytes \<Rightarrow> 'v res" where
  "open_val L from_slice sk d index ct =
     bindR (map_err (\<lambda>_. Msg ''frame failed to decrypt'') (open_sealed L sk d index [] ct)) (\<lambda>pt.
       ok_or (Msg ''invalid JSON'') (from_slice pt))"

definition safe_name :: "string \<Rightarrow> string" where
  "safe_name nm = (case file_name nm of Some n \<Rightarrow> n | None \<Rightarrow> ''b2p-download'')"

definition stream_blake3_file :: "'x crypto_lib_scheme \<Rightarrow> path \<Rightarrow> string io" where
  "stream_blake3_file L p = bindIO (fs_read p) (\<lambda>c. io_ret (hash_loop L [] c))"

definition chunk_len :: "u64 \<Rightarrow> u64 \<Rightarrow> u64 \<Rightarrow> u64" where
  "chunk_len i tot csz = min (tot - i * csz) csz"

definition stream_manifest :: "source \<Rightarrow> manifest" where
  "stream_manifest src =
     (case src of
        Blob k nm ents tot tid _ _ \<Rightarrow>
          \<lparr>m_version = PROTOCOL_VERSION, m_transfer_id = tid, m_kind = k, m_name = nm,
           m_entries = ents, m_total_size = tot, m_chunk_size = STREAM_FRAME_SIZE, m_text = None\<rparr>
      | TextSource content tid \<Rightarrow>
          \<lparr>m_version = PROTOCOL_VERSION, m_transfer_id = tid, m_kind = KText, m_name = [],
           m_entries = [], m_total_size = of_nat (length content),
           m_chunk_size = STREAM_FRAME_SIZE, m_text = Some content\<rparr>)"

text \<open>The range \<^verbatim>\<open>0..total_chunks\<close>, and a file operation inside a process.\<close>

definition index_range :: "u64 \<Rightarrow> u64 list" where
  "index_range tc = map of_nat [0..<unat tc]"

definition io_or :: "'a io \<Rightarrow> fs \<Rightarrow> ('a \<Rightarrow> fs \<Rightarrow> outcome proc) \<Rightarrow> outcome proc" where
  "io_or m f k = (case m f of (Inl e, f') \<Rightarrow> Ret (Inl e, f') | (Inr v, f') \<Rightarrow> k v f')"

section \<open>The sender\<close>

fun send_frames ::
  "'x crypto_lib_scheme \<Rightarrow> bytes \<Rightarrow> path \<Rightarrow> u64 \<Rightarrow> stream_manifest_ack \<Rightarrow> u64 list \<Rightarrow> fs \<Rightarrow>
   (fs \<Rightarrow> outcome proc) \<Rightarrow> outcome proc" where
  "send_frames L sk p tot ack [] f k = k f"
| "send_frames L sk p tot ack (i # is) f k =
     (if sa_complete ack \<or> runs_contain (sa_have_runs ack) i then send_frames L sk p tot ack is f k
      else io_or (read_chunk p i STREAM_FRAME_SIZE tot) f (\<lambda>plain f.
        send_or (\<lambda>e. (Inl e, f)) (seal L sk StreamToReceiver (1 + i) [] plain)
          (send_frames L sk p tot ack is f k)))"

definition send_source ::
  "'x proto_lib_scheme \<Rightarrow> session_key \<Rightarrow> source \<Rightarrow> fs \<Rightarrow> outcome proc" where
  "send_source L key src f =
     (let sk = stream_key L key; m = stream_manifest src in
      send_or (\<lambda>e. (Inl e, f)) (seal_val L (js_manifest L) sk StreamToReceiver 0 m) (
      recv_or (\<lambda>e. (Inl e, f)) (\<lambda>ct.
      case context_of ''could not read the receiver's response (wrong code?)''
             (open_val L (un_stream_ack L) sk StreamToSender 0 ct) of
        Inl e \<Rightarrow> Ret (Inl e, f)
      | Inr ack \<Rightarrow>
          if \<not> sa_accepted ack then Ret (Inl (Msg ''the receiver declined the transfer''), f)
          else if m_kind m = KText then Ret (Inr ''text delivered'', f)
          else
            (case src of
               TextSource _ _ \<Rightarrow> Ret (Inl (Panic ''text returned above''), f)
             | Blob _ _ _ tot _ p _ \<Rightarrow>
                 (case manifest_total_chunks m of
                    Inl e \<Rightarrow> Ret (Inl e, f)
                  | Inr total_chunks \<Rightarrow>
                      send_frames L sk p tot ack (index_range total_chunks) f (\<lambda>f.
                      io_or (stream_blake3_file L p) f (\<lambda>h f.
                      send_or (\<lambda>e. (Inl e, f))
                        (seal_val L (js_commit L) sk StreamToReceiver (1 + total_chunks)
                           \<lparr>co_blake3_hex = h\<rparr>) (
                      recv_or (\<lambda>e. (Inl e, f)) (\<lambda>ct.
                      case open_val L (un_commit_ack L) sk StreamToSender 1 ct of
                        Inl e \<Rightarrow> Ret (Inl e, f)
                      | Inr cack \<Rightarrow>
                          if \<not> ca_ok cack
                          then Ret (Inl (Msg (''receiver failed to finalize: '' @
                                 (case ca_error cack of Some s \<Rightarrow> s | None \<Rightarrow> []))), f)
                          else Ret (Inr ''transfer complete'', f)))))))))) "

section \<open>The receiver\<close>

definition finalize ::
  "'x store_lib_scheme \<Rightarrow> store \<Rightarrow> manifest \<Rightarrow> commit \<Rightarrow> path \<Rightarrow> string \<Rightarrow> string io" where
  "finalize L st m commit out_dir nm f =
     (case is_complete st of
        Inl e \<Rightarrow> (Inl e, f)
      | Inr complete \<Rightarrow>
          if \<not> complete then (Inl (Msg ''transfer incomplete''), f)
          else bindIO (file_hash L st) (\<lambda>h.
            if h \<noteq> co_blake3_hex commit
            then io_err (Msg ''integrity check failed: hash mismatch'')
            else
              (case m_kind m of
                 KFile \<Rightarrow>
                   bindIO (finalize_file st (out_dir @ [nm])) (\<lambda>_.
                   io_ret (''saved '' @ path_text (out_dir @ [nm])))
               | KTar \<Rightarrow>
                   bindIO (unpack_tar L (st_data_path st) out_dir) (\<lambda>_.
                   bindIO (cleanup st) (\<lambda>_.
                   io_ret (''unpacked archive into '' @ path_text out_dir)))
               | KText \<Rightarrow> io_err (Panic ''text returned before staging''))) f)"

fun recv_frames ::
  "'x store_lib_scheme \<Rightarrow> bytes \<Rightarrow> u64 set \<Rightarrow> u64 list \<Rightarrow> store \<Rightarrow> fs \<Rightarrow>
   (store \<Rightarrow> fs \<Rightarrow> outcome proc) \<Rightarrow> outcome proc" where
  "recv_frames L sk have_set [] st f k = k st f"
| "recv_frames L sk have_set (i # is) st f k =
     (if i \<in> have_set then recv_frames L sk have_set is st f k
      else recv_or (\<lambda>e. (Inl e, f)) (\<lambda>ct.
        case map_err (\<lambda>_. Msg (''frame '' @ show_u64 i @ '' failed to decrypt''))
               (open_sealed L sk StreamToReceiver (1 + i) [] ct) of
          Inl e \<Rightarrow> Ret (Inl e, f)
        | Inr plain \<Rightarrow>
            (case write_chunk L st i plain f of
               (Inl e, _, f) \<Rightarrow> Ret (Inl e, f)
             | (Inr _, st, f) \<Rightarrow> recv_frames L sk have_set is st f k)))"

definition refusal :: stream_manifest_ack where
  "refusal = \<lparr>sa_accepted = False, sa_complete = False, sa_have_runs = []\<rparr>"

definition recv_commit ::
  "'x store_lib_scheme \<Rightarrow> bytes \<Rightarrow> manifest \<Rightarrow> u64 \<Rightarrow> path \<Rightarrow> string \<Rightarrow> store \<Rightarrow> fs \<Rightarrow> outcome proc" where
  "recv_commit L sk m total_chunks out_dir nm st f =
     recv_or (\<lambda>e. (Inl e, f)) (\<lambda>ct.
     case open_val L (un_commit L) sk StreamToReceiver (1 + total_chunks) ct of
       Inl e \<Rightarrow> Ret (Inl e, f)
     | Inr commit \<Rightarrow>
         (case finalize L st m commit out_dir nm f of (result, f) \<Rightarrow>
          send_or (\<lambda>e. (Inl e, f))
            (seal_val L (js_commit_ack L) sk StreamToSender 1
               (case result of
                  Inr _ \<Rightarrow> \<lparr>ca_ok = True, ca_error = None\<rparr>
                | Inl e \<Rightarrow> \<lparr>ca_ok = False, ca_error = Some (display_err e)\<rparr>))
            (Ret (result, f))))"

definition recv_into ::
  "'x store_lib_scheme \<Rightarrow> session_key \<Rightarrow> path \<Rightarrow> (manifest \<Rightarrow> bool) \<Rightarrow> fs \<Rightarrow> outcome proc" where
  "recv_into L key out_dir accept f =
     (let sk = stream_key L key;
          reply = (\<lambda>ack f k. send_or (\<lambda>e. (Inl e, f))
                     (seal_val L (js_stream_ack L) sk StreamToSender 0 ack) k) in
      recv_or (\<lambda>e. (Inl e, f)) (\<lambda>ct.
      case context_of ''could not decrypt the manifest (wrong code?)''
             (open_val L (un_manifest L) sk StreamToReceiver 0 ct) of
        Inl e \<Rightarrow> Ret (Inl e, f)
      | Inr m \<Rightarrow>
          if m_version m \<noteq> PROTOCOL_VERSION
          then reply refusal f (Ret (Inl (Msg ''protocol version mismatch''), f))
          else if m_kind m \<noteq> KText \<and> m_chunk_size m \<noteq> STREAM_FRAME_SIZE
          then reply refusal f (Ret (Inl (Msg (''unexpected frame size '' @
                 show_u64 (m_chunk_size m) @ '' (stream expects '' @
                 show_u64 STREAM_FRAME_SIZE @ '')'')), f))
          else
            let nm = safe_name (m_name m) in
            if \<not> accept m then reply refusal f (Ret (Inl (Msg ''transfer declined''), f))
            else if m_kind m = KText
            then reply \<lparr>sa_accepted = True, sa_complete = False, sa_have_runs = []\<rparr> f
                   (Ret (Inr (case m_text m of Some t \<Rightarrow> t | None \<Rightarrow> []), f))
            else
              io_or (open_or_create L out_dir nm (m_transfer_id m) (m_total_size m)
                       (m_chunk_size m)) f (\<lambda>st f.
              case is_complete st of
                Inl e \<Rightarrow> Ret (Inl e, f)
              | Inr complete \<Rightarrow>
                  reply \<lparr>sa_accepted = True, sa_complete = complete,
                         sa_have_runs = runs_from_sorted (store_have st)\<rparr> f
                    (case manifest_total_chunks m of
                       Inl e \<Rightarrow> Ret (Inl e, f)
                     | Inr total_chunks \<Rightarrow>
                         recv_frames L sk (set (store_have st)) (index_range total_chunks) st f
                           (recv_commit L sk m total_chunks out_dir nm)))))"

section \<open>Facts about the pieces\<close>

lemma open_seal_val:
  "aead_correct L \<Longrightarrow> from_slice (to_vec v) = Some v \<Longrightarrow>
   open_val L from_slice sk d i (seal_val L to_vec sk d i v) = Inr v"
  by (simp add: open_val_def seal_val_def open_seal)

lemma safe_name_component:
  "safe_name s \<noteq> [] \<and> safe_name s \<noteq> ''.'' \<and> safe_name s \<noteq> ''..'' \<and> CHR ''/'' \<notin> set (safe_name s)"
proof (cases "file_name s")
  case None
  then show ?thesis by (simp add: safe_name_def)
next
  case (Some n)
  then show ?thesis using file_name_safe [OF Some] by (simp add: safe_name_def)
qed

lemma frame_size_nat [simp]: "unat STREAM_FRAME_SIZE = 16384" "STREAM_FRAME_SIZE \<noteq> 0"
  by (simp_all add: STREAM_FRAME_SIZE_def)

lemma set_index_range: "set (index_range tc) = {i. unat i < unat tc}"
proof (intro set_eqI iffI)
  fix i assume "i \<in> set (index_range tc)"
  then obtain n where n: "n < unat tc" "i = of_nat n" by (auto simp: index_range_def)
  then have "unat i = n" using unat_lt_u64 [of tc] by (simp add: unat_of_nat_u64)
  then show "i \<in> {i. unat i < unat tc}" using n by simp
next
  fix i :: u64 assume "i \<in> {i. unat i < unat tc}"
  then show "i \<in> set (index_range tc)"
    by (auto simp: index_range_def intro!: image_eqI [of _ _ "unat i"])
qed

lemma distinct_index_range: "distinct (index_range tc)"
proof -
  have "inj_on (of_nat :: nat \<Rightarrow> u64) (set [0..<unat tc])"
  proof (rule inj_onI)
    fix x y assume a: "x \<in> set [0..<unat tc]" "y \<in> set [0..<unat tc]" and eq: "(of_nat x :: u64) = of_nat y"
    have "x < 2 ^ 64" "y < 2 ^ 64" using a unat_lt_u64 [of tc] by auto
    then show "x = y" using arg_cong [OF eq, of unat] by (simp only: unat_of_nat_u64)
  qed
  then show ?thesis by (simp add: index_range_def distinct_map)
qed

text \<open>The progress the sender reports adds up to the size of the transfer.\<close>

lemma chunk_len_nat:
  assumes "csz \<noteq> 0" and "unat i < ceil_nat (unat tot) (unat csz)"
  shows "unat (chunk_len i tot csz) = min (unat csz) (unat tot - unat i * unat csz)"
proof -
  have cs: "unat csz > 0" using assms(1) by (simp add: unat_gt_0)
  have lt: "unat i * unat csz < unat tot" by (rule ceil_nat_bounds(2) [OF cs assms(2)])
  have mult: "unat (i * csz) = unat i * unat csz"
    using lt unat_lt_u64 [of tot] by (intro unat_mult_u64) linarith
  have sub: "unat (tot - i * csz) = unat tot - unat i * unat csz"
    using unat_sub_u64 [of "i * csz" tot] mult lt by simp
  show ?thesis by (simp add: chunk_len_def min_def word_le_nat_alt sub)
qed

section \<open>The payload frames\<close>

abbreviation frame_of :: "bytes \<Rightarrow> u64 \<Rightarrow> bytes" where
  "frame_of c i \<equiv> bslice (unat i * 16384) 16384 c"

lemma store_write_Inr:
  "store_write L (st, f) i b = Inr s \<Longrightarrow> \<exists>u. write_chunk L st i b f = (Inr u, fst s, snd s)"
  by (auto simp: store_write_def split: prod.splits sum.splits)

lemma frames_exchange:
  assumes "aead_correct L" and fs: "io_fault fs = None" "files fs p = Some (File c)" "length c = unat tot"
    and "\<forall>i \<in> set is. unat i < ceil_nat (unat tot) 16384"
    and "\<forall>i \<in> set is. (sa_complete ack \<or> runs_contain (sa_have_runs ack) i) = (i \<in> have)"
    and "write_seq (store_write L) (map (\<lambda>i. (i, frame_of c i)) (filter (\<lambda>i. i \<notin> have) is)) (st, f) =
      Inr (st', f')"
    and "\<forall>i \<in> set is. i \<notin> have \<longrightarrow> M (seal L sk StreamToReceiver (1 + i) [] (frame_of c i))"
    and k: "meets M (K fs, K' st' f', [], rl) a b"
  shows "meets M (send_frames L sk p tot ack is fs K, recv_frames L sk have is st f K', [], rl) a b"
  using assms(5-8)
proof (induction "is" arbitrary: st f)
  case Nil
  then show ?case using k by simp
next
  case (Cons i js)
  show ?case
  proof (cases "i \<in> have")
    case True
    then show ?thesis using Cons by simp
  next
    case False
    have rd: "read_chunk p i STREAM_FRAME_SIZE tot fs = (Inr (frame_of c i), fs)"
      using read_chunk_ok [OF fs, of STREAM_FRAME_SIZE i] Cons.prems(1) by simp
    from Cons.prems(3) False obtain s1 where s1: "store_write L (st, f) i (frame_of c i) = Inr s1"
      and rest: "write_seq (store_write L) (map (\<lambda>i. (i, frame_of c i)) (filter (\<lambda>i. i \<notin> have) js)) s1 = Inr (st', f')"
      by (auto simp: bindR_eq_Inr)
    obtain st1 f1 where s1p: "s1 = (st1, f1)" by (cases s1)
    obtain u where w: "write_chunk L st i (frame_of c i) f = (Inr u, st1, f1)"
      using store_write_Inr [OF s1] s1p by auto
    have IH: "meets M (send_frames L sk p tot ack js fs K, recv_frames L sk have js st1 f1 K', [], rl) a b"
      using Cons.IH [of st1 f1] Cons.prems(1,2,4) rest s1p by simp
    have ns: "\<not> (sa_complete ack \<or> runs_contain (sa_have_runs ack) i)" using Cons.prems(2) False by simp
    show ?thesis
      using ns False
      apply (simp only: send_frames.simps recv_frames.simps if_False io_or_def rd prod.case sum.case)
      apply (rule ex_left_send, simp only: append_Nil)
      apply (rule ex_right_recv)
      using IH Cons.prems(4) by (simp_all add: open_seal [OF assms(1)] w)
  qed
qed

section \<open>The whole transfer\<close>

lemma skip_condition:
  assumes "state_ok st" and "is_complete st = Inr complete" and "unat i < nchunks st"
  shows "(complete \<or> runs_contain (runs_from_sorted (store_have st)) i) = (i \<in> set (store_have st))"
proof -
  obtain tc :: u64 where tc: "unat tc = nchunks st" using total_chunks_nat [OF assms(1)] by blast
  have small: "\<forall>x \<in> set (store_have st). x < U64_MAX"
  proof
    fix x assume "x \<in> set (store_have st)"
    then have "unat x < unat tc" using assms(1) tc by (simp add: state_ok_def store_have_def)
    then show "x < U64_MAX" using unat_lt_u64 [of tc] by (simp add: word_less_nat_alt)
  qed
  have "i \<in> set (store_have st)" if complete
  proof -
    have "unat i \<in> unat ` set (ss_have (st_state st))"
      using that assms is_complete_iff [OF assms(1)] by auto
    then show ?thesis by (auto simp: store_have_def simp flip: word_unat_eq_iff)
  qed
  then show ?thesis using runs_contain_iff [OF small] by auto
qed

text \<open>After the frames: the store holds all of the content, and nothing else changed.\<close>

lemma frames_stage_content:
  fixes L :: "'x store_lib_scheme" and tid :: string
  assumes res: "resumable L out_dir nm tid tot STREAM_FRAME_SIZE c f" and tc: "unat tc = ceil_nat (unat tot) 16384"
  defines "st \<equiv> opened_store L out_dir nm tid tot STREAM_FRAME_SIZE f"
  shows "\<exists>st' f'. write_seq (store_write L)
      (map (\<lambda>i. (i, frame_of c i)) (filter (\<lambda>i. i \<notin> set (store_have st)) (index_range tc)))
      (st, opened_fs L st tot f) = Inr (st', f') \<and> store_inv L (st', f') \<and>
    framed (files (opened_fs L st tot f)) st (st', f') \<and>
    is_complete st' = Inr True \<and> store_data st' f' = c"
proof -
  have "set (filter (\<lambda>i. i \<notin> set (store_have st)) (index_range tc)) =
      {i. unat i < ceil_nat (unat tot) (unat STREAM_FRAME_SIZE) \<and> i \<notin> set (store_have st)}"
    using tc by (auto simp: set_index_range)
  from missing_stage_content [OF res this [unfolded st_def]] show ?thesis by (simp add: st_def)
qed

text \<open>
  The exchange up to the receiver's \<open>finalize\<close>, whose verdict both sides report.
\<close>

definition sender_verdict :: "string res \<Rightarrow> string res" where
  "sender_verdict r =
     (case r of
        Inr _ \<Rightarrow> Inr ''transfer complete''
      | Inl e \<Rightarrow> Inl (Msg (''receiver failed to finalize: '' @ display_err e)))"

lemma open_frames:
  assumes "aead_correct L" and "json_correct L"
  shows "open_val L (un_manifest L) sk d i (seal_val L (js_manifest L) sk d i m) = Inr m"
    "open_val L (un_stream_ack L) sk d i (seal_val L (js_stream_ack L) sk d i a) = Inr a"
    "open_val L (un_commit L) sk d i (seal_val L (js_commit L) sk d i co) = Inr co"
    "open_val L (un_commit_ack L) sk d i (seal_val L (js_commit_ack L) sk d i ca) = Inr ca"
  using assms by (simp_all add: open_seal_val json_correct_def)

text \<open>The frames of a transfer, but for the verdict: what is sealed and sent in either direction.\<close>

definition commit_verdict :: "string res \<Rightarrow> commit_ack" where
  "commit_verdict result =
     (case result of
        Inr _ \<Rightarrow> \<lparr>ca_ok = True, ca_error = None\<rparr>
      | Inl e \<Rightarrow> \<lparr>ca_ok = False, ca_error = Some (display_err e)\<rparr>)"

definition store_ack :: "store \<Rightarrow> stream_manifest_ack" where
  "store_ack st = \<lparr>sa_accepted = True, sa_complete = (is_complete st = Inr True),
     sa_have_runs = runs_from_sorted (store_have st)\<rparr>"

definition stream_frames :: "'x store_lib_scheme \<Rightarrow> session_key \<Rightarrow> source \<Rightarrow> store \<Rightarrow> bytes \<Rightarrow> bytes list" where
  "stream_frames L key src st c =
     (let sk = stream_key L key; m = stream_manifest src;
          tc = (case manifest_total_chunks m of Inr tc \<Rightarrow> tc | Inl _ \<Rightarrow> 0) in
      [seal_val L (js_manifest L) sk StreamToReceiver 0 m,
       seal_val L (js_stream_ack L) sk StreamToSender 0 (store_ack st)] @
      map (\<lambda>i. seal L sk StreamToReceiver (1 + i) [] (frame_of c i))
        (filter (\<lambda>i. i \<notin> set (store_have st)) (index_range tc)) @
      [seal_val L (js_commit L) sk StreamToReceiver (1 + tc) \<lparr>co_blake3_hex = blake3_hex L c\<rparr>])"

lemma commit_exchange:
  fixes L :: "'x store_lib_scheme"
  assumes ok: "aead_correct L" "json_correct L"
    and fin: "finalize L st m \<lparr>co_blake3_hex = h\<rparr> out_dir nm f = (result, f3)"
    and "M (seal_val L (js_commit L) sk StreamToReceiver (1 + tc) \<lparr>co_blake3_hex = h\<rparr>)"
    and "M (seal_val L (js_commit_ack L) sk StreamToSender 1 (commit_verdict result))"
  shows "meets M
    (send_or (\<lambda>e. (Inl e, fs)) (seal_val L (js_commit L) sk StreamToReceiver (1 + tc) \<lparr>co_blake3_hex = h\<rparr>)
      (recv_or (\<lambda>e. (Inl e, fs)) (\<lambda>ct.
        case open_val L (un_commit_ack L) sk StreamToSender 1 ct of
          Inl e \<Rightarrow> Ret (Inl e, fs)
        | Inr cack \<Rightarrow>
            if \<not> ca_ok cack
            then Ret (Inl (Msg (''receiver failed to finalize: '' @
                   (case ca_error cack of Some s \<Rightarrow> s | None \<Rightarrow> []))), fs)
            else Ret (Inr ''transfer complete'', fs))),
     recv_commit L sk m tc out_dir nm st f, [], []) (sender_verdict result, fs) (result, f3)"
  apply (rule ex_left_send, simp only: append_Nil recv_commit_def)
  apply (rule ex_right_recv)
  apply (simp only: open_frames [OF ok] sum.case fin prod.case)
  apply (rule ex_right_send, simp only: append_Nil)
  apply (rule ex_left_recv)
  apply (cases result; simp add: open_frames [OF ok] sender_verdict_def)
  using assms(4,5) by (simp_all add: commit_verdict_def)

lemma stream_exchange:
  fixes L :: "'x store_lib_scheme" and tid :: string and tot :: u64
  assumes ok: "aead_correct L" "json_correct L"
    and src: "src = Blob k name ents tot tid p spool" "k \<noteq> KText"
    and fs: "io_fault fs = None" "files fs p = Some (File c)"
    and acc: "accept (stream_manifest src)"
    and res: "resumable L out_dir (safe_name name) tid tot STREAM_FRAME_SIZE c f"
  defines "st \<equiv> opened_store L out_dir (safe_name name) tid tot STREAM_FRAME_SIZE f"
  assumes frames: "list_all M (stream_frames L key src st c)"
  shows "\<exists>st' f'. store_inv L (st', f') \<and> framed (files (opened_fs L st tot f)) st (st', f') \<and>
    is_complete st' = Inr True \<and> store_data st' f' = c \<and>
    (\<forall>result f3. finalize L st' (stream_manifest src) \<lparr>co_blake3_hex = blake3_hex L c\<rparr> out_dir
        (safe_name name) f' = (result, f3) \<longrightarrow>
      M (seal_val L (js_commit_ack L) (stream_key L key) StreamToSender 1 (commit_verdict result)) \<longrightarrow>
      meets M (send_source L key src fs, recv_into L key out_dir accept f, [], [])
        (sender_verdict result, fs) (result, f3))"
proof -
  let ?nm = "safe_name name" and ?m = "stream_manifest src" and ?f = "opened_fs L st tot f"
  from res have op: "openable out_dir ?nm f" and nf: "io_fault f = None" and so: "state_ok st"
    and len: "length c = unat tot" by (simp_all add: resumable_def Let_def st_def)
  obtain tc where tc: "manifest_total_chunks ?m = Inr tc" "unat tc = ceil_nat (unat tot) 16384"
    using div_ceil_nat [OF frame_size_nat(2), of tot]
    by (auto simp: manifest_total_chunks_def stream_manifest_def src)
  have nst: "nchunks st = unat tc" using tc by (simp add: nchunks_def st_def)
  obtain st' f' where w: "write_seq (store_write L)
      (map (\<lambda>i. (i, frame_of c i)) (filter (\<lambda>i. i \<notin> set (store_have st)) (index_range tc)))
      (st, ?f) = Inr (st', f')" and inv: "store_inv L (st', f')"
    and fr: "framed (files ?f) st (st', f')" and cm: "is_complete st' = Inr True"
    and sd: "store_data st' f' = c"
    using frames_stage_content [OF res tc(2)] unfolding st_def by blast
  obtain complete where comp: "is_complete st = Inr complete" using is_complete_iff [OF so] by blast
  let ?ack = "\<lparr>sa_accepted = True, sa_complete = complete, sa_have_runs = runs_from_sorted (store_have st)\<rparr>"
  have skip: "\<forall>i \<in> set (index_range tc).
      (sa_complete ?ack \<or> runs_contain (sa_have_runs ?ack) i) = (i \<in> set (store_have st))"
    using skip_condition [OF so comp] nst by (simp add: set_index_range)
  have range: "\<forall>i \<in> set (index_range tc). unat i < ceil_nat (unat tot) 16384"
    using tc by (simp add: set_index_range)
  have mf: "m_version ?m = PROTOCOL_VERSION" "m_kind ?m = k" "m_chunk_size ?m = STREAM_FRAME_SIZE"
    "m_name ?m = name" "m_transfer_id ?m = tid" "m_total_size ?m = tot"
    by (simp_all add: stream_manifest_def src)
  have oc: "open_or_create L out_dir ?nm tid tot STREAM_FRAME_SIZE f = (Inr st, ?f)"
    unfolding st_def by (rule open_effect [OF op nf])
  have hash: "stream_blake3_file L p fs = (Inr (blake3_hex L c), fs)"
    using fs by (simp add: stream_blake3_file_def fs_read_def bindIO_def io_ret_def)
  have ack: "store_ack st = ?ack" by (simp add: store_ack_def comp)
  have fr1: "M (seal_val L (js_manifest L) (stream_key L key) StreamToReceiver 0 ?m)"
    "M (seal_val L (js_stream_ack L) (stream_key L key) StreamToSender 0 ?ack)"
    "M (seal_val L (js_commit L) (stream_key L key) StreamToReceiver (1 + tc) \<lparr>co_blake3_hex = blake3_hex L c\<rparr>)"
    using frames tc(1) by (simp_all add: stream_frames_def Let_def ack)
  have fr2: "\<forall>i \<in> set (index_range tc). i \<notin> set (store_have st) \<longrightarrow>
      M (seal L (stream_key L key) StreamToReceiver (1 + i) [] (frame_of c i))"
    using frames tc(1) by (auto simp: stream_frames_def Let_def list_all_iff)
  have "meets M (send_source L key src fs, recv_into L key out_dir accept f, [], [])
      (sender_verdict result, fs) (result, f3)"
    if fin: "finalize L st' ?m \<lparr>co_blake3_hex = blake3_hex L c\<rparr> out_dir ?nm f' = (result, f3)"
      and mv: "M (seal_val L (js_commit_ack L) (stream_key L key) StreamToSender 1 (commit_verdict result))"
    for result f3
    unfolding send_source_def recv_into_def Let_def
    apply (rule ex_left_send, simp only: append_Nil)
    apply (rule ex_right_recv)
    apply (simp only: open_frames [OF ok] context_of_simps sum.case
        mf acc src(2) oc io_or_def prod.case comp simp_thms if_True if_False)
    apply (rule ex_right_send, simp only: append_Nil)
    apply (rule ex_left_recv)
    apply (simp only: open_frames [OF ok] context_of_simps sum.case
        stream_manifest_ack.simps simp_thms if_False tc(1))
    apply (simp only: src(1) source.case)
    apply (rule frames_exchange [OF ok(1) fs len range skip w fr2])
    apply (simp only: io_or_def hash prod.case sum.case)
    apply (rule commit_exchange [OF ok _ fr1(3) mv])
    using fin fr1 by (simp_all only: src(1))
  then show ?thesis using inv fr cm sd by blast
qed

section \<open>Delivery\<close>

lemma finalize_delivers:
  fixes L :: "'x store_lib_scheme"
  assumes inv: "store_inv L (st', f')" and fr: "framed (files (opened_fs L st tot f)) st (st', f')"
    and st: "st = opened_store L out_dir nm tid tot STREAM_FRAME_SIZE f"
    and cm: "is_complete st' = Inr True" and sd: "store_data st' f' = c"
    and dest: "files f (out_dir @ [nm]) \<noteq> Some Dir" and k: "m_kind m = KFile"
  shows "\<exists>f3. finalize L st' m \<lparr>co_blake3_hex = blake3_hex L c\<rparr> out_dir nm f' =
      (Inr (''saved '' @ path_text (out_dir @ [nm])), f3) \<and> files f3 = delivered out_dir nm c f"
proof -
  obtain f3 where f3: "finalize_file st' (out_dir @ [nm]) f' = (Inr (), f3)"
    "files f3 = delivered out_dir nm c f" and h: "file_hash L st' f' = (Inr (blake3_hex L c), f')"
    using complete_store_delivers [OF inv fr st sd dest] by blast
  then show ?thesis using cm k by (simp add: finalize_def io_ret_def)
qed

lemma stream_delivers:
  fixes L :: "'x store_lib_scheme"
  assumes ok: "aead_correct L" "json_correct L"
    and fs: "io_fault fs = None" "files fs p = Some (File c)"
    and acc: "accept (stream_manifest (Blob KFile name ents tot tid p spool))"
    and res: "resumable L out_dir (safe_name name) tid tot STREAM_FRAME_SIZE c f"
    and dest: "files f (out_dir @ [safe_name name]) \<noteq> Some Dir"
    and frames: "list_all M (stream_frames L key (Blob KFile name ents tot tid p spool)
      (opened_store L out_dir (safe_name name) tid tot STREAM_FRAME_SIZE f) c)"
    and verdict: "M (seal_val L (js_commit_ack L) (stream_key L key) StreamToSender 1 \<lparr>ca_ok = True, ca_error = None\<rparr>)"
  shows "\<exists>f'. meets M (send_source L key (Blob KFile name ents tot tid p spool) fs,
      recv_into L key out_dir accept f, [], [])
      (Inr ''transfer complete'', fs)
      (Inr (''saved '' @ path_text (out_dir @ [safe_name name])), f') \<and>
    files f' = delivered out_dir (safe_name name) c f"
proof -
  let ?src = "Blob KFile name ents tot tid p spool"
  obtain st' f1 where x: "store_inv L (st', f1)"
    "framed (files (opened_fs L (opened_store L out_dir (safe_name name) tid tot STREAM_FRAME_SIZE f) tot f))
       (opened_store L out_dir (safe_name name) tid tot STREAM_FRAME_SIZE f) (st', f1)"
    "is_complete st' = Inr True" "store_data st' f1 = c"
    and run: "\<And>result f3. finalize L st' (stream_manifest ?src) \<lparr>co_blake3_hex = blake3_hex L c\<rparr>
        out_dir (safe_name name) f1 = (result, f3) \<Longrightarrow>
      M (seal_val L (js_commit_ack L) (stream_key L key) StreamToSender 1 (commit_verdict result)) \<Longrightarrow>
      meets M (send_source L key ?src fs, recv_into L key out_dir accept f, [], [])
        (sender_verdict result, fs) (result, f3)"
    using stream_exchange [where accept = accept and src = ?src and key = key, OF ok refl _ fs acc res frames]
    by blast
  have k: "m_kind (stream_manifest ?src) = KFile" by (simp add: stream_manifest_def)
  obtain f3 where f3: "finalize L st' (stream_manifest ?src) \<lparr>co_blake3_hex = blake3_hex L c\<rparr> out_dir
      (safe_name name) f1 = (Inr (''saved '' @ path_text (out_dir @ [safe_name name])), f3)"
    "files f3 = delivered out_dir (safe_name name) c f"
    using finalize_delivers [OF x(1,2) refl x(3,4) dest k] by blast
  show ?thesis using run [OF f3(1)] f3(2) verdict by (auto simp: sender_verdict_def commit_verdict_def)
qed

lemma text_delivers:
  fixes L :: "'x store_lib_scheme"
  assumes ok: "aead_correct L" "json_correct L" and acc: "accept (stream_manifest (TextSource content tid))"
  shows "meets (\<lambda>_. True) (send_source L key (TextSource content tid) fs, recv_into L key out_dir accept f, [], [])
    (Inr ''text delivered'', fs) (Inr content, f)"
proof -
  have mf: "m_version (stream_manifest (TextSource content tid)) = PROTOCOL_VERSION"
    "m_kind (stream_manifest (TextSource content tid)) = KText"
    "m_text (stream_manifest (TextSource content tid)) = Some content"
    by (simp_all add: stream_manifest_def)
  show ?thesis
    unfolding send_source_def recv_into_def Let_def
    apply (rule ex_left_send, simp only: append_Nil)
    apply (rule ex_right_recv)
    apply (simp only: open_frames [OF ok] context_of_simps sum.case mf acc simp_thms if_True if_False)
    apply (rule ex_right_send, simp only: append_Nil)
    apply (rule ex_left_recv)
    by (simp_all add: open_frames [OF ok])
qed

lemma decline_stops:
  fixes L :: "'x store_lib_scheme"
  assumes ok: "aead_correct L" "json_correct L" and acc: "\<not> accept (stream_manifest src)"
  shows "meets (\<lambda>_. True) (send_source L key src fs, recv_into L key out_dir accept f, [], [])
    (Inl (Msg ''the receiver declined the transfer''), fs) (Inl (Msg ''transfer declined''), f)"
proof -
  have mf: "m_version (stream_manifest src) = PROTOCOL_VERSION"
    "m_chunk_size (stream_manifest src) = STREAM_FRAME_SIZE"
    by (simp_all add: stream_manifest_def split: source.split)
  show ?thesis
    unfolding send_source_def recv_into_def Let_def
    apply (rule ex_left_send, simp only: append_Nil)
    apply (rule ex_right_recv)
    apply (simp only: open_frames [OF ok] context_of_simps sum.case mf acc simp_thms if_True if_False)
    apply (rule ex_right_send, simp only: append_Nil)
    apply (rule ex_left_recv)
    by (simp_all add: open_frames [OF ok] refusal_def)
qed

section \<open>Whatever the peer sends\<close>

text \<open>Paths a receive into \<open>out_dir\<close> may change: the way down to it, and what is below it by plain names.\<close>

definition plain :: "string \<Rightarrow> bool" where
  "plain c \<longleftrightarrow> c \<noteq> [] \<and> c \<noteq> ''.'' \<and> c \<noteq> ''..'' \<and> CHR ''/'' \<notin> set c"

definition below :: "path \<Rightarrow> path \<Rightarrow> bool" where
  "below out_dir q \<longleftrightarrow> prefix q out_dir \<or> (\<exists>c rest. q = out_dir @ c # rest \<and> plain c)"

lemma plain_partial: "plain nm \<Longrightarrow> plain (nm @ ''.b2p-partial'')"
  by (cases nm) (auto simp: plain_def)

lemma below_out_dir:
  assumes "plain nm"
  shows "below out_dir (partial_dir out_dir nm @ rest)" "below out_dir (out_dir @ [nm])"
    "prefix q out_dir \<Longrightarrow> below out_dir q"
  using assms plain_partial [OF assms] by (auto simp: below_def partial_dir_def)

text \<open>\<^verbatim>\<open>tar::Archive::unpack\<close> writes below its destination only.\<close>

definition tar_confined :: "'x store_lib_scheme \<Rightarrow> bool" where
  "tar_confined L \<longleftrightarrow> (\<forall>c dest. io_keeps (below dest) (tar_unpack L c dest))"

lemma finalize_keeps:
  assumes "tar_confined L" and "plain nm" and "store_paths st" and "st_dir st = partial_dir out_dir nm"
  shows "io_keeps (below out_dir) (finalize L st m commit out_dir nm)"
proof -
  have P: "below out_dir (st_dir st @ rest)" for rest using below_out_dir [OF assms(2)] assms(4) by simp
  have d: "below out_dir (st_data_path st)" using P assms(3) by (simp add: store_paths_def)
  have tar: "io_keeps (below out_dir) (unpack_tar L (st_data_path st) out_dir)"
    unfolding unpack_tar_def
    by (intro keeps_intros) (use assms(1) in \<open>simp add: tar_confined_def\<close>)
  have body: "io_keeps (below out_dir) (bindIO (file_hash L st) (\<lambda>h.
            if h \<noteq> co_blake3_hex commit
            then io_err (Msg ''integrity check failed: hash mismatch'')
            else
              (case m_kind m of
                 KFile \<Rightarrow>
                   bindIO (finalize_file st (out_dir @ [nm])) (\<lambda>_.
                   io_ret (''saved '' @ path_text (out_dir @ [nm])))
               | KTar \<Rightarrow>
                   bindIO (unpack_tar L (st_data_path st) out_dir) (\<lambda>_.
                   bindIO (cleanup st) (\<lambda>_.
                   io_ret (''unpacked archive into '' @ path_text out_dir)))
               | KText \<Rightarrow> io_err (Panic ''text returned before staging''))))"
    by (auto intro!: keeps_intros tar P d below_out_dir(2) assms(2) split: kind.split)
  show ?thesis using body unfolding io_keeps_def finalize_def by (auto split: sum.split)
qed

lemma recv_frames_result:
  assumes "snd (play (recv_frames L sk have_set is st f k) ins) = Some (r, f')" and "store_paths st"
    and "\<And>rest. P (st_dir st @ rest)"
    and "\<And>st1 f1 ins1. snd (play (k st1 f1) ins1) = Some (r, f') \<Longrightarrow> store_paths st1 \<Longrightarrow>
      st_dir st1 = st_dir st \<Longrightarrow> \<not> P q \<Longrightarrow> files f' q = files f1 q"
    and "\<not> P q"
  shows "files f' q = files f q"
  using assms
proof (induction "is" arbitrary: st f ins)
  case Nil
  then show ?case by simp
next
  case (Cons i js)
  show ?case
  proof (cases "i \<in> have_set \<or> ins = []")
    case True
    then show ?thesis using Cons by (cases "i \<in> have_set") auto
  next
    case False
    then obtain x xs where ins: "ins = x # xs" and i: "i \<notin> have_set" by (cases ins) auto
    show ?thesis
    proof (cases x)
      case (Inl e)
      then show ?thesis using Cons.prems(1) i ins by simp
    next
      case (Inr ct)
      show ?thesis
      proof (cases "open_sealed L sk StreamToReceiver (1 + i) [] ct")
        case Inl
        then show ?thesis using Cons.prems(1) i ins Inr by simp
      next
        case X: (Inr plain_text)
        obtain r1 st1 f1 where w: "write_chunk L st i plain_text f = (r1, st1, f1)" by (metis prod.exhaust)
        have kept: "files f1 q = files f q"
          by (rule write_chunk_keeps [OF w Cons.prems(2,3,5)])
        have sp: "store_paths st1" "st_dir st1 = st_dir st"
          using write_chunk_paths [OF w] Cons.prems(2) by (simp_all add: store_paths_def)
        show ?thesis
        proof (cases r1)
          case Inl
          then show ?thesis using Cons.prems(1) i ins \<open>x = Inr ct\<close> X w kept by simp
        next
          case Y: (Inr u)
          have "snd (play (recv_frames L sk have_set js st1 f1 k) xs) = Some (r, f')"
            using Cons.prems(1) i ins \<open>x = Inr ct\<close> X w Y by simp
          then have "files f' q = files f1 q"
            using Cons.IH [of st1 f1 xs] Cons.prems(3-5) sp by simp
          then show ?thesis using kept by simp
        qed
      qed
    qed
  qed
qed

lemma recv_commit_result:
  assumes "snd (play (recv_commit L sk m tc out_dir nm st f) ins) = Some (r, f')"
    and "\<And>commit. io_keeps P (finalize L st m commit out_dir nm)" and "\<not> P q"
  shows "files f' q = files f q"
  using assms(1) io_keepsD [OF assms(2) _ assms(3)]
  by (cases ins) (auto simp: recv_commit_def recv_or_def split: sum.splits prod.splits)

text \<open>
  What a receive may change: if the set \<open>P\<close> of paths holds the way to the output directory and, for
  every manifest that is read and accepted, its staging directory and what finalizing it touches,
  nothing outside \<open>P\<close> changes.
\<close>

definition received_manifest ::
  "'x store_lib_scheme \<Rightarrow> session_key \<Rightarrow> bytes res list \<Rightarrow> manifest \<Rightarrow> bool" where
  "received_manifest L key ins m \<longleftrightarrow>
     (\<exists>ct rest. ins = Inr ct # rest \<and>
        open_val L (un_manifest L) (stream_key L key) StreamToReceiver 0 ct = Inr m)"

lemma recv_keeps:
  assumes run: "snd (play (recv_into L key out_dir accept f) ins) = Some (r, f')"
    and way: "\<And>q. prefix q out_dir \<Longrightarrow> P q"
    and stage: "\<And>m rest. received_manifest L key ins m \<Longrightarrow> accept m \<Longrightarrow> m_kind m \<noteq> KText \<Longrightarrow>
      P (partial_dir out_dir (safe_name (m_name m)) @ rest)"
    and fin: "\<And>m st commit. received_manifest L key ins m \<Longrightarrow> accept m \<Longrightarrow> m_kind m \<noteq> KText \<Longrightarrow>
      store_paths st \<Longrightarrow> st_dir st = partial_dir out_dir (safe_name (m_name m)) \<Longrightarrow>
      io_keeps P (finalize L st m commit out_dir (safe_name (m_name m)))"
    and q: "\<not> P q"
  shows "files f' q = files f q"
proof (cases "\<exists>ct rest m. ins = Inr ct # rest \<and>
    open_val L (un_manifest L) (stream_key L key) StreamToReceiver 0 ct = Inr m \<and>
    m_version m = PROTOCOL_VERSION \<and> \<not> (m_kind m \<noteq> KText \<and> m_chunk_size m \<noteq> STREAM_FRAME_SIZE) \<and>
    accept m \<and> m_kind m \<noteq> KText")
  case False
  show ?thesis
  proof (cases ins)
    case Nil
    then show ?thesis using run by (simp add: recv_into_def Let_def)
  next
    case (Cons x rest)
    then show ?thesis using run False
      by (cases x) (auto simp: recv_into_def Let_def split: sum.splits if_splits)
  qed
next
  case True
  then obtain ct rest m where ins: "ins = Inr ct # rest"
    and m: "open_val L (un_manifest L) (stream_key L key) StreamToReceiver 0 ct = Inr m"
    and c: "m_version m = PROTOCOL_VERSION" "m_chunk_size m = STREAM_FRAME_SIZE"
      "accept m" "m_kind m \<noteq> KText" by auto
  let ?nm = "safe_name (m_name m)"
  have rm: "received_manifest L key ins m" using ins m by (auto simp: received_manifest_def)
  obtain r1 f1 where oc: "open_or_create L out_dir ?nm (m_transfer_id m) (m_total_size m)
      (m_chunk_size m) f = (r1, f1)" by (metis prod.exhaust)
  have "io_keeps P (open_or_create L out_dir ?nm (m_transfer_id m) (m_total_size m) (m_chunk_size m))"
    by (rule open_or_create_keeps) (fact way, rule stage [OF rm c(3,4)])
  then have kept: "files f1 q = files f q" using oc q by (rule io_keepsD)
  show ?thesis
  proof (cases r1)
    case (Inl e)
    then show ?thesis using run ins m c oc kept by (simp add: recv_into_def Let_def io_or_def)
  next
    case (Inr st)
    have sp: "store_paths st" "st_dir st = partial_dir out_dir ?nm"
      using opened_paths oc Inr by blast+
    have all: "P (st_dir st @ xs)" for xs using stage [OF rm c(3,4)] sp by simp
    have "files f' q = files f1 q"
    proof (cases "is_complete st")
      case Inl
      then show ?thesis using run ins m c oc Inr by (simp add: recv_into_def Let_def io_or_def)
    next
      case X: (Inr complete)
      show ?thesis
      proof (cases "manifest_total_chunks m")
        case Inl
        then show ?thesis using run ins m c oc Inr X by (simp add: recv_into_def Let_def io_or_def)
      next
        case Y: (Inr tc)
        have "snd (play (recv_frames L (stream_key L key) (set (store_have st)) (index_range tc) st f1
            (recv_commit L (stream_key L key) m tc out_dir ?nm)) rest) = Some (r, f')"
          using run ins m c oc Inr X Y by (simp add: recv_into_def Let_def io_or_def)
        then show ?thesis
          by (rule recv_frames_result [OF _ sp(1) all _ q])
            (rule recv_commit_result [where P = P], assumption, rule fin [OF rm c(3,4)], use sp in auto)
      qed
    qed
    then show ?thesis using kept by simp
  qed
qed

lemma recv_confined:
  assumes run: "snd (play (recv_into L key out_dir accept f) ins) = Some (r, f')"
    and tar: "tar_confined L" and q: "\<not> below out_dir q"
  shows "files f' q = files f q"
proof (rule recv_keeps [where P = "below out_dir", OF run])
  fix m :: manifest
  have pl: "plain (safe_name (m_name m))" using safe_name_component by (simp add: plain_def)
  show "below out_dir (partial_dir out_dir (safe_name (m_name m)) @ rest)" for rest
    by (rule below_out_dir [OF pl])
  show "io_keeps (below out_dir) (finalize L st m commit out_dir (safe_name (m_name m)))"
    if "store_paths st" "st_dir st = partial_dir out_dir (safe_name (m_name m))" for st commit
    by (rule finalize_keeps [OF tar pl that])
qed (use q in \<open>simp_all add: below_def\<close>)

text \<open>A single file that is not accepted over an existing one leaves that file alone.\<close>

lemma finalize_keeps_other:
  assumes "m_kind m \<noteq> KTar" and "store_paths st" and "\<And>rest. P (st_dir st @ rest)"
    and "m_kind m = KFile \<Longrightarrow> P (out_dir @ [nm])"
  shows "io_keeps P (finalize L st m commit out_dir nm)"
proof -
  have d: "P (st_data_path st)" using assms(2,3) by (simp add: store_paths_def)
  have body: "io_keeps P (bindIO (file_hash L st) (\<lambda>h.
            if h \<noteq> co_blake3_hex commit
            then io_err (Msg ''integrity check failed: hash mismatch'')
            else
              (case m_kind m of
                 KFile \<Rightarrow>
                   bindIO (finalize_file st (out_dir @ [nm])) (\<lambda>_.
                   io_ret (''saved '' @ path_text (out_dir @ [nm])))
               | KTar \<Rightarrow>
                   bindIO (unpack_tar L (st_data_path st) out_dir) (\<lambda>_.
                   bindIO (cleanup st) (\<lambda>_.
                   io_ret (''unpacked archive into '' @ path_text out_dir)))
               | KText \<Rightarrow> io_err (Panic ''text returned before staging''))))"
    using assms(1,4) by (auto intro!: keeps_intros d assms(3) split: kind.split)
  show ?thesis using body unfolding io_keeps_def finalize_def by (auto split: sum.split)
qed

lemma recv_keeps_file:
  assumes run: "snd (play (recv_into L key out_dir accept f) ins) = Some (r, f')"
    and kind: "\<And>m. received_manifest L key ins m \<Longrightarrow> m_kind m \<noteq> KTar"
    and refuse: "\<And>m. m_kind m = KFile \<Longrightarrow> safe_name (m_name m) = n \<Longrightarrow> \<not> accept m"
    and nm: "\<not> suffix ''.b2p-partial'' n"
  shows "files f' (out_dir @ [n]) = files f (out_dir @ [n])"
proof (rule recv_keeps [where P = "\<lambda>p. p \<noteq> out_dir @ [n]", OF run])
  show "q \<noteq> out_dir @ [n]" if "prefix q out_dir" for q using that by (auto dest: prefix_length_le)
  have stage: "partial_dir out_dir nm @ rest \<noteq> out_dir @ [n]" for nm rest
    using nm by (auto simp: partial_dir_def suffix_def)
  show "partial_dir out_dir (safe_name (m_name m)) @ rest \<noteq> out_dir @ [n]" for m rest by (rule stage)
  show "io_keeps (\<lambda>p. p \<noteq> out_dir @ [n]) (finalize L st m commit out_dir (safe_name (m_name m)))"
    if "received_manifest L key ins m" "accept m" "store_paths st"
      "st_dir st = partial_dir out_dir (safe_name (m_name m))" for m st commit
    by (rule finalize_keeps_other) (use that kind refuse stage in auto)
qed simp

section \<open>Nonces\<close>

text \<open>\<open>sealed_at L sk d is out\<close>: the messages \<open>out\<close> are sealed under \<open>sk\<close> and \<open>d\<close>, at the indices \<open>is\<close>.\<close>

definition sealed_at ::
  "'x crypto_lib_scheme \<Rightarrow> bytes \<Rightarrow> domain \<Rightarrow> u64 list \<Rightarrow> bytes list \<Rightarrow> bool" where
  "sealed_at L sk d is out = list_all2 (\<lambda>i m. \<exists>pt. m = seal L sk d i [] pt) is out"

lemma sealed_at_simps [simp]:
  "sealed_at L sk d [] []"
  "sealed_at L sk d (i # is) (seal L sk d i [] pt # out) \<longleftrightarrow> sealed_at L sk d is out"
  "sealed_at L sk d (i # is) (seal_val L to_vec sk d i v # out) \<longleftrightarrow> sealed_at L sk d is out"
  by (auto simp: sealed_at_def seal_val_def)

lemma send_frames_sealed:
  "\<exists>js out f'. subseq js is \<and> sealed_at L sk StreamToReceiver (map ((+) 1) js) out \<and>
     (fst (play (send_frames L sk p tot ack is f k) ins) = out \<or>
      fst (play (send_frames L sk p tot ack is f k) ins) = out @ fst (play (k f') ins))"
proof (induction "is" arbitrary: f)
  case Nil
  then show ?case by (intro exI [of _ "[]"] exI [of _ f]) simp
next
  case (Cons i js)
  show ?case
  proof (cases "sa_complete ack \<or> runs_contain (sa_have_runs ack) i")
    case True
    then have eq: "send_frames L sk p tot ack (i # js) f k = send_frames L sk p tot ack js f k" by simp
    show ?thesis using Cons [of f] unfolding eq by (blast intro: list_emb_Cons)
  next
    case False
    obtain r f1 where rd: "read_chunk p i STREAM_FRAME_SIZE tot f = (r, f1)" by (metis prod.exhaust)
    show ?thesis
    proof (cases r)
      case (Inl e)
      then show ?thesis using False rd by (intro exI [of _ "[]"]) (simp add: io_or_def)
    next
      case (Inr pt)
      obtain js' out f' where IH: "subseq js' js" "sealed_at L sk StreamToReceiver (map ((+) 1) js') out"
        "fst (play (send_frames L sk p tot ack js f1 k) ins) = out \<or>
         fst (play (send_frames L sk p tot ack js f1 k) ins) = out @ fst (play (k f') ins)"
        using Cons [of f1] by blast
      show ?thesis
        by (intro exI [of _ "i # js'"] exI [of _ "seal L sk StreamToReceiver (1 + i) [] pt # out"]
            exI [of _ f']) (use IH False rd Inr in \<open>auto simp: io_or_def\<close>)
    qed
  qed
qed

lemma index_plus_one:
  assumes "distinct js" and "\<forall>i \<in> set js. unat i < unat tc" and "unat tc + 1 < 2 ^ 64"
  shows "distinct (0 # map ((+) (1 :: u64)) js @ [1 + tc])"
proof -
  have u: "unat (1 + i) = unat i + 1" if "unat i \<le> unat tc" for i :: u64
    using that assms(3) unat_add_u64 [of 1 i] by simp
  have nz: "(1 :: u64) + i \<noteq> 0" if "unat i \<le> unat tc" for i
    using u [OF that] by (metis One_nat_def add_eq_0_iff_both_eq_0 nat.simps(3) unat_0)
  have "1 + i \<noteq> 1 + tc" if "i \<in> set js" for i using assms(2) that by auto
  then show ?thesis using assms(1,2) nz [of tc] nz by (auto simp: distinct_map inj_on_def)
qed

lemma distinct_subseq: "subseq xs ys \<Longrightarrow> distinct ys \<Longrightarrow> distinct xs"
proof (induction xs ys rule: list_emb.induct)
  case (list_emb_Cons2 x y xs ys)
  then show ?case using list_emb_set [of "(=)" xs ys] by auto
qed auto

lemma sealed_at_append:
  "sealed_at L sk d is out \<Longrightarrow> sealed_at L sk d js out' \<Longrightarrow> sealed_at L sk d (is @ js) (out @ out')"
  by (simp add: sealed_at_def list_all2_appendI)

lemma commit_frame_sealed:
  "\<exists>h. fst (play (io_or (stream_blake3_file L p) f (\<lambda>h f.
      send_or (\<lambda>e. (Inl e, f)) (seal_val L to_vec sk StreamToReceiver (1 + tc) \<lparr>co_blake3_hex = h\<rparr>) (
      recv_or (\<lambda>e. (Inl e, f)) (\<lambda>ct. case g ct of Inl e \<Rightarrow> Ret (Inl e, f)
        | Inr cack \<Rightarrow> if P cack then Ret (Inl (q cack), f) else Ret (Inr d, f))))) ins)
    \<in> {[], [seal_val L to_vec sk StreamToReceiver (1 + tc) \<lparr>co_blake3_hex = h\<rparr>]}"
proof -
  obtain r f1 where b: "stream_blake3_file L p f = (r, f1)" by (metis prod.exhaust)
  show ?thesis
    by (cases r; cases ins; cases "hd ins"; cases "g (projr (hd ins))") (auto simp: io_or_def b)
qed

lemma send_source_sealed:
  fixes L :: "'x proto_lib_scheme"
  shows "\<exists>is. distinct is \<and>
    sealed_at L (stream_key L key) StreamToReceiver is (fst (play (send_source L key src f) ins))"
proof -
  let ?sk = "stream_key L key" and ?m = "stream_manifest src"
  let ?first = "seal_val L (js_manifest L) ?sk StreamToReceiver 0 ?m"
  have one: "\<exists>is. distinct is \<and> sealed_at L ?sk StreamToReceiver is [?first]"
    by (rule exI [of _ "[0]"]) simp
  show ?thesis
  proof (cases "\<exists>ct rest ack k nm ents tot tid p sp. ins = Inr ct # rest \<and>
      open_val L (un_stream_ack L) ?sk StreamToSender 0 ct = Inr ack \<and> sa_accepted ack \<and>
      m_kind ?m \<noteq> KText \<and> src = Blob k nm ents tot tid p sp")
    case False
    have "fst (play (send_source L key src f) ins) = [?first]"
    proof (cases ins)
      case Nil
      then show ?thesis by (simp add: send_source_def Let_def)
    next
      case (Cons x rest)
      then show ?thesis using False
        by (cases x) (auto simp: send_source_def Let_def split: sum.split source.split)
    qed
    then show ?thesis using one by simp
  next
    case True
    then obtain ct rest ack k nm ents tot tid p sp where ins: "ins = Inr ct # rest"
      and ack: "open_val L (un_stream_ack L) ?sk StreamToSender 0 ct = Inr ack" "sa_accepted ack"
      and kd: "m_kind ?m \<noteq> KText" and src: "src = Blob k nm ents tot tid p sp" by blast
    obtain tc where tc: "manifest_total_chunks ?m = Inr tc" "unat tc = ceil_nat (unat tot) 16384"
      using div_ceil_nat [OF frame_size_nat(2), of tot]
      by (auto simp: manifest_total_chunks_def stream_manifest_def src)
    have "ceil_nat (unat tot) 16384 \<le> unat tot div 16384 + 1" by (simp add: ceil_nat_def)
    then have small: "unat tc + 1 < 2 ^ 64" using tc(2) unat_lt_u64 [of tot] by simp
    let ?K = "\<lambda>f. io_or (stream_blake3_file L p) f (\<lambda>h f.
        send_or (\<lambda>e. (Inl e, f)) (seal_val L (js_commit L) ?sk StreamToReceiver (1 + tc) \<lparr>co_blake3_hex = h\<rparr>) (
        recv_or (\<lambda>e. (Inl e, f)) (\<lambda>ct. case open_val L (un_commit_ack L) ?sk StreamToSender 1 ct of
          Inl e \<Rightarrow> Ret (Inl e, f)
        | Inr cack \<Rightarrow> if \<not> ca_ok cack
            then Ret (Inl (Msg (''receiver failed to finalize: '' @
                   (case ca_error cack of Some s \<Rightarrow> s | None \<Rightarrow> []))), f)
            else Ret (Inr ''transfer complete'', f))))"
    have out: "fst (play (send_source L key src f) ins) =
        ?first # fst (play (send_frames L ?sk p tot ack (index_range tc) f ?K) rest)"
      using ins ack kd tc(1) by (simp add: send_source_def Let_def src)
    obtain js out f' where js: "subseq js (index_range tc)"
      "sealed_at L ?sk StreamToReceiver (map ((+) 1) js) out"
      "fst (play (send_frames L ?sk p tot ack (index_range tc) f ?K) rest) = out \<or>
       fst (play (send_frames L ?sk p tot ack (index_range tc) f ?K) rest) = out @ fst (play (?K f') rest)"
      using send_frames_sealed [of "index_range tc" L ?sk p tot ack f ?K rest] by blast
    have d: "distinct (0 # map ((+) (1 :: u64)) js @ [1 + tc])"
    proof (rule index_plus_one [OF _ _ small])
      show "distinct js" using js(1) distinct_index_range distinct_subseq by blast
      show "\<forall>i \<in> set js. unat i < unat tc"
        using js(1) list_emb_set [of "(=)" js "index_range tc"] set_index_range [of tc] by auto
    qed
    have "\<exists>h. fst (play (?K f') rest) \<in>
        {[], [seal_val L (js_commit L) ?sk StreamToReceiver (1 + tc) \<lparr>co_blake3_hex = h\<rparr>]}"
      by (rule commit_frame_sealed)
    then obtain h where h: "fst (play (?K f') rest) \<in>
        {[], [seal_val L (js_commit L) ?sk StreamToReceiver (1 + tc) \<lparr>co_blake3_hex = h\<rparr>]}" ..
    have last: "sealed_at L ?sk StreamToReceiver [1 + tc]
        [seal_val L (js_commit L) ?sk StreamToReceiver (1 + tc) \<lparr>co_blake3_hex = h\<rparr>]" by simp
    have base: "sealed_at L ?sk StreamToReceiver (0 # map ((+) 1) js) (?first # out)" using js(2) by simp
    note full = sealed_at_append [OF base last]
    let ?X = "fst (play (send_frames L ?sk p tot ack (index_range tc) f ?K) rest)"
    consider "?X = out" | "?X = out @ [seal_val L (js_commit L) ?sk StreamToReceiver (1 + tc) \<lparr>co_blake3_hex = h\<rparr>]"
      using js(3) h by (elim disjE insertE emptyE) simp_all
    then show ?thesis
    proof cases
      case 1
      show ?thesis unfolding out 1 using base d by (intro exI [of _ "0 # map ((+) 1) js"]) simp
    next
      case 2
      show ?thesis unfolding out 2 using full d by (intro exI [of _ "0 # map ((+) 1) js @ [1 + tc]"]) simp
    qed
  qed
qed

lemma recv_frames_silent:
  "fst (play (recv_frames L sk have_set is st f k) ins) = [] \<or>
   (\<exists>st' f' ins'. fst (play (recv_frames L sk have_set is st f k) ins) = fst (play (k st' f') ins'))"
proof (induction "is" arbitrary: st f ins)
  case Nil
  then show ?case by auto
next
  case (Cons i js)
  show ?case
  proof (cases "i \<in> have_set")
    case True
    then show ?thesis using Cons by simp
  next
    case False
    then show ?thesis using Cons
      by (cases ins; cases "hd ins") (auto split: sum.split prod.split)
  qed
qed

lemma recv_commit_out:
  "\<exists>ack. fst (play (recv_commit L sk m tc out_dir nm st f) ins) \<in>
    {[], [seal_val L (js_commit_ack L) sk StreamToSender 1 ack]}"
  by (cases ins; cases "hd ins")
    (auto simp: recv_commit_def split: sum.split prod.split)

lemma recv_into_out:
  fixes L :: "'x store_lib_scheme" and key :: session_key
  defines "sk \<equiv> stream_key L key"
  shows "\<exists>a b. fst (play (recv_into L key out_dir accept f) ins) \<in>
    {[], [seal_val L (js_stream_ack L) sk StreamToSender 0 a],
     [seal_val L (js_stream_ack L) sk StreamToSender 0 a,
      seal_val L (js_commit_ack L) sk StreamToSender 1 b]}"
proof -
  have frames: "\<exists>b. fst (play (recv_frames L sk have_set is st f1 (recv_commit L sk m tc out_dir nm)) rest) \<in>
      {[], [seal_val L (js_commit_ack L) sk StreamToSender 1 b]}" for have_set "is" st f1 m tc nm rest
    using recv_frames_silent [of L sk have_set "is" st f1 "recv_commit L sk m tc out_dir nm" rest]
  proof (elim disjE exE)
    fix st' f' ins'
    assume eq: "fst (play (recv_frames L sk have_set is st f1 (recv_commit L sk m tc out_dir nm)) rest) =
      fst (play (recv_commit L sk m tc out_dir nm st' f') ins')"
    show ?thesis unfolding eq by (rule recv_commit_out)
  qed simp
  show ?thesis
  proof (cases ins)
    case Nil
    then show ?thesis by (simp add: recv_into_def Let_def)
  next
    case (Cons x rest)
    then show ?thesis
    proof (cases x)
      case (Inl e)
      then show ?thesis using Cons by (simp add: recv_into_def Let_def)
    next
      case (Inr ct)
      then show ?thesis using Cons
        by (auto simp: recv_into_def Let_def io_or_def sk_def split: sum.split prod.split)
          (use frames [unfolded sk_def] in blast)
    qed
  qed
qed

lemma recv_into_sealed:
  fixes L :: "'x store_lib_scheme"
  shows "\<exists>is. distinct is \<and>
    sealed_at L (stream_key L key) StreamToSender is (fst (play (recv_into L key out_dir accept f) ins))"
proof -
  have 1: "\<exists>is. distinct is \<and> sealed_at L sk d is []" for sk d by (rule exI [of _ "[]"]) simp
  have 2: "\<exists>is. distinct is \<and> sealed_at L sk d is [seal_val L tv sk d 0 v]" for sk d and tv :: "'v \<Rightarrow> bytes" and v
    by (rule exI [of _ "[0]"]) simp
  have 3: "\<exists>is. distinct is \<and> sealed_at L sk d is [seal_val L tv sk d 0 v, seal_val L tw sk d 1 w]"
    for sk d and tv :: "'v \<Rightarrow> bytes" and v and tw :: "'w \<Rightarrow> bytes" and w
    by (rule exI [of _ "[0, 1]"]) simp
  show ?thesis using recv_into_out [of L key out_dir accept f ins] 1 2 3 by auto
qed

end
