(* ===== verification/B2P_Session.thy ===== *)
theory B2P_Session
  imports B2P_Stream B2P_Relay
begin

text \<open>
  One transfer from end to end (src/src/session.rs): connect, agree on a key, move the payload.
  The result of \<^verbatim>\<open>relay::connect\<close> (or of the WebRTC \<^verbatim>\<open>connect\<close>) is the argument \<open>conn\<close>; after it the
  peers talk over a message channel. The errors carry the markers the command line acts on. A process
  that returns has closed its channel: \<^verbatim>\<open>close\<close> is \<open>relay_close\<close> in \<open>B2P_Relay\<close>, and that it loses
  nothing is shown in \<open>B2P_RelayNet\<close>.
\<close>

definition establish_unless_rearmed :: "err \<Rightarrow> err" where
  "establish_unless_rearmed e =
     (if is_TransportLost e \<or> is_CodeMismatch e then e else EstablishError e)"

text \<open>The bounded wait for the peer to close: its outcome is ignored.\<close>

definition linger :: "outcome \<Rightarrow> outcome proc" where
  "linger r = Recv (\<lambda>_. Ret r)"

definition receive_relay ::
  "'x store_lib_scheme \<Rightarrow> spake_lib \<Rightarrow> bytes \<Rightarrow> nat \<Rightarrow> unit res \<Rightarrow> string \<Rightarrow> bytes \<Rightarrow> path \<Rightarrow>
   (manifest \<Rightarrow> bool) \<Rightarrow> fs \<Rightarrow> outcome proc" where
  "receive_relay L S rnd budget conn topic secret out_dir accept f =
     (case conn of
        Inl e \<Rightarrow> Ret (Inl (if is_WaitClosed e then e else EstablishError e), f)
      | Inr _ \<Rightarrow>
          bindP (handshake_over_channel L S rnd budget topic secret Receiver) (\<lambda>r.
          case r of
            Inl e \<Rightarrow>
              if is_CodeMismatch e \<or> is_TransportLost e then Ret (Inl e, f)
              else Ret (Inl (TransportLost e), f)
          | Inr key \<Rightarrow>
              bindP (recv_into L key out_dir accept f) (\<lambda>(r, f).
              case r of
                Inl e \<Rightarrow> Ret (Inl e, f)
              | Inr desc \<Rightarrow> linger (Inr desc, f))))"

definition send_relay ::
  "'x proto_lib_scheme \<Rightarrow> spake_lib \<Rightarrow> bytes \<Rightarrow> nat \<Rightarrow> unit res \<Rightarrow> string \<Rightarrow> bytes \<Rightarrow> source \<Rightarrow>
   fs \<Rightarrow> outcome proc" where
  "send_relay L S rnd budget conn topic secret src f =
     (case conn of
        Inl e \<Rightarrow> Ret (Inl (EstablishError e), f)
      | Inr _ \<Rightarrow>
          bindP (handshake_over_channel L S rnd budget topic secret Sender) (\<lambda>r.
          case r of
            Inl e \<Rightarrow> Ret (Inl (establish_unless_rearmed e), f)
          | Inr key \<Rightarrow> send_source L key src f))"

text \<open>
  Over WebRTC the handshake ran on the rendezvous before the channel exists, so its result is an
  argument too.
\<close>

definition receive_p1 ::
  "'x store_lib_scheme \<Rightarrow> session_key res \<Rightarrow> unit res \<Rightarrow> path \<Rightarrow> (manifest \<Rightarrow> bool) \<Rightarrow> fs \<Rightarrow>
   outcome proc" where
  "receive_p1 L handshaken conn out_dir accept f =
     (case map_err EstablishError handshaken of
        Inl e \<Rightarrow> Ret (Inl e, f)
      | Inr key \<Rightarrow>
          (case map_err EstablishError conn of
             Inl e \<Rightarrow> Ret (Inl e, f)
           | Inr _ \<Rightarrow>
               bindP (recv_into L key out_dir accept f) (\<lambda>(r, f).
               case r of
                 Inl e \<Rightarrow> Ret (Inl e, f)
               | Inr desc \<Rightarrow> linger (Inr desc, f))))"

definition send_p1 ::
  "'x proto_lib_scheme \<Rightarrow> session_key res \<Rightarrow> unit res \<Rightarrow> source \<Rightarrow> fs \<Rightarrow> outcome proc" where
  "send_p1 L handshaken conn src f =
     (case map_err EstablishError handshaken of
        Inl e \<Rightarrow> Ret (Inl e, f)
      | Inr key \<Rightarrow>
          (case map_err EstablishError conn of
             Inl e \<Rightarrow> Ret (Inl e, f)
           | Inr _ \<Rightarrow> send_source L key src f))"

section \<open>Facts\<close>

lemma linger_closes: "said M e (Ret v, linger r, [], []) v r"
  unfolding linger_def by (rule ex_right_closed) simp_all

text \<open>The frames of a session that delivers: key exchange, confirmation, transfer and verdict.\<close>

definition transfer_frames :: "'x store_lib_scheme \<Rightarrow> session_key \<Rightarrow> source \<Rightarrow> store \<Rightarrow> bytes \<Rightarrow> bytes list" where
  "transfer_frames L key src st c =
     stream_frames L key src st c @
     [seal_val L (js_commit_ack L) (stream_key L key) StreamToSender 1 \<lparr>ca_ok = True, ca_error = None\<rparr>]"

definition session_frames ::
  "'x store_lib_scheme \<Rightarrow> spake_lib \<Rightarrow> bytes \<Rightarrow> bytes \<Rightarrow> string \<Rightarrow> bytes \<Rightarrow> source \<Rightarrow> store \<Rightarrow> bytes \<Rightarrow>
   bytes list" where
  "session_frames L S rs rr topic secret src st c =
     (case pake_finish S (fst (pake_start S rs secret topic)) (snd (pake_start S rr secret topic)) of
        Inl _ \<Rightarrow> []
      | Inr key \<Rightarrow>
          handshake_frames L S rs topic secret Sender key @
          handshake_frames L S rr topic secret Receiver key @
          transfer_frames L key src st c)"

lemma transfer_said:
  fixes L :: "'x store_lib_scheme"
  assumes ok: "aead_correct L" "json_correct L"
    and fs: "io_fault fs = None" "files fs p = Some (File c)"
    and acc: "accept (stream_manifest (Blob KFile name ents tot tid p spool))"
    and res: "resumable L out_dir (safe_name name) tid tot STREAM_FRAME_SIZE c f"
    and dest: "files f (out_dir @ [safe_name name]) \<noteq> Some Dir"
    and frames: "list_all M (transfer_frames L key (Blob KFile name ents tot tid p spool)
      (opened_store L out_dir (safe_name name) tid tot STREAM_FRAME_SIZE f) c)"
  shows "\<exists>f'. said M e (send_source L key (Blob KFile name ents tot tid p spool) fs,
       bindP (recv_into L key out_dir accept f) (\<lambda>(r, f). case r of Inl e \<Rightarrow> Ret (Inl e, f)
         | Inr desc \<Rightarrow> linger (Inr desc, f)), [], [])
      (Inr ''transfer complete'', fs) (Inr (''saved '' @ path_text (out_dir @ [safe_name name])), f') \<and>
    files f' = delivered out_dir (safe_name name) c f"
proof -
  let ?src = "Blob KFile name ents tot tid p spool"
  have fr: "list_all M (stream_frames L key ?src (opened_store L out_dir (safe_name name) tid tot STREAM_FRAME_SIZE f) c)"
    "M (seal_val L (js_commit_ack L) (stream_key L key) StreamToSender 1 \<lparr>ca_ok = True, ca_error = None\<rparr>)"
    using frames by (simp_all add: transfer_frames_def)
  obtain f' where run: "meets M (send_source L key ?src fs, recv_into L key out_dir accept f, [], [])
      (Inr ''transfer complete'', fs) (Inr (''saved '' @ path_text (out_dir @ [safe_name name])), f')"
    and f': "files f' = delivered out_dir (safe_name name) c f"
    using stream_delivers [where accept = accept and key = key, OF ok fs acc res dest fr] by blast
  have "said M e (bindP (send_source L key ?src fs) Ret,
      bindP (recv_into L key out_dir accept f) (\<lambda>(r, f). case r of Inl e \<Rightarrow> Ret (Inl e, f)
        | Inr desc \<Rightarrow> linger (Inr desc, f)), [], [])
      (Inr ''transfer complete'', fs) (Inr (''saved '' @ path_text (out_dir @ [safe_name name])), f')"
    by (rule meets_bind_said [OF run]) (simp add: linger_closes)
  then show ?thesis using f' by (auto simp: bindP_Ret)
qed

lemma session_delivers:
  fixes L :: "'x store_lib_scheme"
  assumes ok: "aead_correct L" "json_correct L" and sp: "spake_correct S"
    and fs: "io_fault fs = None" "files fs p = Some (File c)"
    and acc: "accept (stream_manifest (Blob KFile name ents tot tid p spool))"
    and res: "resumable L out_dir (safe_name name) tid tot STREAM_FRAME_SIZE c f"
    and dest: "files f (out_dir @ [safe_name name]) \<noteq> Some Dir"
    and frames: "list_all M (session_frames L S rs rr topic secret (Blob KFile name ents tot tid p spool)
      (opened_store L out_dir (safe_name name) tid tot STREAM_FRAME_SIZE f) c)"
  shows "\<exists>f'. said M e
      (send_relay L S rs (Suc (Suc m)) (Inr ()) topic secret (Blob KFile name ents tot tid p spool) fs,
       receive_relay L S rr (Suc (Suc n)) (Inr ()) topic secret out_dir accept f, [], [])
      (Inr ''transfer complete'', fs)
      (Inr (''saved '' @ path_text (out_dir @ [safe_name name])), f') \<and>
    files f' = delivered out_dir (safe_name name) c f"
proof -
  let ?src = "Blob KFile name ents tot tid p spool"
  obtain k where fin: "pake_finish S (fst (pake_start S rs secret topic)) (snd (pake_start S rr secret topic)) = Inr k"
    "pake_finish S (fst (pake_start S rr secret topic)) (snd (pake_start S rs secret topic)) = Inr k"
    using spake_agree [OF sp, of rs secret topic rr] by blast
  have fr: "list_all M (handshake_frames L S rs topic secret Sender k)"
    "list_all M (handshake_frames L S rr topic secret (other Sender) k)"
    "list_all M (transfer_frames L k ?src (opened_store L out_dir (safe_name name) tid tot STREAM_FRAME_SIZE f) c)"
    using frames by (simp_all add: session_frames_def fin(1))
  have hs: "meets M (handshake_over_channel L S rs (Suc (Suc m)) topic secret Sender,
      handshake_over_channel L S rr (Suc (Suc n)) topic secret Receiver, [], []) (Inr k) (Inr k)"
    using handshake_pair [OF fin fr(1,2), of m n] by simp
  obtain f' where tail: "said M e (send_source L k ?src fs,
      bindP (recv_into L k out_dir accept f) (\<lambda>(r, f). case r of Inl e \<Rightarrow> Ret (Inl e, f)
        | Inr desc \<Rightarrow> linger (Inr desc, f)), [], [])
      (Inr ''transfer complete'', fs) (Inr (''saved '' @ path_text (out_dir @ [safe_name name])), f')"
    and f': "files f' = delivered out_dir (safe_name name) c f"
    using transfer_said [where accept = accept, OF ok fs acc res dest fr(3), of e] by blast
  have "said M e
      (send_relay L S rs (Suc (Suc m)) (Inr ()) topic secret ?src fs,
       receive_relay L S rr (Suc (Suc n)) (Inr ()) topic secret out_dir accept f, [], [])
      (Inr ''transfer complete'', fs)
      (Inr (''saved '' @ path_text (out_dir @ [safe_name name])), f')"
    unfolding send_relay_def receive_relay_def sum.case
    by (rule meets_bind_said [OF hs]) (use tail in simp)
  then show ?thesis using f' by blast
qed

lemma direct_delivers:
  fixes L :: "'x store_lib_scheme"
  assumes ok: "aead_correct L" "json_correct L"
    and fs: "io_fault fs = None" "files fs p = Some (File c)"
    and acc: "accept (stream_manifest (Blob KFile name ents tot tid p spool))"
    and res: "resumable L out_dir (safe_name name) tid tot STREAM_FRAME_SIZE c f"
    and dest: "files f (out_dir @ [safe_name name]) \<noteq> Some Dir"
  shows "\<exists>f'. said (\<lambda>_. True) e
      (send_p1 L (Inr key) (Inr ()) (Blob KFile name ents tot tid p spool) fs,
       receive_p1 L (Inr key) (Inr ()) out_dir accept f, [], [])
      (Inr ''transfer complete'', fs)
      (Inr (''saved '' @ path_text (out_dir @ [safe_name name])), f') \<and>
    files f' = delivered out_dir (safe_name name) c f"
  using transfer_said [where accept = accept and key = key and M = "\<lambda>_. True", OF ok fs acc res dest, of e]
  by (simp add: send_p1_def receive_p1_def list_all_iff)

text \<open>
  Different codes: whatever keys the two sides derive, if their confirmations differ both sides report the
  mismatch marker, and neither opens the transfer.
\<close>

lemma session_mismatch:
  fixes L :: "'x store_lib_scheme"
  assumes ne: "confirmations_differ L k1 k2"
    and fin: "pake_finish S (fst (pake_start S rs sec_s topic)) (snd (pake_start S rr sec_r topic)) = Inr k1"
      "pake_finish S (fst (pake_start S rr sec_r topic)) (snd (pake_start S rs sec_s topic)) = Inr k2"
  shows "said (\<lambda>_. True) e
      (send_relay L S rs (Suc (Suc m)) (Inr ()) topic sec_s src fs,
       receive_relay L S rr (Suc (Suc n)) (Inr ()) topic sec_r out_dir accept f, [], [])
      (Inl CodeMismatch, fs) (Inl CodeMismatch, f)"
proof -
  have v: "verdict L Sender k1 k2 = Inl CodeMismatch" "verdict L Receiver k2 k1 = Inl CodeMismatch"
    using verdict_differ [OF ne] by auto
  have hs: "meets (\<lambda>_. True) (handshake_over_channel L S rs (Suc (Suc m)) topic sec_s Sender,
      handshake_over_channel L S rr (Suc (Suc n)) topic sec_r Receiver, [], [])
      (Inl CodeMismatch) (Inl CodeMismatch)"
    using handshake_pair [OF fin, of "\<lambda>_. True" L Sender m n] v by (simp add: list_all_iff)
  show ?thesis
    unfolding send_relay_def receive_relay_def sum.case
    by (rule meets_bind_said [OF hs]) (simp add: establish_unless_rearmed_def)
qed

text \<open>
  Which failures the receiver may keep waiting after: an error of \<open>receive_relay\<close> before the
  transfer starts is never an establishment error once the peer has joined.
\<close>

definition rearmable :: "err \<Rightarrow> bool" where
  "rearmable e \<longleftrightarrow> is_TransportLost e \<or> is_CodeMismatch e \<or> is_WaitClosed e"

lemma handshake_failure_rearmable:
  assumes "snd (play (handshake_over_channel L S rnd budget topic secret Receiver) ins) = Some (Inl e)"
    and "snd (play (receive_relay L S rnd budget (Inr ()) topic secret out_dir accept f) ins) = Some (Inl e', f')"
  shows "rearmable e'"
proof -
  let ?g = "\<lambda>r. case r of
            Inl e \<Rightarrow>
              if is_CodeMismatch e \<or> is_TransportLost e then Ret (Inl e, f)
              else Ret (Inl (TransportLost e), f)
          | Inr key \<Rightarrow>
              bindP (recv_into L key out_dir accept f) (\<lambda>(r, f).
              case r of
                Inl e \<Rightarrow> Ret (Inl e, f)
              | Inr desc \<Rightarrow> linger (Inr desc, f))"
  obtain rest where "snd (play (bindP (handshake_over_channel L S rnd budget topic secret Receiver) ?g) ins) =
      snd (play (?g (Inl e)) rest)"
    using play_bind [OF assms(1), of ?g] by auto
  then show ?thesis using assms(2) by (auto simp: receive_relay_def rearmable_def split: if_splits)
qed

lemma connect_failure_marker:
  "snd (play (receive_relay L S rnd budget (Inl e) topic secret out_dir accept f) ins) =
   Some (Inl (if is_WaitClosed e then e else EstablishError e), f)"
  by (simp add: receive_relay_def)

text \<open>
  A frame of another session in the middle of a transfer, such as the key exchange of a sender that
  took over its own stale connection, ends the transfer with an error that is not one of these.
\<close>

lemma foreign_frame_ends_receive:
  assumes "i \<notin> have_set" and "open_sealed L sk StreamToReceiver (1 + i) [] frame = Inl e"
  shows "\<exists>e'. play (recv_frames L sk have_set (i # is) st f k) (Inr frame # ins) = ([], Some (Inl e', f)) \<and>
    \<not> rearmable e'"
  using assms by (simp add: rearmable_def)

end
