(* ===== verification/B2P_Server.thy ===== *)
theory B2P_Server
  imports B2P_Stream
begin

text \<open>
  The receiver's HTTP server of the tunnel transport (src/src/server.rs): authentication with a
  failure limit, and the four handlers over one active transfer. A request is a value; \<open>serve\<close>
  gives the response and the next state. The user's answer to a prompt is the function \<open>ask\<close>
  (\<open>None\<close> when nobody listens any more). A handler that panics closes the connection: \<open>Inl\<close>.
\<close>

definition MAX_AUTH_FAILURES :: u32 where
  "MAX_AUTH_FAILURES = 10"

record server_cfg =
  sc_secret :: secret
  sc_out_dir :: path
  sc_auto_accept :: bool
  sc_overwrite :: bool

datatype event =
    EvAccepted string u64
  | EvProgress u64
  | EvText string
  | EvDone string
  | EvFailed string

record active_transfer =
  at_manifest :: manifest
  at_store :: store

text \<open>
  \<open>ap_shutdown\<close>: the cancellation token fired; \<open>ap_closing\<close>: a task fires it shortly.
\<close>

record app =
  ap_cfg :: server_cfg
  ap_key :: bytes
  ap_token_hash :: bytes
  ap_auth_failures :: u32
  ap_transfer :: "active_transfer option"
  ap_events :: "event list"
  ap_shutdown :: bool
  ap_closing :: bool
  ap_disk :: fs

definition server_start :: "'x crypto_lib_scheme \<Rightarrow> server_cfg \<Rightarrow> fs \<Rightarrow> app" where
  "server_start L cfg f =
     \<lparr>ap_cfg = cfg, ap_key = data_key L (sc_secret cfg),
      ap_token_hash = blake3_hash L (str_bytes (auth_token L (sc_secret cfg))),
      ap_auth_failures = 0, ap_transfer = None, ap_events = [], ap_shutdown = False,
      ap_closing = False, ap_disk = f\<rparr>"

record http_response =
  hr_status :: nat
  hr_body :: bytes

definition status :: "nat \<Rightarrow> http_response" where
  "status n = \<lparr>hr_status = n, hr_body = []\<rparr>"

definition json_response :: "bytes \<Rightarrow> http_response" where
  "json_response b = \<lparr>hr_status = 200, hr_body = b\<rparr>"

definition emit :: "event \<Rightarrow> app \<Rightarrow> app" where
  "emit e app = app\<lparr>ap_events := ap_events app @ [e]\<rparr>"

type_synonym handler = "http_response res \<times> app"

definition server_safe_name :: "string \<Rightarrow> string" where
  "server_safe_name nm = (case file_name nm of Some n \<Rightarrow> n | None \<Rightarrow> ''b2p-download'')"

fun join_lines :: "string list \<Rightarrow> string" where
  "join_lines [] = []"
| "join_lines [l] = l"
| "join_lines (l # ls) = l @ [CHR 10] @ join_lines ls"

definition manifest_summary :: "manifest \<Rightarrow> bool \<Rightarrow> string" where
  "manifest_summary m dest_exists =
     (case m_kind m of
        KText \<Rightarrow> ''Incoming text snippet''
      | _ \<Rightarrow>
          ''Incoming: '' @ show_nat (length (m_entries m)) @ '' file(s), '' @
          show_u64 (m_total_size m) @ '' bytes total'' @ [CHR 10] @
          join_lines (map (\<lambda>e. ''  '' @ e_path e @ '' ('' @ show_u64 (e_size e) @ '' bytes)'')
            (take 10 (m_entries m)))) @
     (if dest_exists \<and> m_kind m = KFile
      then [CHR 10] @ ''  WARNING: destination file exists and will be overwritten'' else [])"

definition handle_manifest ::
  "'x store_lib_scheme \<Rightarrow> (string \<Rightarrow> bool option) \<Rightarrow> app \<Rightarrow> bytes \<Rightarrow> handler" where
  "handle_manifest L ask app body =
     (case open_json L (un_manifest L) (ap_key app) DManifest [] body of
        Inl _ \<Rightarrow> (Inr (status 400), app)
      | Inr m \<Rightarrow>
          (let refusal = (Inr (json_response (js_manifest_ack L
                 \<lparr>ma_accepted = False, ma_complete = False, ma_have = []\<rparr>)), app) in
           if m_version m \<noteq> PROTOCOL_VERSION then refusal
           else
             let nm = server_safe_name (m_name m);
                 dest_exists = fs_exists (sc_out_dir (ap_cfg app) @ [nm]) (ap_disk app);
                 answer = (if sc_auto_accept (ap_cfg app)
                           then Some (\<not> (dest_exists \<and> m_kind m = KFile \<and> \<not> sc_overwrite (ap_cfg app)))
                           else ask (manifest_summary m dest_exists)) in
             (case answer of
                None \<Rightarrow> (Inr (status 503), app)
              | Some accepted \<Rightarrow>
                  if \<not> accepted then refusal
                  else if m_kind m = KText
                  then (Inr (json_response (js_manifest_ack L
                          \<lparr>ma_accepted = True, ma_complete = True, ma_have = []\<rparr>)),
                        (emit (EvDone ''text received'')
                          (emit (EvText (case m_text m of Some t \<Rightarrow> t | None \<Rightarrow> [])) app))
                          \<lparr>ap_closing := True\<rparr>)
                  else
                    (case open_or_create L (sc_out_dir (ap_cfg app)) nm (m_transfer_id m)
                            (m_total_size m) (m_chunk_size m) (ap_disk app) of
                       (Inl e, f) \<Rightarrow>
                         (Inr (status 500),
                          emit (EvFailed (''cannot open store: '' @ display_err e)) (app\<lparr>ap_disk := f\<rparr>))
                     | (Inr st, f) \<Rightarrow>
                         (Inr (json_response (js_manifest_ack L
                            \<lparr>ma_accepted = True, ma_complete = False, ma_have = store_have st\<rparr>)),
                          (emit (EvAccepted nm (m_total_size m)) app)
                            \<lparr>ap_disk := f,
                             ap_transfer := Some \<lparr>at_manifest = m, at_store = st\<rparr>\<rparr>)))))"

definition handle_chunk :: "'x store_lib_scheme \<Rightarrow> app \<Rightarrow> u64 \<Rightarrow> bytes \<Rightarrow> handler" where
  "handle_chunk L app index body =
     (case ap_transfer app of
        None \<Rightarrow> (Inr (status 409), app)
      | Some active \<Rightarrow>
          (case open_sealed L (ap_key app) DData index
                  (str_bytes (m_transfer_id (at_manifest active))) body of
             Inl _ \<Rightarrow> (Inr (status 400), app)
           | Inr plaintext \<Rightarrow>
               (case write_chunk L (at_store active) index plaintext (ap_disk app) of
                  (r, st, f) \<Rightarrow>
                    (let app = app\<lparr>ap_disk := f, ap_transfer := Some (active\<lparr>at_store := st\<rparr>)\<rparr> in
                     case r of
                       Inr _ \<Rightarrow>
                         (Inr (status 200), emit (EvProgress (of_nat (length plaintext))) app)
                     | Inl (Panic m) \<Rightarrow> (Inl (Panic m), app)
                     | Inl e \<Rightarrow>
                         (Inr \<lparr>hr_status = 400, hr_body = str_bytes (display_err e)\<rparr>, app)))))"

definition handle_status :: "'x proto_lib_scheme \<Rightarrow> app \<Rightarrow> handler" where
  "handle_status L app =
     (case ap_transfer app of
        Some active \<Rightarrow>
          (Inr (json_response (js_status L \<lparr>sr_have = store_have (at_store active)\<rparr>)), app)
      | None \<Rightarrow> (Inr (status 409), app))"

definition server_finalize ::
  "'x store_lib_scheme \<Rightarrow> app \<Rightarrow> active_transfer \<Rightarrow> commit \<Rightarrow> string io" where
  "server_finalize L app active commit f =
     (case is_complete (at_store active) of
        Inl e \<Rightarrow> (Inl e, f)
      | Inr complete \<Rightarrow>
          if \<not> complete
          then (bindR (store_total_chunks (at_store active)) (\<lambda>tc.
                  Inl (Msg (''transfer incomplete: '' @ show_nat (length (store_have (at_store active))) @
                            ''/'' @ show_u64 tc @ '' chunks''))), f)
          else bindIO (file_hash L (at_store active)) (\<lambda>actual.
            if actual \<noteq> co_blake3_hex commit
            then io_err (Msg ''integrity check failed: hash mismatch'')
            else
              let nm = server_safe_name (m_name (at_manifest active));
                  out_dir = sc_out_dir (ap_cfg app) in
              (case m_kind (at_manifest active) of
                 KFile \<Rightarrow>
                   bindIO (finalize_file (at_store active) (out_dir @ [nm])) (\<lambda>_.
                   io_ret (''saved '' @ path_text (out_dir @ [nm])))
               | KTar \<Rightarrow>
                   bindIO (unpack_tar L (st_data_path (at_store active)) out_dir) (\<lambda>_.
                   bindIO (cleanup (at_store active)) (\<lambda>_.
                   io_ret (''unpacked archive into '' @ path_text out_dir)))
               | KText \<Rightarrow> io_err (Panic ''text transfers complete at manifest time''))) f)"

definition handle_commit :: "'x store_lib_scheme \<Rightarrow> app \<Rightarrow> bytes \<Rightarrow> handler" where
  "handle_commit L app body =
     (case ap_transfer app of
        None \<Rightarrow> (Inr (status 409), app)
      | Some active \<Rightarrow>
          (case open_json L (un_commit L) (ap_key app) DCommit
                  (str_bytes (m_transfer_id (at_manifest active))) body of
             Inl _ \<Rightarrow> (Inr (status 400), app)
           | Inr commit \<Rightarrow>
               (case server_finalize L app active commit (ap_disk app) of
                  (r, f) \<Rightarrow>
                    (let app = app\<lparr>ap_transfer := None, ap_disk := f\<rparr> in
                     case r of
                       Inr desc \<Rightarrow>
                         (Inr (json_response (js_commit_ack L \<lparr>ca_ok = True, ca_error = None\<rparr>)),
                          (emit (EvDone desc) app)\<lparr>ap_closing := True\<rparr>)
                     | Inl (Panic m) \<Rightarrow> (Inl (Panic m), app)
                     | Inl e \<Rightarrow>
                         (Inr (json_response (js_commit_ack L
                            \<lparr>ca_ok = False, ca_error = Some (display_err e)\<rparr>)),
                          emit (EvFailed (display_err e)) app)))))"

section \<open>Routing and authentication\<close>

datatype route = RManifest bytes | RChunk u64 bytes | RStatus | RCommit bytes

record http_request =
  rq_auth :: "string option"
  rq_route :: route

definition body_limit :: nat where
  "body_limit = unat (CHUNK_SIZE + 4096)"

definition route_body :: "route \<Rightarrow> bytes" where
  "route_body r = (case r of RManifest b \<Rightarrow> b | RChunk _ b \<Rightarrow> b | RStatus \<Rightarrow> [] | RCommit b \<Rightarrow> b)"

definition run_route ::
  "'x store_lib_scheme \<Rightarrow> (string \<Rightarrow> bool option) \<Rightarrow> app \<Rightarrow> route \<Rightarrow> handler" where
  "run_route L ask app r =
     (if length (route_body r) > body_limit then (Inr (status 413), app)
      else
        (case r of
           RManifest b \<Rightarrow> handle_manifest L ask app b
         | RChunk i b \<Rightarrow> handle_chunk L app i b
         | RStatus \<Rightarrow> handle_status L app
         | RCommit b \<Rightarrow> handle_commit L app b))"

definition provided_token :: "http_request \<Rightarrow> string" where
  "provided_token req =
     (case rq_auth req of
        Some v \<Rightarrow> (case strip_pre ''Bearer '' v of Some t \<Rightarrow> t | None \<Rightarrow> [])
      | None \<Rightarrow> [])"

definition too_many_text :: string where
  "too_many_text = ''too many bad auth attempts '' @ em_dash @ '' shutting down''"

definition auth_mw ::
  "'x store_lib_scheme \<Rightarrow> (string \<Rightarrow> bool option) \<Rightarrow> app \<Rightarrow> http_request \<Rightarrow> handler" where
  "auth_mw L ask app req =
     (if blake3_hash L (str_bytes (provided_token req)) \<noteq> ap_token_hash app
      then
        (let fails = ap_auth_failures app + 1;
             app = app\<lparr>ap_auth_failures := fails\<rparr> in
         (Inr (status 401),
          if MAX_AUTH_FAILURES \<le> fails
          then (emit (EvFailed too_many_text) app)\<lparr>ap_shutdown := True\<rparr>
          else app))
      else run_route L ask app (rq_route req))"

text \<open>Once the token fired, connections are refused; \<open>sleep_over\<close> is the end of the closing delay.\<close>

definition connection_refused :: err where
  "connection_refused = Io ''connection refused''"

definition serve ::
  "'x store_lib_scheme \<Rightarrow> (string \<Rightarrow> bool option) \<Rightarrow> app \<Rightarrow> http_request \<Rightarrow> handler" where
  "serve L ask app req =
     (if ap_shutdown app then (Inl connection_refused, app) else auth_mw L ask app req)"

definition sleep_over :: "app \<Rightarrow> app" where
  "sleep_over app = (if ap_closing app then app\<lparr>ap_shutdown := True\<rparr> else app)"

section \<open>Authentication\<close>

lemma emit_sel [simp]:
  "ap_auth_failures (emit e app) = ap_auth_failures app" "ap_shutdown (emit e app) = ap_shutdown app"
  "ap_transfer (emit e app) = ap_transfer app" "ap_disk (emit e app) = ap_disk app"
  "ap_cfg (emit e app) = ap_cfg app" "ap_key (emit e app) = ap_key app"
  "ap_token_hash (emit e app) = ap_token_hash app" "ap_events (emit e app) = ap_events app @ [e]"
  by (simp_all add: emit_def)

lemma status_sel [simp]: "hr_status (status n) = n" "hr_status (json_response b) = 200"
  "hr_body (json_response b) = b"
  by (simp_all add: status_def json_response_def)

definition is_401 :: "http_response res \<Rightarrow> bool" where
  "is_401 r = (case r of Inr x \<Rightarrow> hr_status x = 401 | Inl _ \<Rightarrow> False)"

text \<open>What every handler leaves alone.\<close>

definition same_guard :: "app \<Rightarrow> app \<Rightarrow> bool" where
  "same_guard a b \<longleftrightarrow> ap_auth_failures a = ap_auth_failures b \<and> ap_shutdown a = ap_shutdown b \<and>
     ap_cfg a = ap_cfg b \<and> ap_key a = ap_key b \<and> ap_token_hash a = ap_token_hash b"

lemma handle_manifest_guard:
  "handle_manifest L ask app b = (r, app') \<Longrightarrow> \<not> is_401 r \<and> same_guard app app'"
  by (auto simp: handle_manifest_def is_401_def same_guard_def Let_def
      split: sum.splits if_splits option.splits prod.splits)

lemma handle_chunk_guard:
  "handle_chunk L app i b = (r, app') \<Longrightarrow> \<not> is_401 r \<and> same_guard app app'"
  by (auto simp: handle_chunk_def is_401_def same_guard_def Let_def
      split: sum.splits option.splits prod.splits err.splits)

lemma handle_status_guard:
  "handle_status L app = (r, app') \<Longrightarrow> \<not> is_401 r \<and> same_guard app app'"
  by (auto simp: handle_status_def is_401_def same_guard_def split: option.splits)

lemma handle_commit_guard:
  "handle_commit L app b = (r, app') \<Longrightarrow> \<not> is_401 r \<and> same_guard app app'"
  by (auto simp: handle_commit_def is_401_def same_guard_def Let_def
      split: sum.splits option.splits prod.splits err.splits)

lemma run_route_guard:
  "run_route L ask app rt = (r, app') \<Longrightarrow> \<not> is_401 r \<and> same_guard app app'"
  by (cases rt; cases "length (route_body rt) > body_limit")
    (simp_all add: run_route_def handle_manifest_guard handle_chunk_guard handle_status_guard
      handle_commit_guard, auto simp: is_401_def same_guard_def)

text \<open>A request without the token reaches no handler.\<close>

lemma unauthorized_inert:
  assumes "blake3_hash L (str_bytes (provided_token rq)) \<noteq> ap_token_hash app"
    and "serve L ask app rq = (r, app')"
  shows "ap_transfer app' = ap_transfer app \<and> ap_disk app' = ap_disk app \<and> \<not> (\<exists>x. r = Inr x \<and> hr_status x = 200)"
  using assms by (auto simp: serve_def auth_mw_def Let_def split: if_splits)

text \<open>Without the overwrite option nothing that exists is replaced unasked.\<close>

lemma no_clobber:
  assumes "open_json L (un_manifest L) (ap_key app) DManifest [] body = Inr m"
    and "sc_auto_accept (ap_cfg app)" and "\<not> sc_overwrite (ap_cfg app)" and "m_kind m = KFile"
    and "fs_exists (sc_out_dir (ap_cfg app) @ [server_safe_name (m_name m)]) (ap_disk app)"
  shows "handle_manifest L ask app body =
    (Inr (json_response (js_manifest_ack L \<lparr>ma_accepted = False, ma_complete = False, ma_have = []\<rparr>)), app)"
  using assms by (simp add: handle_manifest_def Let_def)

end
