(* ===== verification/B2P_Send.thy ===== *)
theory B2P_Send
  imports B2P_Server
begin

text \<open>
  The sender of the tunnel transport (src/src/send.rs). The HTTP client is a function \<open>net\<close> from
  a connection state and a request to a response, or a transport error, and the next state. Up to four
  uploads are under way at once (\<open>pool\<close>); how they take turns is a list of turns, and a send whose
  turns are used up before it is through is \<open>None\<close>. The pauses between attempts and the diagnosis
  printed on failure are not part of the result. Delivery is shown in \<open>B2P_Upload\<close>.
\<close>

type_synonym 's http_net = "'s \<Rightarrow> http_request \<Rightarrow> http_response res \<times> 's"

definition CHUNK_ATTEMPTS :: nat where
  "CHUNK_ATTEMPTS = 5"

definition build_manifest :: "source \<Rightarrow> manifest res" where
  "build_manifest src =
     Inr (case src of
        Blob k nm ents tot tid _ _ \<Rightarrow>
          \<lparr>m_version = PROTOCOL_VERSION, m_transfer_id = tid, m_kind = k, m_name = nm,
           m_entries = ents, m_total_size = tot, m_chunk_size = CHUNK_SIZE, m_text = None\<rparr>
      | TextSource content tid \<Rightarrow>
          \<lparr>m_version = PROTOCOL_VERSION, m_transfer_id = tid, m_kind = KText, m_name = [],
           m_entries = [], m_total_size = of_nat (length content), m_chunk_size = CHUNK_SIZE,
           m_text = Some content\<rparr>)"

datatype fail_layer = FDns | FTls | FConnect | FOther

definition classify_error_text :: "string \<Rightarrow> fail_layer" where
  "classify_error_text chain =
     (let t = to_ascii_lowercase chain in
      if contains_str ''dns error'' t \<or> contains_str ''failed to lookup address'' t \<or>
         contains_str ''name or service not known'' t \<or> contains_str ''nodename nor servname'' t \<or>
         contains_str ''no such host'' t
      then FDns
      else if contains_str ''certificate'' t \<or> contains_str ''unknownissuer'' t \<or>
         contains_str ''handshake'' t \<or> contains_str ''tls'' t
      then FTls
      else if contains_str ''connect'' t \<or> contains_str ''timed out'' t \<or>
         contains_str ''timeout'' t \<or> contains_str ''reset'' t \<or> contains_str ''refused'' t
      then FConnect
      else FOther)"

definition failure_summary :: "string \<Rightarrow> string \<Rightarrow> bool \<Rightarrow> string" where
  "failure_summary nm host ran_doctor =
     (if ran_doctor then nm @ '' failure reaching '' @ host @ '' '' @ em_dash @ '' see diagnostics above''
      else nm @ '' failure reaching '' @ host)"

text \<open>The chain text of the error is \<open>display_alt\<close>; the doctor runs unless the layer is unknown.\<close>

definition connect_failure :: "string \<Rightarrow> err \<Rightarrow> err" where
  "connect_failure host e =
     (let layer = classify_error_text (display_alt e);
          nm = (case layer of FDns \<Rightarrow> ''DNS'' | FTls \<Rightarrow> ''TLS'' | _ \<Rightarrow> ''transport'') in
      Msg (failure_summary nm host (layer \<noteq> FOther)))"

text \<open>
  The addresses the client is pinned to: those of the DoH answer, for a name that is neither an
  address nor localhost; otherwise system resolution.
\<close>

definition pinned_addrs ::
  "string option \<Rightarrow> (string \<Rightarrow> bool) \<Rightarrow> (string \<Rightarrow> 'ip list res) \<Rightarrow> nat \<Rightarrow> ('ip \<times> nat) list option" where
  "pinned_addrs host is_ip doh port =
     (case host of
        None \<Rightarrow> None
      | Some h \<Rightarrow>
          if \<not> is_ip h \<and> h \<noteq> ''localhost''
          then (case doh h of
                  Inr ips \<Rightarrow> if ips \<noteq> [] then Some (map (\<lambda>ip. (ip, port)) ips) else None
                | Inl _ \<Rightarrow> None)
          else None)"

definition http_ok :: "http_response \<Rightarrow> bool" where
  "http_ok r = (200 \<le> hr_status r \<and> hr_status r < 300)"

definition bearer :: "string \<Rightarrow> route \<Rightarrow> http_request" where
  "bearer token r = \<lparr>rq_auth = Some (''Bearer '' @ token), rq_route = r\<rparr>"

text \<open>What an attempt means for its upload, with \<open>left\<close> attempts after it.\<close>

datatype verdict_of_try = Uploaded | TryAgain | GiveUp err

definition judge_answer :: "u64 \<Rightarrow> nat \<Rightarrow> http_response res \<Rightarrow> verdict_of_try" where
  "judge_answer index left result =
     (case result of
        Inr r \<Rightarrow>
          if http_ok r then Uploaded
          else if hr_status r = 401 then GiveUp (Msg ''auth rejected (HTTP 401) mid-transfer'')
          else if left = 0
          then GiveUp (Msg (''chunk '' @ show_u64 index @ '': HTTP '' @ show_nat (hr_status r) @
                          '' after '' @ show_nat CHUNK_ATTEMPTS @ '' attempts''))
          else TryAgain
      | Inl e \<Rightarrow>
          if left = 0
          then GiveUp (Ctx (''chunk '' @ show_u64 index @ '' failed after '' @ show_nat CHUNK_ATTEMPTS @
                          '' attempts'') e)
          else TryAgain)"

fun upload_attempts ::
  "'s http_net \<Rightarrow> string \<Rightarrow> u64 \<Rightarrow> bytes \<Rightarrow> nat \<Rightarrow> 's \<Rightarrow> unit res \<times> 's" where
  "upload_attempts net token index body 0 s = (Inl (Panic ''unreachable''), s)"
| "upload_attempts net token index body (Suc left) s =
     (case net s (bearer token (RChunk index body)) of (result, s) \<Rightarrow>
        (case judge_answer index left result of
           Uploaded \<Rightarrow> (Inr (), s)
         | GiveUp e \<Rightarrow> (Inl e, s)
         | TryAgain \<Rightarrow> upload_attempts net token index body left s))"

definition upload_with_retry ::
  "'s http_net \<Rightarrow> string \<Rightarrow> u64 \<Rightarrow> bytes \<Rightarrow> 's \<Rightarrow> unit res \<times> 's" where
  "upload_with_retry net token index body s = upload_attempts net token index body CHUNK_ATTEMPTS s"

text \<open>
  The uploads under way: each is between attempts, or its request was answered and it has not
  looked at the answer. A failed upload ends all, whatever the others wait for.
\<close>

definition PARALLEL_UPLOADS :: nat where
  "PARALLEL_UPLOADS = 4"

record upload =
  up_index :: u64
  up_body :: bytes
  up_left :: nat
  up_answer :: "http_response res option"

record 's pool =
  po_todo :: "u64 list"
  po_live :: "upload list"
  po_disk :: fs
  po_net :: 's
  po_failed :: "err option"

datatype pool_turn = StartNext | Request nat | LookAt nat

definition pool_start ::
  "'x crypto_lib_scheme \<Rightarrow> bytes \<Rightarrow> string \<Rightarrow> path \<Rightarrow> u64 \<Rightarrow> 's pool \<Rightarrow> 's pool" where
  "pool_start L key tid p tot po =
     (case po_todo po of
        [] \<Rightarrow> po
      | i # is \<Rightarrow>
          if length (po_live po) < PARALLEL_UPLOADS
          then (case read_chunk p i CHUNK_SIZE tot (po_disk po) of
                  (Inl e, f) \<Rightarrow> po\<lparr>po_todo := is, po_disk := f, po_failed := Some e\<rparr>
                | (Inr chunk, f) \<Rightarrow>
                    po\<lparr>po_todo := is, po_disk := f,
                       po_live := po_live po @ [\<lparr>up_index = i, up_body = seal L key DData i (str_bytes tid) chunk,
                         up_left = CHUNK_ATTEMPTS, up_answer = None\<rparr>]\<rparr>)
          else po)"

definition pool_request :: "'s http_net \<Rightarrow> string \<Rightarrow> nat \<Rightarrow> 's pool \<Rightarrow> 's pool" where
  "pool_request net token j po =
     (if j < length (po_live po) \<and> up_answer (po_live po ! j) = None
      then (let u = po_live po ! j in
            case net (po_net po) (bearer token (RChunk (up_index u) (up_body u))) of (result, s) \<Rightarrow>
              po\<lparr>po_net := s, po_live := (po_live po)[j := u\<lparr>up_answer := Some result\<rparr>]\<rparr>)
      else po)"

definition pool_look :: "nat \<Rightarrow> 's pool \<Rightarrow> 's pool" where
  "pool_look j po =
     (if j < length (po_live po)
      then (let u = po_live po ! j in
            case up_answer u of
              None \<Rightarrow> po
            | Some result \<Rightarrow>
                (case judge_answer (up_index u) (up_left u - 1) result of
                   Uploaded \<Rightarrow> po\<lparr>po_live := take j (po_live po) @ drop (Suc j) (po_live po)\<rparr>
                 | GiveUp e \<Rightarrow> po\<lparr>po_failed := Some e\<rparr>
                 | TryAgain \<Rightarrow>
                     po\<lparr>po_live := (po_live po)[j := u\<lparr>up_left := up_left u - 1, up_answer := None\<rparr>]\<rparr>))
      else po)"

definition pool_result :: "'s pool \<Rightarrow> unit res option" where
  "pool_result po =
     (case po_failed po of
        Some e \<Rightarrow> Some (Inl e)
      | None \<Rightarrow> if po_todo po = [] \<and> po_live po = [] then Some (Inr ()) else None)"

definition pool_take ::
  "'x crypto_lib_scheme \<Rightarrow> 's http_net \<Rightarrow> bytes \<Rightarrow> string \<Rightarrow> string \<Rightarrow> path \<Rightarrow> u64 \<Rightarrow> pool_turn \<Rightarrow>
   's pool \<Rightarrow> 's pool" where
  "pool_take L net key token tid p tot turn po =
     (if pool_result po \<noteq> None then po
      else (case turn of
              StartNext \<Rightarrow> pool_start L key tid p tot po
            | Request j \<Rightarrow> pool_request net token j po
            | LookAt j \<Rightarrow> pool_look j po))"

abbreviation pool_run ::
  "'x crypto_lib_scheme \<Rightarrow> 's http_net \<Rightarrow> bytes \<Rightarrow> string \<Rightarrow> string \<Rightarrow> path \<Rightarrow> u64 \<Rightarrow> pool_turn list \<Rightarrow>
   's pool \<Rightarrow> 's pool" where
  "pool_run L net key token tid p tot turns \<equiv> fold (pool_take L net key token tid p tot) turns"

definition upload_all ::
  "'x crypto_lib_scheme \<Rightarrow> 's http_net \<Rightarrow> bytes \<Rightarrow> string \<Rightarrow> string \<Rightarrow> path \<Rightarrow> u64 \<Rightarrow> pool_turn list \<Rightarrow>
   u64 list \<Rightarrow> fs \<Rightarrow> 's \<Rightarrow> (unit res \<times> fs \<times> 's) option" where
  "upload_all L net key token tid p tot turns missing f s =
     (let po = pool_run L net key token tid p tot turns
                 \<lparr>po_todo = missing, po_live = [], po_disk = f, po_net = s, po_failed = None\<rparr> in
      map_option (\<lambda>r. (r, po_disk po, po_net po)) (pool_result po))"

definition upload_failed_text :: string where
  "upload_failed_text = ''upload failed after retries '' @ em_dash @
     '' re-run the same command to resume, or run `b2p doctor` if it keeps failing''"

definition tunnel_send ::
  "'x proto_lib_scheme \<Rightarrow> 's http_net \<Rightarrow> pool_turn list \<Rightarrow> unit res \<Rightarrow> string \<Rightarrow> secret \<Rightarrow>
   source \<Rightarrow> fs \<Rightarrow> 's \<Rightarrow> (string res \<times> fs \<times> 's) option" where
  "tunnel_send L net turns client host secret src f s =
     (let key = data_key L secret; token = auth_token L secret in
      case bindR client (\<lambda>_. build_manifest src) of
        Inl e \<Rightarrow> Some (Inl e, f, s)
      | Inr m \<Rightarrow>
      (case net s (bearer token (RManifest (seal_json L (js_manifest L) key DManifest [] m))) of
         (Inl e, s) \<Rightarrow> Some (Inl (connect_failure host e), f, s)
       | (Inr resp, s) \<Rightarrow>
           if hr_status resp = 401
           then Some (Inl (Msg (''auth rejected (HTTP 401) '' @ em_dash @ '' the code is wrong or expired'')), f, s)
           else if \<not> http_ok resp
           then Some (Inl (Msg (''manifest rejected: HTTP '' @ show_nat (hr_status resp))), f, s)
           else
      (case un_manifest_ack L (hr_body resp) of
         None \<Rightarrow> Some (Inl (Ctx ''invalid manifest response'' (Msg ''invalid JSON'')), f, s)
       | Some ack \<Rightarrow>
           if \<not> ma_accepted ack
           then Some (Inl (Msg ''receiver declined the transfer (or protocol version mismatch)''), f, s)
           else if ma_complete ack then Some (Inr ''text delivered'', f, s)
           else
      (case src of
         TextSource _ _ \<Rightarrow> Some (Inl (Panic ''text completes at manifest time''), f, s)
       | Blob _ _ _ tot tid p _ \<Rightarrow>
      (case manifest_total_chunks m of
         Inl e \<Rightarrow> Some (Inl e, f, s)
       | Inr total_chunks \<Rightarrow>
      (let missing = filter (\<lambda>i. i \<notin> set (ma_have ack)) (index_range total_chunks) in
      (case upload_all L net key token tid p tot turns missing f s of
         None \<Rightarrow> None
       | Some (Inl e, f, s) \<Rightarrow> Some (Inl (Ctx upload_failed_text e), f, s)
       | Some (Inr _, f, s) \<Rightarrow>
      (case blake3_file L p f of
         (Inl e, f) \<Rightarrow> Some (Inl e, f, s)
       | (Inr h, f) \<Rightarrow>
      (case net s (bearer token (RCommit (seal_json L (js_commit L) key DCommit (str_bytes tid)
              \<lparr>co_blake3_hex = h\<rparr>))) of
         (Inl e, s) \<Rightarrow> Some (Inl e, f, s)
       | (Inr resp, s) \<Rightarrow>
      (case un_commit_ack L (hr_body resp) of
         None \<Rightarrow> Some (Inl (Msg ''invalid JSON''), f, s)
       | Some ack \<Rightarrow>
           if \<not> ca_ok ack
           then Some (Inl (Msg (''receiver failed to finalize: '' @
                  (case ca_error ack of Some e \<Rightarrow> e | None \<Rightarrow> []))), f, s)
           else Some (Inr ''transfer complete'', f, s)))))))))))"

section \<open>Retries\<close>

text \<open>The answers a network gives to repetitions of one request.\<close>

fun answers :: "'s http_net \<Rightarrow> http_request \<Rightarrow> nat \<Rightarrow> 's \<Rightarrow> http_response res list" where
  "answers net rq 0 s = []"
| "answers net rq (Suc n) s = (case net s rq of (r, s') \<Rightarrow> r # answers net rq n s')"

definition got_through :: "http_response res \<Rightarrow> bool" where
  "got_through r = (case r of Inr x \<Rightarrow> http_ok x | Inl _ \<Rightarrow> False)"

lemma upload_attempts_iff:
  "fst (upload_attempts net token i b n s) = Inr () \<longleftrightarrow>
   (\<exists>j < n. got_through (answers net (bearer token (RChunk i b)) n s ! j) \<and>
      (\<forall>l < j. \<not> is_401 (answers net (bearer token (RChunk i b)) n s ! l)))"
proof (induction n arbitrary: s)
  case 0
  then show ?case by simp
next
  case (Suc n)
  obtain r s' where r: "net s (bearer token (RChunk i b)) = (r, s')" by (metis prod.exhaust)
  let ?as = "answers net (bearer token (RChunk i b)) n s'"
  have split: "(\<exists>j < Suc n. got_through ((r # ?as) ! j) \<and> (\<forall>l < j. \<not> is_401 ((r # ?as) ! l))) \<longleftrightarrow>
      got_through r \<or> (\<not> is_401 r \<and> (\<exists>j < n. got_through (?as ! j) \<and> (\<forall>l < j. \<not> is_401 (?as ! l))))"
    by (auto simp: Ex_less_Suc2 All_less_Suc2)
  have ok401: "got_through r \<Longrightarrow> \<not> is_401 r"
    by (auto simp: got_through_def is_401_def http_ok_def split: sum.splits)
  have step: "fst (upload_attempts net token i b (Suc n) s) = Inr () \<longleftrightarrow>
      got_through r \<or> (\<not> is_401 r \<and> fst (upload_attempts net token i b n s') = Inr ())"
    using ok401 by (cases r; cases "n = 0") (simp_all add: r judge_answer_def got_through_def is_401_def)
  show ?case unfolding step answers.simps r prod.case split Suc.IH ..
qed

text \<open>One upload alone in the pool is \<open>upload_attempts\<close>.\<close>

lemma pool_result_idle:
  "pool_result po \<noteq> None \<Longrightarrow> pool_run L net key token tid p tot turns po = po"
  by (induction turns) (auto simp: pool_take_def)

definition pool_of :: "upload \<Rightarrow> fs \<Rightarrow> 's \<Rightarrow> 's pool" where
  "pool_of u f s = \<lparr>po_todo = [], po_live = [u], po_disk = f, po_net = s, po_failed = None\<rparr>"

lemma pool_try:
  assumes "net s (bearer token (RChunk i b)) = (a, s')"
  shows "pool_run L net key token tid p tot [Request 0, LookAt 0]
      (pool_of \<lparr>up_index = i, up_body = b, up_left = Suc n, up_answer = None\<rparr> f s) =
    (case judge_answer i n a of
       Uploaded \<Rightarrow> \<lparr>po_todo = [], po_live = [], po_disk = f, po_net = s', po_failed = None\<rparr>
     | GiveUp e \<Rightarrow> \<lparr>po_todo = [], po_live = [\<lparr>up_index = i, up_body = b, up_left = Suc n, up_answer = Some a\<rparr>],
         po_disk = f, po_net = s', po_failed = Some e\<rparr>
     | TryAgain \<Rightarrow> pool_of \<lparr>up_index = i, up_body = b, up_left = n, up_answer = None\<rparr> f s')"
  using assms by (simp add: pool_of_def pool_take_def pool_result_def pool_request_def pool_look_def
      split: verdict_of_try.split)

lemma pool_alone:
  assumes "upload_attempts net token i b (Suc n) s = (r, s')"
  shows "\<exists>po. pool_run L net key token tid p tot (concat (replicate (Suc n) [Request 0, LookAt 0]))
      (pool_of \<lparr>up_index = i, up_body = b, up_left = Suc n, up_answer = None\<rparr> f s) = po \<and>
    pool_result po = Some r \<and> po_net po = s'"
  using assms
proof (induction n arbitrary: s)
  case 0
  obtain a s1 where net: "net s (bearer token (RChunk i b)) = (a, s1)" by (metis prod.exhaust)
  have "judge_answer i 0 a \<noteq> TryAgain" by (simp add: judge_answer_def split: sum.split)
  then show ?case using 0 net pool_try [where net = net and s = s and n = 0 and i = i and b = b and token = token and f = f and L = L, OF net]
    by (auto simp: pool_result_def split: verdict_of_try.splits)
next
  case (Suc n)
  obtain a s1 where net: "net s (bearer token (RChunk i b)) = (a, s1)" by (metis prod.exhaust)
  let ?turns = "concat (replicate (Suc n) [Request 0, LookAt 0])"
  let ?po = "pool_of \<lparr>up_index = i, up_body = b, up_left = Suc (Suc n), up_answer = None\<rparr> f s"
  have "concat (replicate (Suc (Suc n)) [Request 0, LookAt 0]) = [Request 0, LookAt 0] @ ?turns" by simp
  then have run: "pool_run L net key token tid p tot (concat (replicate (Suc (Suc n)) [Request 0, LookAt 0])) ?po =
      pool_run L net key token tid p tot ?turns (pool_run L net key token tid p tot [Request 0, LookAt 0] ?po)"
    by (simp only: fold_append comp_apply)
  note tried = run [unfolded pool_try [where net = net and s = s and n = "Suc n" and i = i and b = b and token = token, OF net]]
  show ?case
  proof (cases "judge_answer i (Suc n) a")
    case TryAgain
    then show ?thesis using Suc.IH [of s1] Suc.prems net unfolding tried by simp
  next
    case Uploaded
    then show ?thesis using Suc.prems net unfolding tried
      by (simp add: pool_result_idle pool_result_def del: fold_simps concat.simps replicate.simps)
  next
    case (GiveUp e)
    then show ?thesis using Suc.prems net unfolding tried
      by (simp add: pool_result_idle pool_result_def del: fold_simps concat.simps replicate.simps)
  qed
qed

section \<open>Every pool can be brought to its end\<close>

definition upload_load :: "upload \<Rightarrow> nat" where
  "upload_load u = 2 * up_left u + (if up_answer u = None then 2 else 1)"

definition pool_load :: "'s pool \<Rightarrow> nat" where
  "pool_load po = 20 * length (po_todo po) + sum_list (map upload_load (po_live po))"

lemma pool_progress:
  assumes "pool_result po = None"
  shows "\<exists>t. pool_result (pool_take L net key token tid p tot t po) \<noteq> None \<or>
    pool_load (pool_take L net key token tid p tot t po) < pool_load po"
proof (cases "po_live po")
  case Nil
  then obtain i js where "po_todo po = i # js"
    using assms by (cases "po_todo po") (auto simp: pool_result_def split: option.splits)
  then show ?thesis using Nil assms
    by (intro exI [of _ StartNext])
      (auto simp: pool_take_def pool_start_def pool_load_def upload_load_def PARALLEL_UPLOADS_def CHUNK_ATTEMPTS_def
        pool_result_def split: prod.splits sum.splits)
next
  case (Cons u us)
  show ?thesis
  proof (cases "up_answer u")
    case None
    then show ?thesis using Cons assms
      by (intro exI [of _ "Request 0"])
        (auto simp: pool_take_def pool_request_def pool_load_def upload_load_def split: prod.splits)
  next
    case (Some a)
    have "up_left u - 1 \<noteq> 0" if "judge_answer (up_index u) (up_left u - 1) a = TryAgain"
      using that by (auto simp: judge_answer_def split: sum.splits if_splits)
    then show ?thesis using Cons assms Some
      by (intro exI [of _ "LookAt 0"])
        (auto simp: pool_take_def pool_look_def pool_load_def upload_load_def pool_result_def split: verdict_of_try.splits)
  qed
qed

lemma pool_completes:
  "\<exists>more. pool_result (pool_run L net key token tid p tot more po) \<noteq> None"
proof (induction "pool_load po" arbitrary: po rule: less_induct)
  case less
  show ?case
  proof (cases "pool_result po = None")
    case True
    obtain t where t: "pool_result (pool_take L net key token tid p tot t po) \<noteq> None \<or>
        pool_load (pool_take L net key token tid p tot t po) < pool_load po" using pool_progress [OF True] by blast
    then show ?thesis
    proof
      assume "pool_result (pool_take L net key token tid p tot t po) \<noteq> None"
      then show ?thesis by (intro exI [of _ "[t]"]) simp
    next
      assume "pool_load (pool_take L net key token tid p tot t po) < pool_load po"
      from less [OF this] obtain more where
        "pool_result (pool_run L net key token tid p tot more (pool_take L net key token tid p tot t po)) \<noteq> None" by blast
      then show ?thesis by (intro exI [of _ "t # more"]) simp
    qed
  next
    case False
    then show ?thesis by (intro exI [of _ "[]"]) simp
  qed
qed

end
