(* ===== verification/B2P_Turn.thy ===== *)
theory B2P_Turn
  imports B2P_Prelude
begin

text \<open>
  TURN configuration of the WebRTC path (src/src/turn.rs). HMAC-SHA1, base64 and the query decoder
  of the \<^verbatim>\<open>url\<close> crate are arguments, as is the clock.
\<close>

record ice_server =
  ice_urls :: "string list"
  ice_username :: string
  ice_credential :: string

record turn_lib =
  hmac_sha1 :: "bytes \<Rightarrow> bytes \<Rightarrow> bytes"
  base64_encode :: "bytes \<Rightarrow> string"
  form_urlencoded_parse :: "string \<Rightarrow> (string \<times> string) list"

definition EPHEMERAL_TTL_SECS :: u64 where
  "EPHEMERAL_TTL_SECS = 12 * 60 * 60"

definition ephemeral_credential :: "turn_lib \<Rightarrow> string \<Rightarrow> string \<Rightarrow> u64 \<Rightarrow> string \<times> string" where
  "ephemeral_credential T secret nonce expiry_unix =
     (let username = show_u64 expiry_unix @ '':'' @ nonce in
      (username, base64_encode T (hmac_sha1 T (str_bytes secret) (str_bytes username))))"

text \<open>The time since the epoch, \<open>None\<close> when the clock is before it.\<close>

definition now_unix :: "u64 option \<Rightarrow> u64" where
  "now_unix clock = (case clock of Some secs \<Rightarrow> secs | None \<Rightarrow> 0)"

fun transport_tcp :: "(string \<times> string) list \<Rightarrow> bool" where
  "transport_tcp [] = False"
| "transport_tcp ((k, v) # rest) =
     ((eq_ignore_ascii_case k ''transport'' \<and> eq_ignore_ascii_case v ''tcp'') \<or> transport_tcp rest)"

definition validate_turn_url :: "turn_lib \<Rightarrow> string \<Rightarrow> unit res" where
  "validate_turn_url T url =
     (let (scheme, rest) = (case split_once CHR '':'' url of Some sr \<Rightarrow> sr | None \<Rightarrow> (url, [])) in
      if to_ascii_lowercase scheme = ''turns''
      then Inl (Msg (''TURN over TLS ('' @ url @ '') is not supported by the current WebRTC engine (webrtc-ice is UDP-only). For a UDP-blocked network, use the HTTPS relay instead.''))
      else if to_ascii_lowercase scheme \<noteq> ''turn''
      then Inl (Msg (''--turn expects a turn: (UDP) URL, got: '' @ url))
      else
        (case split_once CHR ''?'' rest of
           None \<Rightarrow> Inr ()
         | Some (_, query) \<Rightarrow>
             if transport_tcp (form_urlencoded_parse T query)
             then Inl (Msg (''TURN over TCP ('' @ url @ '') is not supported by the current WebRTC engine (webrtc-ice is UDP-only). Use a udp turn: URL, or the HTTPS relay for UDP-blocked networks.''))
             else Inr ()))"

fun validate_all :: "turn_lib \<Rightarrow> string list \<Rightarrow> unit res" where
  "validate_all T [] = Inr ()"
| "validate_all T (u # us) = bindR (validate_turn_url T u) (\<lambda>_. validate_all T us)"

definition turn_resolve ::
  "turn_lib \<Rightarrow> u64 option \<Rightarrow> string list \<Rightarrow> string option \<Rightarrow> string option \<Rightarrow> string option \<Rightarrow> string \<Rightarrow>
   ice_server list res" where
  "turn_resolve T clock turn_urls secret user pass nonce =
     (if turn_urls = [] then
        if secret \<noteq> None \<or> user \<noteq> None \<or> pass \<noteq> None
        then Inl (Msg (''TURN credentials were given but no --turn URL '' @ em_dash @ '' add --turn turn:HOST:PORT''))
        else Inr []
      else
        bindR (validate_all T turn_urls) (\<lambda>_.
        bindR (case (secret, user, pass) of
                 (Some s, None, None) \<Rightarrow>
                   Inr (ephemeral_credential T s nonce (now_unix clock + EPHEMERAL_TTL_SECS))
               | (None, Some u, Some p) \<Rightarrow> Inr (u, p)
               | _ \<Rightarrow> Inl (Msg ''--turn requires credentials: either --turn-secret, or both --turn-user and --turn-pass''))
          (\<lambda>(username, credential).
        Inr [\<lparr>ice_urls = turn_urls, ice_username = username, ice_credential = credential\<rparr>])))"

section \<open>Facts\<close>

text \<open>A URL the WebRTC engine can use: scheme turn, no TCP transport in the decoded query.\<close>

definition usable_turn_url :: "turn_lib \<Rightarrow> string \<Rightarrow> bool" where
  "usable_turn_url T url \<longleftrightarrow>
     (case split_once CHR '':'' url of
        None \<Rightarrow> to_ascii_lowercase url = ''turn''
      | Some (scheme, rest) \<Rightarrow>
          to_ascii_lowercase scheme = ''turn'' \<and>
          (\<forall>path query k v. split_once CHR ''?'' rest = Some (path, query) \<longrightarrow>
             (k, v) \<in> set (form_urlencoded_parse T query) \<longrightarrow>
             to_ascii_lowercase k = ''transport'' \<longrightarrow> to_ascii_lowercase v \<noteq> ''tcp''))"

lemma transport_tcp_iff:
  "transport_tcp kvs \<longleftrightarrow>
   (\<exists>k v. (k, v) \<in> set kvs \<and> to_ascii_lowercase k = ''transport'' \<and> to_ascii_lowercase v = ''tcp'')"
proof -
  have "to_ascii_lowercase ''transport'' = ''transport''" "to_ascii_lowercase ''tcp'' = ''tcp''"
    by (simp_all add: to_ascii_lowercase_def ascii_lower_def)
  then show ?thesis by (induction kvs rule: transport_tcp.induct) (auto simp: eq_ignore_ascii_case_def)
qed

lemma validate_turn_url_iff: "validate_turn_url T url = Inr () \<longleftrightarrow> usable_turn_url T url"
  by (auto simp: validate_turn_url_def usable_turn_url_def transport_tcp_iff Let_def
      split: option.splits prod.splits if_splits)

lemma validate_all_iff: "validate_all T us = Inr () \<longleftrightarrow> (\<forall>u \<in> set us. usable_turn_url T u)"
  by (induction us) (auto simp: bindR_eq_Inr validate_turn_url_iff)

lemma turn_resolve_iff:
  "(\<exists>ice. turn_resolve T clock urls secret user pass nonce = Inr ice) \<longleftrightarrow>
   (if urls = [] then secret = None \<and> user = None \<and> pass = None
    else (\<forall>u \<in> set urls. usable_turn_url T u) \<and>
      (secret = None) \<noteq> (user = None) \<and> (user = None \<longleftrightarrow> pass = None))"
proof (cases "urls = []")
  case True
  then show ?thesis by (auto simp: turn_resolve_def)
next
  case False
  have "(\<exists>ice. turn_resolve T clock urls secret user pass nonce = Inr ice) \<longleftrightarrow>
      validate_all T urls = Inr () \<and> (secret = None) \<noteq> (user = None) \<and> (user = None \<longleftrightarrow> pass = None)"
    using False by (auto simp: turn_resolve_def bindR_eq_Inr split: option.split)
  then show ?thesis using False validate_all_iff by simp
qed

lemma resolved_server:
  assumes "turn_resolve T clock urls secret user pass nonce = Inr ice"
  shows "ice = [] \<and> urls = [] \<or>
    (\<exists>u c. ice = [\<lparr>ice_urls = urls, ice_username = u, ice_credential = c\<rparr>] \<and>
      (secret = None \<longrightarrow> user = Some u \<and> pass = Some c))"
  using assms by (auto simp: turn_resolve_def bindR_eq_Inr split: if_splits option.splits)

end
