(* ===== verification/B2P_Cli.thy ===== *)
theory B2P_Cli
  imports B2P_Codes B2P_Config B2P_Session B2P_Send B2P_Turn
begin

text \<open>
  The command line (src/src/main.rs): the acceptance question, the receiver's re-arm loop, the
  dispatch of a send on the form of the code, the relay settings. A command yields the trace of
  what it prints and how long it sleeps, and its result with the disk, or \<open>None\<close> while it still
  waits. Sockets, random bytes, the terminal and the report of the doctor are arguments.
\<close>

unbundle bit_operations_syntax

datatype cli_event = Stdout string | Stderr string | Sleep u64 | Reply bool

type_synonym command = "cli_event list \<times> (unit res \<times> fs) option"

definition before :: "cli_event list \<Rightarrow> command \<Rightarrow> command" where
  "before evs c = (evs @ fst c, snd c)"

definition newline :: string where
  "newline = [CHR 10]"

section \<open>ICE servers\<close>

definition STUN_SERVERS :: "string list" where
  "STUN_SERVERS = [''stun:stun.l.google.com:19302'', ''stun:stun.cloudflare.com:3478'']"

definition DEFAULT_RENDEZVOUS :: string where
  "DEFAULT_RENDEZVOUS = ''https://ntfy.sh''"

record turn_args =
  ta_turn :: "string list"
  ta_secret :: "string option"
  ta_user :: "string option"
  ta_pass :: "string option"

definition default_ice_servers :: "ice_server list" where
  "default_ice_servers = [\<lparr>ice_urls = STUN_SERVERS, ice_username = [], ice_credential = []\<rparr>]"

definition hex_digit :: "nat \<Rightarrow> char" where
  "hex_digit d = (if d < 10 then char_of (48 + d) else char_of (87 + d))"

fun hex_fixed :: "nat \<Rightarrow> nat \<Rightarrow> string" where
  "hex_fixed 0 v = []"
| "hex_fixed (Suc n) v = hex_fixed n (v div 16) @ [hex_digit (v mod 16)]"

definition turn_args_resolve :: "turn_lib \<Rightarrow> u64 option \<Rightarrow> u32 \<Rightarrow> turn_args \<Rightarrow> ice_server list res" where
  "turn_args_resolve T clock rnd args =
     turn_resolve T clock (ta_turn args) (ta_secret args) (ta_user args) (ta_pass args)
       (hex_fixed 8 (unat rnd))"

definition ice_servers :: "turn_lib \<Rightarrow> u64 option \<Rightarrow> u32 \<Rightarrow> turn_args \<Rightarrow> ice_server list res" where
  "ice_servers T clock rnd args =
     bindR (turn_args_resolve T clock rnd args) (\<lambda>turn. Inr (default_ice_servers @ turn))"

section \<open>Accepting a transfer\<close>

text \<open>The line typed at the prompt, \<open>None\<close> when standard input cannot be read.\<close>

definition answered_yes :: "string option \<Rightarrow> bool" where
  "answered_yes line = (case line of None \<Rightarrow> False | Some l \<Rightarrow> eq_ignore_ascii_case (trim l) ''y'')"

definition accept_decision :: "fs \<Rightarrow> path \<Rightarrow> bool \<Rightarrow> bool \<Rightarrow> string option \<Rightarrow> manifest \<Rightarrow> bool" where
  "accept_decision f out_dir yes ow line m =
     (let clobber = (m_kind m = KFile \<and>
            fs_exists (out_dir @ (case file_name (m_name m) of Some n \<Rightarrow> [n] | None \<Rightarrow> [])) f) in
      if yes then \<not> (clobber \<and> \<not> ow)
      else answered_yes line)"

section \<open>Failures to connect\<close>

record doctor_args =
  da_target_host :: "string option"
  da_cafile :: "path option"
  da_relay :: "string option"
  da_relay_token :: "string option"

definition no_connection :: err where
  "no_connection = Msg ''could not establish a connection (see diagnostics above)''"

definition connect_failed_relay ::
  "(doctor_args \<Rightarrow> string) \<Rightarrow> path option \<Rightarrow> err \<Rightarrow> relay_cfg \<Rightarrow> cli_event list \<times> unit res" where
  "connect_failed_relay doctor cafile e relay =
     ([Stderr (newline @ ''Could not connect: '' @ display_alt e),
       Stderr (''Running diagnostics (b2p doctor)...'' @ newline),
       Stderr (doctor \<lparr>da_target_host = None, da_cafile = cafile, da_relay = Some (rl_url relay),
                 da_relay_token = rl_token relay\<rparr>)],
      Inl no_connection)"

text \<open>\<open>host_str\<close> stands for the host of a URL as the \<^verbatim>\<open>url\<close> crate reads it.\<close>

definition connect_failed ::
  "(doctor_args \<Rightarrow> string) \<Rightarrow> (string \<Rightarrow> string option res) \<Rightarrow> path option \<Rightarrow> err \<Rightarrow> string \<Rightarrow>
   cli_event list \<times> unit res" where
  "connect_failed doctor host_str cafile e rendezvous_base =
     (let host = (case host_str rendezvous_base of Inr h \<Rightarrow> h | Inl _ \<Rightarrow> None) in
     ([Stderr (newline @ ''Could not connect: '' @ display_alt e),
       Stderr (''Running diagnostics (b2p doctor)...'' @ newline),
       Stderr (doctor \<lparr>da_target_host = host, da_cafile = cafile, da_relay = None,
                 da_relay_token = None\<rparr>)],
      Inl no_connection))"

definition parse_target ::
  "'x crypto_lib_scheme \<Rightarrow> (string \<Rightarrow> (string \<times> string) option) \<Rightarrow> (string \<Rightarrow> string option res) \<Rightarrow>
   string \<Rightarrow> string res" where
  "parse_target L parse_url host_str s =
     (if CHR ''#'' \<in> set s then
        bindR (code_parse L parse_url s) (\<lambda>c.
        bindR (host_str (tc_base_url c)) (\<lambda>h. ok_or (Msg ''code URL has no host'') h))
      else if contains_str ''://'' s then
        bindR (context_of ''invalid URL'' (host_str s)) (\<lambda>h. ok_or (Msg ''URL has no host'') h)
      else Inr s)"

section \<open>Receiving through the relay\<close>

text \<open>The surroundings of a run: configuration directory, environment variables, CA file.\<close>

record cli_env =
  ce_config_dir :: "path option"
  ce_toml :: toml_lib
  ce_relay :: "string option"
  ce_relay_token :: "string option"
  ce_cafile :: "path option"
  ce_doctor :: "doctor_args \<Rightarrow> string"

text \<open>One pass of the receiver's loop: the socket, what arrives, the line typed at the prompt.\<close>

record attempt =
  at_net :: relay_net
  at_waits :: "wait_event list"
  at_rnd :: bytes
  at_budget :: nat
  at_ins :: "bytes res list"
  at_line :: "string option"

definition receive_attempt ::
  "'x store_lib_scheme \<Rightarrow> spake_lib \<Rightarrow> json_parser \<Rightarrow> relay_cfg \<Rightarrow> rendezvous_code \<Rightarrow> path \<Rightarrow> bool \<Rightarrow>
   bool \<Rightarrow> attempt \<Rightarrow> fs \<Rightarrow> outcome option" where
  "receive_attempt L S P relay code out yes ow a f =
     (case relay_connect (at_net a) P (rl_url relay) (rv_topic code) Receiver (rl_token relay) (at_waits a) of
        None \<Rightarrow> None
      | Some conn \<Rightarrow>
          snd (play (receive_relay L S (at_rnd a) (at_budget a) (map_sum id (\<lambda>_. ()) conn)
                 (rv_topic code) (rv_secret code) out
                 (accept_decision f out yes ow (at_line a)) f) (at_ins a)))"

definition busy_delay :: "u32 \<Rightarrow> u64" where
  "busy_delay busy_retries = min (push_bit (unat busy_retries) 2) 20"

definition lost_text :: "err \<Rightarrow> string" where
  "lost_text e = ''connection lost ('' @ display_alt e @ '') '' @ em_dash @
     '' the code is still valid; waiting for the sender to retry...''"

definition mismatch_text :: string where
  "mismatch_text = ''a sender connected with a non-matching code '' @ em_dash @ '' still waiting...''"

text \<open>The loop; \<open>run\<close> is one attempt on the current disk.\<close>

fun rearm_loop ::
  "('a \<Rightarrow> fs \<Rightarrow> outcome option) \<Rightarrow> (err \<Rightarrow> cli_event list \<times> unit res) \<Rightarrow> u32 \<Rightarrow> 'a list \<Rightarrow> fs \<Rightarrow>
   command" where
  "rearm_loop run fail busy_retries [] f = ([], None)"
| "rearm_loop run fail busy_retries (a # as) f =
     (case run a f of
        None \<Rightarrow> ([], None)
      | Some (Inr desc, f) \<Rightarrow> ([Stderr ''via relay'', Stderr (''Done: '' @ desc)], Some (Inr (), f))
      | Some (Inl e, f) \<Rightarrow>
          if is_WaitClosed e then rearm_loop run fail 0 as f
          else if is_TransportLost e then
            before [Stderr (lost_text e)] (rearm_loop run fail 0 as f)
          else if is_CodeMismatch e then
            before [Stderr mismatch_text, Sleep 2] (rearm_loop run fail 0 as f)
          else if busy_retries < 8 \<and>
                  (case the_EstablishError e of Some ee \<Rightarrow> is_RoomBusy ee | None \<Rightarrow> False) then
            before [Sleep (busy_delay busy_retries)] (rearm_loop run fail (busy_retries + 1) as f)
          else if the_EstablishError e \<noteq> None then
            (case fail e of (evs, r) \<Rightarrow> (evs, Some (r, f)))
          else ([], Some (Inl e, f)))"

function trim_start_matches :: "string \<Rightarrow> string \<Rightarrow> string" where
  "trim_start_matches p s =
     (if p \<noteq> [] \<and> prefix p s then trim_start_matches p (drop (length p) s) else s)"
  by pat_completeness auto
termination
  by (relation "measure (\<lambda>(p, s). length s)") (auto simp: prefix_def)

declare trim_start_matches.simps [simp del]

definition relay_host_text :: "string \<Rightarrow> string" where
  "relay_host_text url = trim_start_matches ''ws://'' (trim_start_matches ''wss://'' url)"

definition send_line :: "string \<Rightarrow> string" where
  "send_line code = ''    b2p send '' @ code @ '' <files...>''"

definition quote_code :: "string \<Rightarrow> string" where
  "quote_code s = [CHR 39] @ s @ [CHR 39]"

text \<open>The random bytes of the code are the argument \<open>entropy\<close>.\<close>

definition receive_relay_cli ::
  "'x store_lib_scheme \<Rightarrow> spake_lib \<Rightarrow> json_parser \<Rightarrow> cli_env \<Rightarrow> u8 \<times> u8 \<times> u8 \<Rightarrow> path \<Rightarrow> bool \<Rightarrow> bool \<Rightarrow>
   string option \<Rightarrow> attempt list \<Rightarrow> fs \<Rightarrow> command" where
  "receive_relay_cli L S P E entropy out yes ow relay_flag attempts f =
     (case bindIO (fs_create_dir_all out) (\<lambda>_. config_load (ce_toml E) (ce_config_dir E)) f of
        (Inl e, f) \<Rightarrow> ([], Some (Inl e, f))
      | (Inr cfg, f) \<Rightarrow>
          (case resolve_relay relay_flag None (ce_relay E) (ce_relay_token E) cfg of
             Inl e \<Rightarrow> ([], Some (Inl e, f))
           | Inr relay \<Rightarrow>
               let code = generate_human L entropy; host = relay_host_text (rl_url relay) in
               case show_rendezvous L code of
                 Inl e \<Rightarrow> ([], Some (Inl e, f))
               | Inr shown \<Rightarrow>
                   before
                     [Stderr (newline @ ''On the other machine, run:'' @ newline),
                      Stdout (send_line shown),
                      Stderr (newline @ ''  or, if that machine has no relay configured:'' @ newline),
                      Stdout (send_line (quote_code (url_spelling L code (Some host)))),
                      Stderr (newline @ ''Waiting for the sender... (Ctrl-C to abort)'')]
                     (rearm_loop (receive_attempt L S P relay code out yes ow)
                        (\<lambda>e. connect_failed_relay (ce_doctor E) (ce_cafile E) e relay) 0 attempts f)))"

section \<open>The other receivers\<close>

text \<open>
  What the WebRTC receiver gets from outside: the client of the rendezvous service, the handshake
  and the connection it makes, the messages of the channel, the line typed at the prompt.
\<close>

record p1_env =
  p1_client :: "unit res"
  p1_handshake :: "session_key res"
  p1_connect :: "unit res"
  p1_ins :: "bytes res list"
  p1_line :: "string option"

definition finish ::
  "(err \<Rightarrow> cli_event list \<times> unit res) \<Rightarrow> string \<Rightarrow> outcome option \<Rightarrow> command" where
  "finish fail via r =
     (case r of
        None \<Rightarrow> ([], None)
      | Some (Inr desc, f) \<Rightarrow> ([Stderr via, Stderr (''Done: '' @ desc)], Some (Inr (), f))
      | Some (Inl e, f) \<Rightarrow>
          if the_EstablishError e \<noteq> None then (case fail e of (evs, r) \<Rightarrow> (evs, Some (r, f)))
          else ([], Some (Inl e, f)))"

definition receive_p1_cli ::
  "'x store_lib_scheme \<Rightarrow> cli_env \<Rightarrow> turn_lib \<Rightarrow> u64 option \<Rightarrow> u32 \<Rightarrow> (string \<Rightarrow> string option res) \<Rightarrow> p1_env \<Rightarrow>
   u8 \<times> u8 \<times> u8 \<Rightarrow> path \<Rightarrow> bool \<Rightarrow> bool \<Rightarrow> string option \<Rightarrow> turn_args \<Rightarrow> fs \<Rightarrow> command" where
  "receive_p1_cli L E T clock rnd host_str Q entropy out yes ow rendezvous turn f =
     (case fs_create_dir_all out f of
        (Inl e, f) \<Rightarrow> ([], Some (Inl e, f))
      | (Inr _, f) \<Rightarrow>
          (case ice_servers T clock rnd turn of
             Inl e \<Rightarrow> ([], Some (Inl e, f))
           | Inr ice \<Rightarrow>
               (case show_rendezvous L (generate_human L entropy) of
                  Inl e \<Rightarrow> ([], Some (Inl e, f))
                | Inr shown \<Rightarrow>
                    before
                      [Stderr (newline @ ''On the other machine, run:'' @ newline),
                       Stdout (send_line shown @ newline),
                       Stderr ''Waiting for the sender...'']
                      (let base = (case rendezvous of Some b \<Rightarrow> b | None \<Rightarrow> DEFAULT_RENDEZVOUS) in
                       case p1_client Q of
                         Inl e \<Rightarrow> ([], Some (Inl e, f))
                       | Inr _ \<Rightarrow>
                           finish (\<lambda>e. connect_failed (ce_doctor E) host_str (ce_cafile E) e base)
                             ''via WebRTC''
                             (snd (play (receive_p1 L (p1_handshake Q) (p1_connect Q) out
                                (accept_decision f out yes ow (p1_line Q)) f) (p1_ins Q)))))))"

text \<open>
  The event loop of the tunnel receiver: requests of the HTTP server to ask the user, its events,
  its shutdown, and Ctrl-C.
\<close>

datatype tunnel_input =
    AcceptRequest string "string option"
  | ServerEvent event
  | Shutdown
  | CtrlC

fun tunnel_loop :: "tunnel_input list \<Rightarrow> cli_event list \<times> unit res option" where
  "tunnel_loop [] = ([], None)"
| "tunnel_loop (AcceptRequest summary line # is) =
     (case line of
        None \<Rightarrow> ([Stderr (newline @ summary), Stderr ''Accept? [y/N] ''], Some (Inl (Io ''standard input'')))
      | Some l \<Rightarrow>
          (case tunnel_loop is of (evs, r) \<Rightarrow>
             ([Stderr (newline @ summary), Stderr ''Accept? [y/N] '',
               Reply (eq_ignore_ascii_case (trim l) ''y'')] @ evs, r)))"
| "tunnel_loop (ServerEvent ev # is) =
     (case ev of
        EvAccepted nm total_size \<Rightarrow>
          (case tunnel_loop is of (evs, r) \<Rightarrow> (Stderr (''Receiving '' @ nm @ ''...'') # evs, r))
      | EvProgress n \<Rightarrow> tunnel_loop is
      | EvText t \<Rightarrow>
          (case tunnel_loop is of (evs, r) \<Rightarrow> ([Stderr ''--- text snippet ---'', Stdout t] @ evs, r))
      | EvDone desc \<Rightarrow> ([Stderr (''Done: '' @ desc)], Some (Inr ()))
      | EvFailed msg \<Rightarrow> ([], Some (Inl (Msg msg))))"
| "tunnel_loop (Shutdown # is) = ([], Some (Inr ()))"
| "tunnel_loop (CtrlC # is) =
     ([Stderr (newline @ ''Aborted. Partial data kept '' @ em_dash @ '' run `b2p receive` again to resume.'')],
      Some (Inr ()))"

text \<open>
  \<open>started\<close> is the outcome of binding the server, \<open>opened\<close> that of the tunnel: the scheme and the
  text of its URL. The handlers of the server change the disk on their own (\<open>B2P_Server\<close>); the disk
  returned here is the one the loop starts with.
\<close>

definition receive_tunnel ::
  "'x crypto_lib_scheme \<Rightarrow> secret \<Rightarrow> unit res \<Rightarrow> (string \<times> string) res \<Rightarrow> path \<Rightarrow> bool \<Rightarrow>
   tunnel_input list \<Rightarrow> fs \<Rightarrow> command" where
  "receive_tunnel L secret started opened out direct inputs f =
     (case fs_create_dir_all out f of
        (Inl e, f) \<Rightarrow> ([], Some (Inl e, f))
      | (Inr _, f) \<Rightarrow>
          (case started of
             Inl e \<Rightarrow> ([], Some (Inl e, f))
           | Inr _ \<Rightarrow>
               let opening = (if direct then [] else [Stderr ''Opening tunnel...'']) in
               (case opened of
                  Inl e \<Rightarrow> (opening, Some (Inl e, f))
                | Inr (scheme, url) \<Rightarrow>
                    let code = \<lparr>tc_scheme = scheme, tc_base_url = url, tc_secret = secret\<rparr> in
                    (case tunnel_loop inputs of (evs, r) \<Rightarrow>
                       (opening @
                         [Stderr (newline @ ''On the other machine, run:'' @ newline),
                          Stdout (send_line (quote_code (show_code L code)) @ newline),
                          Stderr ''Waiting for the sender... (Ctrl-C to abort; partial data is kept)''] @
                         evs, map_option (\<lambda>r. (r, f)) r)))))"

section \<open>Sending\<close>

datatype dest = DRendezvous rendezvous_code | DTunnel tunnel_code

definition dest_of ::
  "'x crypto_lib_scheme \<Rightarrow> (string \<Rightarrow> (string \<times> string) option) \<Rightarrow> string \<Rightarrow> dest res" where
  "dest_of L parse_url code =
     (if is_rendezvous_code code
      then map_sum id DRendezvous (context_of ''invalid code'' (parse_rendezvous L code))
      else map_sum id DTunnel
             (context_of (''invalid code '' @ em_dash @ '' paste it exactly as printed'')
                (code_parse L parse_url code)))"

text \<open>What a send meets outside: the files, the relay socket or the WebRTC stack, the HTTP client.\<close>

record 's send_env =
  sv_source :: source_env
  sv_net :: relay_net
  sv_waits :: "wait_event list"
  sv_rnd :: bytes
  sv_budget :: nat
  sv_ins :: "bytes res list"
  sv_p1 :: p1_env
  sv_client :: "unit res"
  sv_http :: "'s http_net"
  sv_turns :: "pool_turn list"
  sv_host :: "string \<Rightarrow> string"

definition send_via_relay ::
  "'x proto_lib_scheme \<Rightarrow> spake_lib \<Rightarrow> json_parser \<Rightarrow> cli_env \<Rightarrow> ('s, 'z) send_env_scheme \<Rightarrow>
   string option \<Rightarrow> rendezvous_code \<Rightarrow> source \<Rightarrow> fs \<Rightarrow> command" where
  "send_via_relay L S P E V relay_flag rc src f =
     (case config_load (ce_toml E) (ce_config_dir E) f of
        (Inl e, f) \<Rightarrow> ([], Some (Inl e, f))
      | (Inr cfg, f) \<Rightarrow>
          (case resolve_relay relay_flag (rv_relay_host rc) (ce_relay E) (ce_relay_token E) cfg of
             Inl e \<Rightarrow> ([], Some (Inl e, f))
           | Inr relay \<Rightarrow>
               before [Stderr ''Waiting for the receiver...'']
                 (finish (\<lambda>e. connect_failed_relay (ce_doctor E) (ce_cafile E) e relay) ''via relay''
                   (case relay_connect (sv_net V) P (rl_url relay) (rv_topic rc) Sender (rl_token relay)
                           (sv_waits V) of
                      None \<Rightarrow> None
                    | Some conn \<Rightarrow>
                        snd (play (send_relay L S (sv_rnd V) (sv_budget V) (map_sum id (\<lambda>_. ()) conn)
                               (rv_topic rc) (rv_secret rc) src f) (sv_ins V))))))"

definition send_via_p1 ::
  "'x proto_lib_scheme \<Rightarrow> cli_env \<Rightarrow> ('s, 'z) send_env_scheme \<Rightarrow> (string \<Rightarrow> string option res) \<Rightarrow>
   string option \<Rightarrow> source \<Rightarrow> fs \<Rightarrow> command" where
  "send_via_p1 L E V host_str rendezvous src f =
     (let base = (case rendezvous of Some b \<Rightarrow> b | None \<Rightarrow> DEFAULT_RENDEZVOUS) in
      case p1_client (sv_p1 V) of
        Inl e \<Rightarrow> ([], Some (Inl e, f))
      | Inr _ \<Rightarrow>
          before [Stderr ''Waiting for the receiver...'']
            (finish (\<lambda>e. connect_failed (ce_doctor E) host_str (ce_cafile E) e base) ''via WebRTC''
              (snd (play (send_p1 L (p1_handshake (sv_p1 V)) (p1_connect (sv_p1 V)) src f)
                 (p1_ins (sv_p1 V))))))"

definition do_send ::
  "'x proto_lib_scheme \<Rightarrow> spake_lib \<Rightarrow> json_parser \<Rightarrow> cli_env \<Rightarrow> ('s, 'z) send_env_scheme \<Rightarrow> turn_lib \<Rightarrow>
   u64 option \<Rightarrow> u32 \<Rightarrow> (string \<Rightarrow> (string \<times> string) option) \<Rightarrow> (string \<Rightarrow> string option res) \<Rightarrow> string \<Rightarrow>
   path list \<Rightarrow> string option \<Rightarrow> string option \<Rightarrow> bool \<Rightarrow> string option \<Rightarrow> turn_args \<Rightarrow> fs \<Rightarrow> 's \<Rightarrow>
   command \<times> 's" where
  "do_send L S P E V T clock rnd parse_url host_str code paths txt relay_flag p2p rendezvous turn f s =
     (case dest_of L parse_url code of
        Inl e \<Rightarrow> (([], Some (Inl e, f)), s)
      | Inr dest \<Rightarrow>
          (case ice_servers T clock rnd turn of
             Inl e \<Rightarrow> (([], Some (Inl e, f)), s)
           | Inr ice \<Rightarrow>
               let note = (case dest of
                      DTunnel _ \<Rightarrow> if ta_turn turn \<noteq> []
                        then [Stderr ''note: --turn only applies to the WebRTC path; ignoring it for this tunnel code'']
                        else []
                    | DRendezvous _ \<Rightarrow> []);
                   prepared = (case txt of
                      Some t \<Rightarrow> ([], Inr (prepare_text L t))
                    | None \<Rightarrow> ([Stderr ''Preparing...''], prepare L (sv_source V) paths)) in
               (case prepared of
                  (evs, Inl e) \<Rightarrow> ((note @ evs, Some (Inl e, f)), s)
                | (evs, Inr src) \<Rightarrow>
                    (case dest of
                       DRendezvous rc \<Rightarrow>
                         (before (note @ evs)
                            (if \<not> p2p then send_via_relay L S P E V relay_flag rc src f
                             else send_via_p1 L E V host_str rendezvous src f), s)
                     | DTunnel c \<Rightarrow>
                         (case tunnel_send L (sv_http V) (sv_turns V) (sv_client V)
                                 (sv_host V (tc_base_url c)) (tc_secret c) src f s of
                            None \<Rightarrow>
                              ((note @ evs @ [Stderr ''Waiting for the receiver to accept...''], None), s)
                          | Some (Inl e, f, s) \<Rightarrow>
                              ((note @ evs @ [Stderr ''Waiting for the receiver to accept...''],
                                Some (Inl e, f)), s)
                          | Some (Inr desc, f, s) \<Rightarrow>
                              ((note @ evs @ [Stderr ''Waiting for the receiver to accept...'',
                                 Stderr (''Done: '' @ desc)], Some (Inr (), f)), s))))))"

section \<open>The relay setting\<close>

definition relay_set :: "cli_env \<Rightarrow> string \<Rightarrow> string option \<Rightarrow> fs \<Rightarrow> command" where
  "relay_set E url token f =
     (case normalize_relay_url url of
        Inl e \<Rightarrow> ([], Some (Inl e, f))
      | Inr url \<Rightarrow>
          (case config_load (ce_toml E) (ce_config_dir E) f of
             (Inl e, f) \<Rightarrow> ([], Some (Inl e, f))
           | (Inr cfg, f) \<Rightarrow>
               let cfg = cfg\<lparr>cf_relay := Some url\<rparr>;
                   cfg = (if token \<noteq> None then cfg\<lparr>cf_relay_token := token\<rparr> else cfg) in
               (case config_save (ce_toml E) (ce_config_dir E) cfg f of
                  (Inl e, f) \<Rightarrow> ([], Some (Inl e, f))
                | (Inr p, f) \<Rightarrow>
                    ([Stderr (''relay set to '' @ url @ '' ('' @ path_text p @ '')'')], Some (Inr (), f)))))"

definition relay_show :: "cli_env \<Rightarrow> fs \<Rightarrow> command" where
  "relay_show E f =
     (case config_load (ce_toml E) (ce_config_dir E) f of
        (Inl e, f) \<Rightarrow> ([], Some (Inl e, f))
      | (Inr cfg, f) \<Rightarrow>
          ([Stdout (case cf_relay cfg of
              Some u \<Rightarrow> u @ (if cf_relay_token cfg \<noteq> None then '' (token set)'' else [])
            | None \<Rightarrow> ''(none configured)'')], Some (Inr (), f)))"

definition run_doctor ::
  "'x crypto_lib_scheme \<Rightarrow> cli_env \<Rightarrow> (string \<Rightarrow> (string \<times> string) option) \<Rightarrow> (string \<Rightarrow> string option res) \<Rightarrow>
   string option \<Rightarrow> fs \<Rightarrow> command" where
  "run_doctor L E parse_url host_str target f =
     (case (case target of None \<Rightarrow> Inr None
            | Some t \<Rightarrow> map_sum id Some (parse_target L parse_url host_str t)) of
        Inl e \<Rightarrow> ([], Some (Inl e, f))
      | Inr target_host \<Rightarrow>
          (case config_load (ce_toml E) (ce_config_dir E) f of (loaded, f) \<Rightarrow>
             let relay_cfg = (case loaded of
                    Inl _ \<Rightarrow> None
                  | Inr cfg \<Rightarrow>
                      (case resolve_relay None None (ce_relay E) (ce_relay_token E) cfg of
                         Inl _ \<Rightarrow> None | Inr r \<Rightarrow> Some r)) in
             ([Stdout (ce_doctor E \<lparr>da_target_host = target_host, da_cafile = ce_cafile E,
                 da_relay = map_option rl_url relay_cfg,
                 da_relay_token = Option.bind relay_cfg rl_token\<rparr>)], Some (Inr (), f))))"

section \<open>The whole command\<close>

datatype relay_cmd = RelaySet string "string option" | RelayShow

datatype cmd =
    CmdReceive (rc_out: path) (rc_direct: bool) (rc_yes: bool) (rc_overwrite: bool) (rc_tunnel: bool)
      (rc_relay: "string option") (rc_p2p: bool) (rc_rendezvous: "string option") (rc_turn: turn_args)
  | CmdSend (sd_code: string) (sd_paths: "path list") (sd_text: "string option") (sd_relay: "string option")
      (sd_p2p: bool) (sd_rendezvous: "string option") (sd_turn: turn_args)
  | CmdDoctor "string option"
  | CmdRelay relay_cmd

text \<open>Everything a command meets outside the program.\<close>

record 's world =
  w_env :: cli_env
  w_turn :: turn_lib
  w_clock :: "u64 option"
  w_rnd :: u32
  w_entropy :: "u8 \<times> u8 \<times> u8"
  w_parse_url :: "string \<Rightarrow> (string \<times> string) option"
  w_host_str :: "string \<Rightarrow> string option res"
  w_attempts :: "attempt list"
  w_p1 :: p1_env
  w_secret :: secret
  w_started :: "unit res"
  w_opened :: "(string \<times> string) res"
  w_inputs :: "tunnel_input list"
  w_send :: "'s send_env"

definition run_cmd ::
  "'x store_lib_scheme \<Rightarrow> spake_lib \<Rightarrow> json_parser \<Rightarrow> 's world \<Rightarrow> cmd \<Rightarrow> fs \<Rightarrow> 's \<Rightarrow> command \<times> 's" where
  "run_cmd L S P W c f s =
     (case c of
        CmdReceive out direct yes ow tunnel relay p2p rendezvous turn \<Rightarrow>
          ((if tunnel then
              receive_tunnel L (w_secret W) (w_started W) (w_opened W) out direct (w_inputs W) f
            else if p2p then
              receive_p1_cli L (w_env W) (w_turn W) (w_clock W) (w_rnd W) (w_host_str W) (w_p1 W)
                (w_entropy W) out yes ow rendezvous turn f
            else
              receive_relay_cli L S P (w_env W) (w_entropy W) out yes ow relay (w_attempts W) f), s)
      | CmdSend code paths txt relay p2p rendezvous turn \<Rightarrow>
          do_send L S P (w_env W) (w_send W) (w_turn W) (w_clock W) (w_rnd W) (w_parse_url W)
            (w_host_str W) code paths txt relay p2p rendezvous turn f s
      | CmdRelay (RelaySet url token) \<Rightarrow> (relay_set (w_env W) url token f, s)
      | CmdRelay RelayShow \<Rightarrow> (relay_show (w_env W) f, s)
      | CmdDoctor target \<Rightarrow>
          (run_doctor L (w_env W) (w_parse_url W) (w_host_str W) target f, s))"

text \<open>The process: an error is printed with its chain, and the exit status is 1.\<close>

definition main_exit :: "command \<Rightarrow> cli_event list \<times> nat option" where
  "main_exit c =
     (case c of
        (evs, None) \<Rightarrow> (evs, None)
      | (evs, Some (Inr _, _)) \<Rightarrow> (evs, Some 0)
      | (evs, Some (Inl e, _)) \<Rightarrow> (evs @ [Stderr (''error: '' @ display_alt e)], Some 1))"

section \<open>The receiver keeps waiting\<close>

text \<open>
  Errors the loop answers by going round again at once, and the transient refusal of a room.
\<close>

definition refused_room :: "err \<Rightarrow> bool" where
  "refused_room e \<longleftrightarrow>
     \<not> rearmable e \<and> (case the_EstablishError e of Some ee \<Rightarrow> is_RoomBusy ee | None \<Rightarrow> False)"

lemma rearm_continue:
  assumes "run a f = Some (Inl e, f')" and "rearmable e"
  shows "snd (rearm_loop run fail b (a # as) f) = snd (rearm_loop run fail 0 as f')"
  using assms by (auto simp: rearmable_def before_def)

lemma rearm_waits:
  assumes "\<And>a f. a \<in> set as \<Longrightarrow>
    run a f = None \<or> (\<exists>e f'. run a f = Some (Inl e, f') \<and> rearmable e)"
  shows "snd (rearm_loop run fail b as f) = None"
  using assms
proof (induction as arbitrary: b f)
  case Nil
  then show ?case by simp
next
  case (Cons a as)
  consider "run a f = None" | e f' where "run a f = Some (Inl e, f')" "rearmable e"
    using Cons.prems [of a f] by auto
  then show ?case
  proof cases
    case 1
    then show ?thesis by simp
  next
    case 2
    show ?thesis unfolding rearm_continue [where run = run, OF 2] by (rule Cons.IH) (use Cons.prems in simp)
  qed
qed

lemma busy_once:
  assumes "run a f = Some (Inl e, f')" and "refused_room e"
  shows "rearm_loop run fail b (a # as) f =
    (if b < 8 then before [Sleep (busy_delay b)] (rearm_loop run fail (b + 1) as f')
     else (fst (fail e), Some (snd (fail e), f')))"
  using assms by (auto simp: refused_room_def rearmable_def split: option.splits prod.split)

lemma busy_delays:
  "map busy_delay [0, 1, 2, 3, 4, 5, 6, 7] = [2, 4, 8, 16, 20, 20, 20, 20]"
  by (simp add: busy_delay_def push_bit_eq_mult)

text \<open>A room that stays taken: eight pauses, 110 seconds in all, then the failure is reported.\<close>

lemma busy_stretch:
  assumes busy: "\<And>a f. run a f = Some (Inl e, f)" and e: "refused_room e" and n: "9 \<le> length as"
  shows "rearm_loop run fail 0 as f =
    (map Sleep [2, 4, 8, 16, 20, 20, 20, 20] @ fst (fail e), Some (snd (fail e), f))"
proof -
  obtain a0 a1 a2 a3 a4 a5 a6 a7 a8 rest where as: "as = a0 # a1 # a2 # a3 # a4 # a5 # a6 # a7 # a8 # rest"
    using n by (auto simp: numeral_eq_Suc Suc_le_length_iff)
  note once = busy_once [where run = run, OF busy e]
  show ?thesis unfolding as using busy_delays by (simp add: once before_def del: rearm_loop.simps)
qed

text \<open>
  Once the peer has joined, nothing it does in the key exchange ends the wait: the attempt ends in
  an error the loop goes round on.
\<close>

lemma hostile_peer_rearms:
  assumes "relay_connect (at_net a) P (rl_url relay) (rv_topic code) Receiver (rl_token relay) (at_waits a) =
      Some (Inr ch)"
    and "snd (play (handshake_over_channel L S (at_rnd a) (at_budget a) (rv_topic code) (rv_secret code) Receiver)
      (at_ins a)) = Some (Inl e)"
    and "receive_attempt L S P relay code out yes ow a f = Some (r, f')"
  shows "\<exists>e'. r = Inl e' \<and> rearmable e' \<and> f' = f"
proof -
  let ?accept = "accept_decision f out yes ow (at_line a)"
  have run: "snd (play (receive_relay L S (at_rnd a) (at_budget a) (Inr ()) (rv_topic code) (rv_secret code) out
      ?accept f) (at_ins a)) = Some (r, f')"
    using assms(1,3) by (simp add: receive_attempt_def)
  let ?g = "\<lambda>r. case r of
            Inl e \<Rightarrow>
              if is_CodeMismatch e \<or> is_TransportLost e then Ret (Inl e, f)
              else Ret (Inl (TransportLost e), f)
          | Inr key \<Rightarrow>
              bindP (recv_into L key out ?accept f) (\<lambda>(r, f).
              case r of
                Inl e \<Rightarrow> Ret (Inl e, f)
              | Inr desc \<Rightarrow> linger (Inr desc, f))"
  obtain rest where "snd (play (bindP (handshake_over_channel L S (at_rnd a) (at_budget a) (rv_topic code)
      (rv_secret code) Receiver) ?g) (at_ins a)) = snd (play (?g (Inl e)) rest)"
    using play_bind [OF assms(2), of ?g] by auto
  then show ?thesis using run by (auto simp: receive_relay_def rearmable_def split: if_splits)
qed

section \<open>Acceptance\<close>

lemma auto_accept_refuses:
  assumes "m_kind m = KFile" and "safe_name (m_name m) = n"
    and "files f out = Some Dir" and "files f (out @ [n]) \<noteq> None"
  shows "\<not> accept_decision f out True False line m"
  using assms by (auto simp: accept_decision_def safe_name_def fs_exists_def Let_def split: option.splits)

lemma prompt_decides:
  "accept_decision f out False ow line m \<longleftrightarrow> (\<exists>l. line = Some l \<and> (trim l = ''y'' \<or> trim l = ''Y''))"
proof -
  have y: "ascii_lower CHR ''Y'' = CHR ''y''" and Y: "ascii_lower CHR ''y'' = CHR ''y''" by code_simp+
  have "ascii_lower c = CHR ''y'' \<longleftrightarrow> c = CHR ''y'' \<or> c = CHR ''Y''" for c
  proof
    assume a: "ascii_lower c = CHR ''y''"
    show "c = CHR ''y'' \<or> c = CHR ''Y''"
    proof (cases "65 \<le> (of_char c :: nat) \<and> (of_char c :: nat) \<le> 90")
      case True
      then have "char_of ((of_char c :: nat) + 32) = CHR ''y''" using a by (simp add: ascii_lower_def Let_def)
      then have "(of_char c :: nat) + 32 = 121" using True of_char_char_of_small [of "of_char c + 32"] by simp
      then have "(of_char c :: nat) = of_char CHR ''Y''" by simp
      then show ?thesis by (metis char_of_char)
    next
      case False
      then show ?thesis using a by (auto simp: ascii_lower_def Let_def)
    qed
  next
    assume "c = CHR ''y'' \<or> c = CHR ''Y''"
    then show "ascii_lower c = CHR ''y''" by (elim disjE) (simp only: Y, simp only: y)
  qed
  then have c: "map ascii_lower s = [CHR ''y''] \<longleftrightarrow> s = ''y'' \<or> s = ''Y''" for s
    by (simp only: map_eq_Cons_conv map_is_Nil_conv) blast
  have m: "map ascii_lower ''y'' = [CHR ''y'']" by (simp only: list.map Y)
  have "eq_ignore_ascii_case s ''y'' \<longleftrightarrow> s = ''y'' \<or> s = ''Y''" for s
    unfolding eq_ignore_ascii_case_def to_ascii_lowercase_def m by (rule c)
  then show ?thesis by (auto simp: accept_decision_def answered_yes_def Let_def split: option.split)
qed

lemma auto_accept_keeps:
  assumes run: "snd (play (recv_into L key out (accept_decision f out True False line) f) ins) = Some (r, f')"
    and kind: "\<And>m. received_manifest L key ins m \<Longrightarrow> m_kind m \<noteq> KTar"
    and out: "files f out = Some Dir" and ex: "files f (out @ [n]) \<noteq> None"
    and nm: "\<not> suffix ''.b2p-partial'' n"
  shows "files f' (out @ [n]) = files f (out @ [n])"
  by (rule recv_keeps_file [OF run kind _ nm]) (use auto_accept_refuses out ex in blast)+

section \<open>The printed codes\<close>

lemma trim_end_last: "s \<noteq> [] \<Longrightarrow> \<not> Q (last s) \<Longrightarrow> trim_end_matches Q s = s"
  by (cases s rule: rev_cases) (simp_all add: trim_end_matches_def)

lemma host_no_slash: "list_all host_char h \<Longrightarrow> CHR ''/'' \<notin> set h \<and> list_all (\<lambda>c. \<not> is_ws c) h"
  by (auto simp: list_all_iff host_char_def is_ascii_alphanumeric_def is_ws_def Let_def)

lemma normalize_wss:
  assumes "list_all host_char host" and "host \<noteq> []"
  shows "normalize_relay_url (''wss://'' @ host) = Inr (''wss://'' @ host)"
proof -
  have ns: "CHR ''/'' \<notin> set host" and nw: "list_all (\<lambda>c. \<not> is_ws c) host" using host_no_slash assms by auto
  have t: "trim (''wss://'' @ host) = ''wss://'' @ host"
    by (rule trim_no_ws) (use nw in \<open>simp add: is_ws_def\<close>)
  have "last (''wss://'' @ host) \<noteq> CHR ''/''"
    unfolding last_appendR [OF assms(2)] using ns last_in_set [OF assms(2)] by metis
  then have e: "trim_end_matches (\<lambda>c. c = CHR ''/'') (''wss://'' @ host) = ''wss://'' @ host"
    by (intro trim_end_last) simp_all
  have "strip_pre ''https://'' (''wss://'' @ host) = None" "strip_pre ''http://'' (''wss://'' @ host) = None"
    by (simp_all add: strip_pre_def)
  then show ?thesis unfolding normalize_relay_url_def t e Let_def by simp
qed

lemma no_scheme_text: "CHR ''/'' \<notin> set h \<Longrightarrow> \<not> contains_str ''://'' h"
proof (induction h)
  case (Cons c cs)
  then show ?case by (auto simp: prefix_def)
qed simp

lemma trim_start_matches_not: "\<not> prefix p s \<Longrightarrow> trim_start_matches p s = s"
  by (subst trim_start_matches.simps) simp

lemma relay_host_wss:
  assumes "CHR ''/'' \<notin> set host"
  shows "relay_host_text (''wss://'' @ host) = host"
proof -
  have n: "\<not> prefix ''wss://'' host" "\<not> prefix ''ws://'' host" using assms by (auto simp: prefix_def)
  have "trim_start_matches ''wss://'' (''wss://'' @ host) = trim_start_matches ''wss://'' host"
    by (subst trim_start_matches.simps) simp
  then show ?thesis using n by (simp add: relay_host_text_def trim_start_matches_not)
qed

text \<open>
  The long code that a receiver on the relay \<^verbatim>\<open>wss://host\<close> prints brings a sender without any
  configuration to the same relay, room and secret.
\<close>

lemma long_code_connects:
  fixes e0 e1 e2 :: u8
  assumes b58: "b58_correct L" and dk: "derive_key_32 L"
    and host: "host \<noteq> []" "list_all host_char host"
    and url: "url = ''wss://'' @ host"
  defines "code \<equiv> generate_human L (e0, e1, e2)"
  shows "\<exists>rc relay. dest_of L parse_url (url_spelling L code (Some (relay_host_text url))) = Inr (DRendezvous rc) \<and>
    rv_topic rc = rv_topic code \<and> rv_secret rc = rv_secret code \<and>
    resolve_relay None (rv_relay_host rc) None env_token default_config = Inr relay \<and>
    rl_url relay = url \<and> rl_token relay = None"
proof -
  have ns: "CHR ''/'' \<notin> set host" using host_no_slash host(2) by blast
  have rh: "relay_host_text url = host" unfolding url by (rule relay_host_wss [OF ns])
  let ?t = "take 16 (blake3_derive_key L TOPIC_CTX [e0])"
  let ?s = "url_spelling L code (Some host)"
  have lt: "length ?t = 16" using dk by (simp add: derive_key_32_def)
  have code: "code = \<lparr>rv_topic = b58_encode L ?t, rv_secret = [e0, e1, e2], rv_relay_host = None, rv_spelling = Human\<rparr>"
    by (simp add: code_def generate_human_def topic_from_channel_def)
  have p: "parse_rendezvous L ?s =
      Inr \<lparr>rv_topic = b58_encode L ?t, rv_secret = [e0, e1, e2], rv_relay_host = Some host, rv_spelling = Url\<rparr>"
    unfolding code by (rule url_roundtrip [OF b58 lt]) (use host in auto)
  have is_rv: "is_rendezvous_code ?s"
  proof (rule ccontr)
    assume no: "\<not> is_rendezvous_code ?s"
    have "\<not> prefix ''b2p://'' (trim ?s)"
      using no unfolding is_rendezvous_code_def Let_def by (metis (full_types))
    from recognised_iff_parses [OF this, of L] show False using no p by blast
  qed
  have "\<not> contains_str ''://'' host" by (rule no_scheme_text [OF ns])
  then have r: "resolve_relay None (Some host) None env_token default_config =
      Inr \<lparr>rl_url = ''wss://'' @ host, rl_token = None\<rparr>"
    using normalize_wss [OF host(2,1)] by (simp add: resolve_relay_def own_relay_def default_config_def)
  show ?thesis unfolding rh dest_of_def using is_rv p r by (simp add: code url)
qed

lemma short_code_connects:
  assumes "show_rendezvous L (generate_human L e) = Inr shown"
  shows "dest_of L parse_url shown = Inr (DRendezvous (generate_human L e))"
  using human_roundtrip [OF assms] by (simp add: dest_of_def)

section \<open>The relay setting\<close>

lemma normalize_idem:
  assumes nw: "list_all (\<lambda>c. \<not> is_ws c) url" and u: "normalize_relay_url url = Inr u"
  shows "normalize_relay_url u = Inr u"
proof -
  define s where "s = trim_end_matches (\<lambda>c. c = CHR ''/'') url"
  have tr: "trim url = url" by (rule trim_no_ws [OF nw])
  have sub: "set s \<subseteq> set url" by (auto simp: s_def trim_end_matches_def dest: set_dropWhileD)
  have nws: "list_all (\<lambda>c. \<not> is_ws c) s" using nw sub by (auto simp: list_all_iff)
  have ls: "last s \<noteq> CHR ''/''" if "s \<noteq> []"
    using that hd_dropWhile [of "\<lambda>c. c = CHR ''/''" "rev url"] by (simp add: s_def trim_end_matches_def last_rev)
  have cases: "(\<exists>rest. s = ''https://'' @ rest \<and> u = ''wss://'' @ rest) \<or>
      (\<exists>rest. s = ''http://'' @ rest \<and> u = ''ws://'' @ rest) \<or>
      (u = s \<and> (prefix ''wss://'' s \<or> prefix ''ws://'' s))"
    using u unfolding normalize_relay_url_def tr s_def [symmetric] Let_def
    by (auto simp: strip_pre_Some split: option.splits if_splits)
  have uw: "u \<noteq> [] \<and> last u \<noteq> CHR ''/'' \<and> list_all (\<lambda>c. \<not> is_ws c) u \<and> (prefix ''wss://'' u \<or> prefix ''ws://'' u)"
    using cases
  proof (elim disjE exE conjE)
    fix rest assume e: "s = ''https://'' @ rest" "u = ''wss://'' @ rest"
    have "rest \<noteq> []" using ls e(1) by auto
    then show ?thesis using ls e nws by (simp add: is_ws_def)
  next
    fix rest assume e: "s = ''http://'' @ rest" "u = ''ws://'' @ rest"
    have "rest \<noteq> []" using ls e(1) by auto
    then show ?thesis using ls e nws by (simp add: is_ws_def)
  qed (use ls nws in \<open>auto simp: prefix_def\<close>)
  have t: "trim u = u" using uw by (simp add: trim_no_ws)
  have te: "trim_end_matches (\<lambda>c. c = CHR ''/'') u = u" using uw by (simp add: trim_end_last)
  have "strip_pre ''https://'' u = None" "strip_pre ''http://'' u = None"
    using uw by (auto simp: strip_pre_def prefix_def)
  then show ?thesis unfolding normalize_relay_url_def t te Let_def using uw by simp
qed

lemma relay_set_used:
  assumes toml: "\<And>c. toml_from_str (ce_toml E) (toml_to_string (ce_toml E) c) = Some c"
    and dir: "ce_config_dir E = Some dir" and nf: "io_fault f = None"
    and nw: "list_all (\<lambda>c. \<not> is_ws c) url"
    and set: "relay_set E url token f = (evs, Some (Inr (), f'))"
  shows "\<exists>cfg u. config_load (ce_toml E) (ce_config_dir E) f' = (Inr cfg, f') \<and> normalize_relay_url url = Inr u \<and>
    resolve_relay None None None None cfg = Inr \<lparr>rl_url = u, rl_token = cf_relay_token cfg\<rparr> \<and>
    (token \<noteq> None \<longrightarrow> cf_relay_token cfg = token)"
proof -
  from set obtain u cfg0 f1 cfg p where u: "normalize_relay_url url = Inr u"
    and ld: "config_load (ce_toml E) (ce_config_dir E) f = (Inr cfg0, f1)"
    and cfg: "cfg = (if token \<noteq> None then cfg0\<lparr>cf_relay := Some u\<rparr>\<lparr>cf_relay_token := token\<rparr>
      else cfg0\<lparr>cf_relay := Some u\<rparr>)"
    and sv: "config_save (ce_toml E) (ce_config_dir E) cfg f1 = (Inr p, f')"
    by (auto simp: relay_set_def Let_def split: sum.splits prod.splits if_splits)
  have "f1 = f" using ld nf dir
    by (auto simp: config_load_def config_path_def fs_read_def split: sum.splits option.splits node.splits if_splits)
  then have load: "config_load (ce_toml E) (ce_config_dir E) f' = (Inr cfg, f')"
    using save_load [OF toml] sv nf dir by simp
  have "cf_relay cfg = Some u" by (simp add: cfg)
  then have "resolve_relay None None None None cfg = Inr \<lparr>rl_url = u, rl_token = cf_relay_token cfg\<rparr>"
    using normalize_idem [OF nw u] by (simp add: resolve_relay_def own_relay_def)
  then show ?thesis using load u by (auto simp: cfg)
qed

end
