(* ===== verification/B2P_Resume.thy ===== *)
theory B2P_Resume
  imports B2P_Session
begin

text \<open>
  A connection that is lost in the middle of a transfer (src/src/stream.rs and src/src/store.rs
  together): whatever number of frames came through, what the receiver leaves on disk can be taken
  up by a later run of the same transfer, and a sender and a receiver that go through it again
  deliver the file.
\<close>

lemma opened_same:
  assumes inv: "store_inv L (st, f)" and js: "state_json_correct L"
    and dir: "st_dir st = partial_dir out_dir nm"
  shows "opened_store L out_dir nm (ss_transfer_id (st_state st)) (ss_total_size (st_state st))
    (ss_chunk_size (st_state st)) f = st"
proof -
  from inv have sp: "store_paths st" and so: "state_ok st" and dk: "disk_ok L st f"
    by (auto simp: store_inv_def)
  have "un_state L (js_state L (st_state st)) = Some (st_state st)"
    using js so by (simp add: state_json_correct_def state_ok_def)
  then have "opened_state L out_dir nm (ss_transfer_id (st_state st)) (ss_total_size (st_state st))
      (ss_chunk_size (st_state st)) f = st_state st"
    using dk dir sp by (simp add: opened_state_def read_result_def loaded_state_def disk_ok_def store_paths_def)
  then show ?thesis using dir sp by (simp add: opened_store_def store_paths_def)
qed

text \<open>A store in the middle of the transfer of \<open>c\<close>: everything it has is a piece of \<open>c\<close>.\<close>

definition midway ::
  "'x store_lib_scheme \<Rightarrow> path \<Rightarrow> string \<Rightarrow> string \<Rightarrow> u64 \<Rightarrow> u64 \<Rightarrow> bytes \<Rightarrow> store \<times> fs \<Rightarrow> bool" where
  "midway L out_dir nm tid tot csz c s \<longleftrightarrow>
     store_inv L s \<and> openable out_dir nm (snd s) \<and> length c = unat tot \<and>
     st_dir (fst s) = partial_dir out_dir nm \<and> ss_transfer_id (st_state (fst s)) = tid \<and>
     ss_total_size (st_state (fst s)) = tot \<and> ss_chunk_size (st_state (fst s)) = csz \<and>
     (\<forall>i \<in> set (ss_have (st_state (fst s))).
        piece (store_data (fst s) (snd s)) csz i = piece c csz i)"

lemma midway_resumable:
  assumes "midway L out_dir nm tid tot csz c (st, f)" and js: "state_json_correct L"
  shows "resumable L out_dir nm tid tot csz c f"
proof -
  from assms(1) have inv: "store_inv L (st, f)" and op: "openable out_dir nm f"
    and len: "length c = unat tot" and dir: "st_dir st = partial_dir out_dir nm"
    and ids: "ss_transfer_id (st_state st) = tid" "ss_total_size (st_state st) = tot"
      "ss_chunk_size (st_state st) = csz"
    and p: "\<forall>i \<in> set (ss_have (st_state st)). piece (store_data st f) csz i = piece c csz i"
    by (simp_all add: midway_def)
  have o: "opened_store L out_dir nm tid tot csz f = st" using opened_same [OF inv js dir] ids by simp
  from inv have "state_ok st" "io_fault f = None" "length (store_data st f) = unat tot"
    using ids by (auto simp: store_inv_def disk_ok_def store_data_def)
  then show ?thesis using op len o p by (simp add: resumable_def)
qed

lemma opened_midway:
  fixes L :: "'x store_lib_scheme" and tid :: string and tot csz :: u64
  assumes "resumable L out_dir nm tid tot csz c f"
  defines "st \<equiv> opened_store L out_dir nm tid tot csz f"
  shows "midway L out_dir nm tid tot csz c (st, opened_fs L st tot f)"
proof -
  let ?f = "opened_fs L st tot f"
  from assms(1) have op: "openable out_dir nm f" and nf: "io_fault f = None" and len: "length c = unat tot"
    and so: "state_ok st" and dl: "ss_have (st_state st) = [] \<or> length (store_data st f) = unat tot"
    and same: "\<forall>i \<in> set (ss_have (st_state st)). piece (store_data st f) csz i = piece c csz i"
    by (simp_all add: resumable_def Let_def st_def)
  have inv: "store_inv L (st, ?f)"
    using opened_inv [OF nf, of L out_dir nm tid tot csz] so by (simp add: st_def)
  have sp: "store_paths st" by (simp add: st_def store_paths_def)
  have data: "store_data st ?f = opened_data st tot f"
    using sp by (simp add: store_data_def opened_fs_def store_paths_def)
  have "store_data st ?f = store_data st f" if "ss_have (st_state st) \<noteq> []"
    using that dl data by (simp add: opened_data_def)
  then have "\<forall>i \<in> set (ss_have (st_state st)). piece (store_data st ?f) csz i = piece c csz i"
    using same by fastforce
  moreover have "openable out_dir nm ?f"
    using op by (auto simp: openable_def opened_fs_def st_def)
  ultimately show ?thesis using inv len
    by (simp add: midway_def st_def opened_store_def opened_state_def loaded_state_ids)
qed

lemma opened_outside:
  assumes "\<not> prefix (partial_dir out_dir nm) q"
  shows "files (opened_fs L (opened_store L out_dir nm tid tot csz f) tot f) q =
    (if prefix q out_dir then Some Dir else files f q)"
proof -
  have nd: "q \<noteq> partial_dir out_dir nm @ xs" for xs using assms by auto
  show ?thesis
    using nd [of "[]"] nd [of "[''data'']"] nd [of "[''state.json'']"] nd [of "[''state.json.tmp'']"]
    by (simp add: opened_fs_def prefix_partial)
qed

lemma midway_write:
  assumes m: "midway L out_dir nm tid tot csz c (st, f)" and i: "unat i < nchunks st"
  shows "write_chunk L st i (piece c csz i) f = (Inr (), add_have st i, after_write L st i (piece c csz i) f) \<and>
    midway L out_dir nm tid tot csz c (add_have st i, after_write L st i (piece c csz i) f)"
proof -
  let ?b = "piece c csz i"
  from m have inv: "store_inv L (st, f)" and op: "openable out_dir nm f" and len: "length c = unat tot"
    and dir: "st_dir st = partial_dir out_dir nm"
    and ids: "ss_transfer_id (st_state st) = tid" "ss_total_size (st_state st) = tot"
      "ss_chunk_size (st_state st) = csz"
    and p: "\<forall>j \<in> set (ss_have (st_state st)). piece (store_data st f) csz j = piece c csz j"
    by (simp_all add: midway_def)
  from inv have sp: "store_paths st" and so: "state_ok st" and dk: "disk_ok L st f" by (auto simp: store_inv_def)
  have b: "length ?b = chunk_bytes st (unat i)"
    using slice_length_chunk [of c st "unat i"] i len ids by simp
  note eff = write_chunk_effect [OF inv i b] and inv' = store_inv_after_write [OF inv i b]
  have dl: "length (store_data st f) = tsize st" using dk by (auto simp: disk_ok_def store_data_def)
  have "piece (store_data (add_have st i) (after_write L st i ?b f)) csz j = piece c csz j"
    if "j \<in> set (ss_have (st_state (add_have st i)))" for j
  proof -
    have "j = i \<or> j \<in> set (ss_have (st_state st))" using that by (auto simp: add_have_def)
    then show ?thesis
      using slice_after_overwrite [OF so i b dl, of "unat j"] p ids
      by (auto simp: data_after_write [OF sp] word_unat_eq_iff)
  qed
  moreover have "openable out_dir nm (after_write L st i ?b f)"
    using op dir sp
    by (rule openable_frame) (use paths_distinct [OF sp] dk in \<open>auto simp: after_write_def\<close>)
  ultimately show ?thesis using eff inv' len dir ids by (simp add: midway_def add_have_def)
qed

section \<open>A receive that breaks off\<close>

lemma frames_cut:
  assumes ok: "aead_correct L" and m: "midway L out_dir nm tid tot STREAM_FRAME_SIZE c (st, f)"
    and rng: "\<forall>i \<in> set is. unat i < nchunks st"
    and cut: "n \<le> length (filter (\<lambda>i. i \<notin> have) is)"
    and last: "\<And>st f. snd (play (k st f) [Inl e]) = Some (Inl e, f)"
  shows "\<exists>st' f'. snd (play (recv_frames L sk have is st f k)
      (map (\<lambda>i. Inr (seal L sk StreamToReceiver (1 + i) [] (frame_of c i)))
         (take n (filter (\<lambda>i. i \<notin> have) is)) @ [Inl e])) = Some (Inl e, f') \<and>
    midway L out_dir nm tid tot STREAM_FRAME_SIZE c (st', f') \<and>
    (\<forall>q. \<not> prefix (partial_dir out_dir nm) q \<longrightarrow> files f' q = files f q)"
  using m rng cut
proof (induction "is" arbitrary: st f n)
  case Nil
  then show ?case using last by auto
next
  case (Cons i js)
  show ?case
  proof (cases "i \<in> have")
    case True
    then show ?thesis using Cons by simp
  next
    case False
    show ?thesis
    proof (cases n)
      case 0
      then show ?thesis using False Cons.prems(1) by auto
    next
      case (Suc n')
      have i: "unat i < nchunks st" using Cons.prems(2) by simp
      note w = midway_write [OF Cons.prems(1) i]
      have kept: "files (after_write L st i (frame_of c i) f) q = files f q"
        if "\<not> prefix (partial_dir out_dir nm) q" for q
        using that Cons.prems(1) by (auto simp: after_write_def midway_def store_inv_def store_paths_def)
      have nc: "nchunks (add_have st i) = nchunks st" by (simp add: nchunks_def add_have_def)
      have "n' \<le> length (filter (\<lambda>i. i \<notin> have) js)" using Cons.prems(3) Suc False by simp
      from Cons.IH [OF conjunct2 [OF w] _ this] show ?thesis
        using Cons.prems(2) nc w kept False Suc by (auto simp: open_seal [OF ok])
    qed
  qed
qed

text \<open>The frames a sender has for a receiver that reports what \<open>st\<close> holds.\<close>

definition missing_frames :: "store \<Rightarrow> u64 list" where
  "missing_frames st =
     filter (\<lambda>i. i \<notin> set (store_have st)) (map of_nat [0..<nchunks st])"

lemma recv_cut:
  fixes L :: "'x store_lib_scheme" and key :: session_key
  assumes ok: "aead_correct L" "json_correct L" and js: "state_json_correct L"
    and acc: "accept (stream_manifest src)" and src: "src = Blob KFile name ents tot tid p spool"
    and res: "resumable L out_dir (safe_name name) tid tot STREAM_FRAME_SIZE c f"
  defines "st \<equiv> opened_store L out_dir (safe_name name) tid tot STREAM_FRAME_SIZE f"
  assumes n: "n \<le> length (missing_frames st)"
  shows "\<exists>f'. snd (play (recv_into L key out_dir accept f)
      (Inr (seal_val L (js_manifest L) (stream_key L key) StreamToReceiver 0 (stream_manifest src)) #
       map (\<lambda>i. Inr (seal L (stream_key L key) StreamToReceiver (1 + i) [] (frame_of c i)))
         (take n (missing_frames st)) @ [Inl e])) = Some (Inl e, f') \<and>
    resumable L out_dir (safe_name name) tid tot STREAM_FRAME_SIZE c f' \<and>
    delivered out_dir (safe_name name) c f' = delivered out_dir (safe_name name) c f \<and>
    files f' (out_dir @ [safe_name name]) = files f (out_dir @ [safe_name name])"
proof -
  let ?m = "stream_manifest src" and ?nm = "safe_name name" and ?sk = "stream_key L key"
  have mf: "m_version ?m = PROTOCOL_VERSION" "m_kind ?m = KFile" "m_name ?m = name" "m_transfer_id ?m = tid"
    "m_total_size ?m = tot" "m_chunk_size ?m = STREAM_FRAME_SIZE"
    by (simp_all add: stream_manifest_def src)
  from res have op: "openable out_dir ?nm f" and nf: "io_fault f = None" and so: "state_ok st"
    by (simp_all add: resumable_def Let_def st_def)
  have oc: "open_or_create L out_dir ?nm tid tot STREAM_FRAME_SIZE f = (Inr st, opened_fs L st tot f)"
    unfolding st_def by (rule open_effect [OF op nf])
  obtain tc where tc: "manifest_total_chunks ?m = Inr tc" "unat tc = ceil_nat (unat tot) 16384"
    using div_ceil_nat [OF frame_size_nat(2), of tot] mf by (auto simp: manifest_total_chunks_def)
  have nc: "nchunks st = unat tc" using tc(2) by (simp add: nchunks_def st_def)
  have mi: "missing_frames st = filter (\<lambda>i. i \<notin> set (store_have st)) (index_range tc)"
    by (simp add: missing_frames_def index_range_def nc)
  have rng: "\<forall>i \<in> set (index_range tc). unat i < nchunks st" using nc by (simp add: set_index_range)
  have last: "snd (play (recv_commit L ?sk ?m tc out_dir ?nm st1 f1) [Inl e]) = Some (Inl e, f1)" for st1 f1
    by (simp add: recv_commit_def)
  obtain st' f' where cut: "snd (play (recv_frames L ?sk (set (store_have st)) (index_range tc) st
        (opened_fs L st tot f) (recv_commit L ?sk ?m tc out_dir ?nm))
      (map (\<lambda>i. Inr (seal L ?sk StreamToReceiver (1 + i) [] (frame_of c i)))
         (take n (missing_frames st)) @ [Inl e])) = Some (Inl e, f')"
    and mid: "midway L out_dir ?nm tid tot STREAM_FRAME_SIZE c (st', f')"
    and kept: "\<And>q. \<not> prefix (partial_dir out_dir ?nm) q \<Longrightarrow> files f' q = files (opened_fs L st tot f) q"
    using frames_cut [where k = "recv_commit L ?sk ?m tc out_dir ?nm", OF ok(1) opened_midway [OF res, folded st_def] rng n [unfolded mi] last, of ?sk]
    unfolding mi by blast
  obtain complete where ic: "is_complete st = Inr complete" using is_complete_iff [OF so] by blast
  have "snd (play (recv_into L key out_dir accept f)
      (Inr (seal_val L (js_manifest L) ?sk StreamToReceiver 0 ?m) #
       map (\<lambda>i. Inr (seal L ?sk StreamToReceiver (1 + i) [] (frame_of c i)))
         (take n (missing_frames st)) @ [Inl e])) = Some (Inl e, f')"
    using cut by (simp add: recv_into_def Let_def open_frames [OF ok] mf acc io_or_def oc ic tc(1))
  moreover have out: "files f' q = (if prefix q out_dir then Some Dir else files f q)"
    if "\<not> prefix (partial_dir out_dir ?nm) q" for q
    unfolding st_def using kept [OF that] opened_outside [OF that, of L tid tot STREAM_FRAME_SIZE f]
    by (simp add: st_def)
  then have "delivered out_dir ?nm c f' = delivered out_dir ?nm c f" by (auto simp: delivered_def)
  moreover have "files f' (out_dir @ [?nm]) = files f (out_dir @ [?nm])"
    using out [OF partial_not_prefix] by simp
  ultimately show ?thesis using midway_resumable [OF mid js] by blast
qed

end
