(* ===== verification/B2P_Stun.thy ===== *)
theory B2P_Stun
  imports B2P_Prelude
begin

text \<open>
  The STUN probe of the network diagnosis (src/src/stun.rs): the binding request, the recogniser of
  its answer, the parser of XOR-MAPPED-ADDRESS and the classification of the NAT. Indexing is
  checked, so a panic of the parser would be an \<open>Inl\<close>. The UDP socket and the resolver are
  arguments: what they return to one query.
\<close>

unbundle bit_operations_syntax

section \<open>Checked access to a buffer\<close>

definition byte_at :: "bytes \<Rightarrow> nat \<Rightarrow> u8 res" where
  "byte_at bs i = (if i < length bs then Inr (bs ! i) else Inl (Panic ''index out of bounds''))"

definition be16 :: "u8 \<Rightarrow> u8 \<Rightarrow> u16" where
  "be16 a b = of_nat (256 * unat a + unat b)"

definition be16_at :: "bytes \<Rightarrow> nat \<Rightarrow> u16 res" where
  "be16_at bs i = bindR (byte_at bs i) (\<lambda>a. bindR (byte_at bs (i + 1)) (\<lambda>b. Inr (be16 a b)))"

definition xor_at :: "bytes \<Rightarrow> nat \<Rightarrow> bytes \<Rightarrow> bytes res" where
  "xor_at bs i key =
     (if i + length key \<le> length bs then Inr (map2 (XOR) (take (length key) (drop i bs)) key)
      else Inl (Panic ''index out of bounds''))"

section \<open>Messages\<close>

definition MAGIC_COOKIE :: bytes where
  "MAGIC_COOKIE = [0x21, 0x12, 0xA4, 0x42]"

definition encode_binding_request :: "bytes \<Rightarrow> bytes" where
  "encode_binding_request txn_id = [0x00, 0x01] @ [0, 0] @ MAGIC_COOKIE @ txn_id"

definition is_binding_response :: "bytes \<Rightarrow> bytes \<Rightarrow> bool" where
  "is_binding_response resp txn_id \<longleftrightarrow>
     20 \<le> length resp \<and> take 4 (drop 4 resp) = MAGIC_COOKIE \<and> take 12 (drop 8 resp) = txn_id"

datatype socket_addr = V4 bytes u16 | V6 bytes u16

fun is_ipv4 :: "socket_addr \<Rightarrow> bool" where
  "is_ipv4 (V4 _ _) = True"
| "is_ipv4 (V6 _ _) = False"

text \<open>The value of one XOR-MAPPED-ADDRESS attribute of length \<open>len\<close> at offset \<open>val\<close>.\<close>

definition mapped_value :: "bytes \<Rightarrow> bytes \<Rightarrow> nat \<Rightarrow> nat \<Rightarrow> socket_addr option res" where
  "mapped_value resp txn_id val len =
     bindR (be16_at resp (val + 2)) (\<lambda>xport.
     let port = xport XOR 0x2112 in
     bindR (byte_at resp (val + 1)) (\<lambda>family.
     if family = 0x01 \<and> 8 \<le> len then
       bindR (xor_at resp (val + 4) MAGIC_COOKIE) (\<lambda>a. Inr (Some (V4 a port)))
     else if family = 0x02 \<and> 20 \<le> len then
       bindR (xor_at resp (val + 4) (MAGIC_COOKIE @ txn_id)) (\<lambda>a. Inr (Some (V6 a port)))
     else Inr None))"

lemma bindR_cong [fundef_cong]:
  "r = r' \<Longrightarrow> (\<And>v. r' = Inr v \<Longrightarrow> f v = g v) \<Longrightarrow> bindR r f = bindR r' g"
  by (cases r') auto

function attr_loop :: "bytes \<Rightarrow> bytes \<Rightarrow> nat \<Rightarrow> socket_addr option res" where
  "attr_loop resp txn_id i =
     (if i + 4 \<le> length resp then
        bindR (be16_at resp i) (\<lambda>attr_type.
        bindR (be16_at resp (i + 2)) (\<lambda>l.
        let len = unat l; val = i + 4; fin = val + len in
        if fin > length resp then Inr None
        else if attr_type = 0x0020 \<and> 4 \<le> len then mapped_value resp txn_id val len
        else attr_loop resp txn_id (fin + (4 - len mod 4) mod 4)))
      else Inr None)"
  by pat_completeness auto
termination
  by (relation "measure (\<lambda>(resp, _, i). length resp - i)") auto

declare attr_loop.simps [simp del]

definition parse_xor_mapped_address :: "bytes \<Rightarrow> bytes \<Rightarrow> socket_addr option res" where
  "parse_xor_mapped_address resp txn_id =
     (if \<not> is_binding_response resp txn_id then Inr None else attr_loop resp txn_id 20)"

section \<open>Queries\<close>

text \<open>
  The receive buffer holds 256 bytes, so a longer datagram is cut. \<open>recv\<close> is what the socket
  returns before the deadline, \<open>None\<close> when the time is over.
\<close>

definition BUF :: nat where
  "BUF = 256"

definition stun_probe :: "string \<Rightarrow> unit res \<Rightarrow> bytes \<Rightarrow> unit res \<Rightarrow> bytes res option \<Rightarrow> unit res" where
  "stun_probe server bound txn_id sent recv =
     bindR bound (\<lambda>_.
     bindR (context_of (''sending STUN request to '' @ server) sent) (\<lambda>_.
     bindR (ok_or (Ctx ''no STUN response (UDP may be blocked)'' (Msg ''deadline has elapsed'')) recv) (\<lambda>r.
     bindR r (\<lambda>d.
     if is_binding_response (take BUF d) txn_id then Inr ()
     else Inl (Msg ''response was not a STUN answer to our request'')))))"

text \<open>One query: the resolver's answer, the transaction, whether the send worked, the datagrams
  (or socket errors) that arrive before the deadline.\<close>

record stun_query =
  q_lookup :: "socket_addr list option"
  q_txn :: bytes
  q_sent :: bool
  q_recv :: "bytes option list"

fun query_loop :: "bytes \<Rightarrow> bytes option list \<Rightarrow> socket_addr option res" where
  "query_loop txn_id [] = Inr None"
| "query_loop txn_id (None # _) = Inr None"
| "query_loop txn_id (Some d # ds) =
     bindR (parse_xor_mapped_address (take BUF d) txn_id) (\<lambda>a.
     case a of Some addr \<Rightarrow> Inr (Some addr) | None \<Rightarrow> query_loop txn_id ds)"

definition query_mapped :: "stun_query \<Rightarrow> socket_addr option res" where
  "query_mapped q =
     (case q_lookup q of
        None \<Rightarrow> Inr None
      | Some as \<Rightarrow>
          (case find is_ipv4 as of
             None \<Rightarrow> Inr None
           | Some target \<Rightarrow> if q_sent q then query_loop (q_txn q) (q_recv q) else Inr None))"

section \<open>NAT classification\<close>

datatype nat_class =
    EndpointIndependent socket_addr
  | Symmetric "socket_addr list"
  | OneResponse socket_addr
  | NoResponse

fun classify_mapping :: "socket_addr list \<Rightarrow> nat_class" where
  "classify_mapping [] = NoResponse"
| "classify_mapping [one] = OneResponse one"
| "classify_mapping (a # b # rest) =
     (if list_all (\<lambda>x. x = a) (a # b # rest) then EndpointIndependent a
      else Symmetric (a # b # rest))"

fun probe_all :: "stun_query list \<Rightarrow> socket_addr list res" where
  "probe_all [] = Inr []"
| "probe_all (q # qs) =
     bindR (query_mapped q) (\<lambda>a.
     bindR (probe_all qs) (\<lambda>rest.
     Inr (case a of Some addr \<Rightarrow> addr # rest | None \<Rightarrow> rest)))"

definition nat_mapping :: "bool \<Rightarrow> stun_query list \<Rightarrow> nat_class res" where
  "nat_mapping bound qs =
     (if bound then bindR (probe_all qs) (\<lambda>mapped. Inr (classify_mapping mapped)) else Inr NoResponse)"

section \<open>The parser is total\<close>

lemma byte_at_ok: "i < length bs \<Longrightarrow> byte_at bs i = Inr (bs ! i)"
  by (simp add: byte_at_def)

lemma be16_at_ok: "i + 2 \<le> length bs \<Longrightarrow> be16_at bs i = Inr (be16 (bs ! i) (bs ! (i + 1)))"
  by (simp add: be16_at_def byte_at_ok)

lemma mapped_value_total:
  assumes "length txn_id = 12" and "4 \<le> len" and "val + len \<le> length resp"
  shows "\<exists>a. mapped_value resp txn_id val len = Inr a"
  using assms by (auto simp: mapped_value_def Let_def be16_at_ok byte_at_ok xor_at_def MAGIC_COOKIE_def)

lemma attr_loop_total: "length txn_id = 12 \<Longrightarrow> \<exists>a. attr_loop resp txn_id i = Inr a"
proof (induction resp txn_id i rule: attr_loop.induct)
  case (1 resp txn_id i)
  show ?case
  proof (cases "i + 4 \<le> length resp")
    case False
    then show ?thesis by (simp add: attr_loop.simps [of resp])
  next
    case True
    let ?l = "be16 (resp ! (i + 2)) (resp ! (i + 3))"
    have rd: "be16_at resp i = Inr (be16 (resp ! i) (resp ! (i + 1)))" "be16_at resp (i + 2) = Inr ?l"
      using True be16_at_ok [of i resp] be16_at_ok [of "i + 2" resp] by (simp_all add: numeral_3_eq_3)
    note IH = 1(1) [OF True rd(1) rd(2) refl refl refl _ _ 1(2)]
    have one: "attr_loop resp txn_id i =
        (if i + 4 + unat ?l > length resp then Inr None
         else if be16 (resp ! i) (resp ! (i + 1)) = 0x0020 \<and> 4 \<le> unat ?l
           then mapped_value resp txn_id (i + 4) (unat ?l)
         else attr_loop resp txn_id (i + 4 + unat ?l + (4 - unat ?l mod 4) mod 4))"
      using True rd by (simp add: attr_loop.simps [of resp] Let_def)
    show ?thesis
      using one IH mapped_value_total [OF 1(2), of "unat ?l" "i + 4" resp] by (auto split: if_splits)
  qed
qed

lemma parse_total: "length txn_id = 12 \<Longrightarrow> \<exists>a. parse_xor_mapped_address resp txn_id = Inr a"
  by (simp add: parse_xor_mapped_address_def attr_loop_total)

section \<open>The wire format\<close>

text \<open>RFC 5389: a message is a header and a sequence of padded attributes.\<close>

definition be16_bytes :: "u16 \<Rightarrow> bytes" where
  "be16_bytes w = [of_nat (unat w div 256), of_nat (unat w mod 256)]"

definition encode_attr :: "u16 \<times> bytes \<Rightarrow> bytes" where
  "encode_attr a = be16_bytes (fst a) @ be16_bytes (of_nat (length (snd a))) @ snd a @
     replicate ((4 - length (snd a) mod 4) mod 4) 0"

definition binding_success :: "bytes \<Rightarrow> (u16 \<times> bytes) list \<Rightarrow> bytes" where
  "binding_success txn_id attrs =
     (let body = concat (map encode_attr attrs) in
      [0x01, 0x01] @ be16_bytes (of_nat (length body)) @ MAGIC_COOKIE @ txn_id @ body)"

fun xor_value :: "bytes \<Rightarrow> socket_addr \<Rightarrow> bytes" where
  "xor_value txn_id (V4 a p) = [0, 1] @ be16_bytes (p XOR 0x2112) @ map2 (XOR) a MAGIC_COOKIE"
| "xor_value txn_id (V6 a p) = [0, 2] @ be16_bytes (p XOR 0x2112) @ map2 (XOR) a (MAGIC_COOKIE @ txn_id)"

fun addr_ok :: "socket_addr \<Rightarrow> bool" where
  "addr_ok (V4 a p) = (length a = 4)"
| "addr_ok (V6 a p) = (length a = 16)"

lemma be16_be16_bytes: "be16 (of_nat (unat w div 256)) (of_nat (unat w mod 256)) = w"
proof -
  have "unat w < 65536" using unsigned_less [of w] by simp
  then have "unat w div 256 < 256" by simp
  then have "unat (of_nat (unat w div 256) :: u8) = unat w div 256"
    "unat (of_nat (unat w mod 256) :: u8) = unat w mod 256"
    by (simp_all add: unat_of_nat)
  then have "256 * unat (of_nat (unat w div 256) :: u8) + unat (of_nat (unat w mod 256) :: u8) = unat w"
    by simp
  then show ?thesis by (simp only: be16_def) simp
qed

lemma length_be16_bytes [simp]: "length (be16_bytes w) = 2"
  by (simp add: be16_bytes_def)

lemma be16_at_here: "be16_at (xs @ be16_bytes w @ ys) (length xs) = Inr w"
  by (simp add: be16_at_ok nth_append be16_be16_bytes be16_bytes_def)

lemma be16_at_off: "i = length xs \<Longrightarrow> be16_at (xs @ be16_bytes w @ ys) i = Inr w"
  using be16_at_here by simp

lemma attr_loop_step:
  assumes "be16_at r i = Inr ty" and "be16_at r (i + 2) = Inr l" and "i + 4 + unat l \<le> length r"
  shows "attr_loop r txn_id i =
    (if ty = 0x0020 \<and> 4 \<le> unat l then mapped_value r txn_id (i + 4) (unat l)
     else attr_loop r txn_id (i + 4 + unat l + (4 - unat l mod 4) mod 4))"
  using assms by (subst attr_loop.simps) (simp add: Let_def del: add_2_eq_Suc')

lemma attr_loop_skip:
  assumes "ty \<noteq> 0x0020" and "length v < 65536"
  shows "attr_loop (pre0 @ encode_attr (ty, v) @ rest) txn_id (length pre0) =
    attr_loop (pre0 @ encode_attr (ty, v) @ rest) txn_id (length (pre0 @ encode_attr (ty, v)))"
proof -
  let ?r = "pre0 @ encode_attr (ty, v) @ rest"
  have r1: "be16_at ?r (length pre0) = Inr ty"
    unfolding encode_attr_def using be16_at_here by simp
  have "?r = (pre0 @ be16_bytes ty) @ be16_bytes (of_nat (length v)) @
      (v @ replicate ((4 - length v mod 4) mod 4) 0 @ rest)" by (simp add: encode_attr_def)
  then have r2: "be16_at ?r (length pre0 + 2) = Inr (of_nat (length v))"
    using be16_at_off [of "length pre0 + 2" "pre0 @ be16_bytes ty"] by simp
  have u: "unat (of_nat (length v) :: u16) = length v" using assms(2) by (simp add: unat_of_nat)
  have len: "length (pre0 @ encode_attr (ty, v)) = length pre0 + 4 + length v + (4 - length v mod 4) mod 4"
    by (simp add: encode_attr_def)
  have "length pre0 + 4 + unat (of_nat (length v) :: u16) \<le> length ?r"
    unfolding u by (simp add: encode_attr_def)
  from attr_loop_step [OF r1 r2 this, of txn_id] show ?thesis using assms(1) unfolding len u by simp
qed

lemma xor_xor_list:
  fixes a k :: bytes
  assumes "length a = length k"
  shows "map2 (XOR) (map2 (XOR) a k) k = a"
  using assms by (induction a k rule: list_induct2) (simp_all add: xor.assoc)

lemma xor_at_here:
  assumes "length v = length key"
  shows "xor_at (xs @ v @ ys) (length xs) key = Inr (map2 (XOR) v key)"
  using assms by (simp add: xor_at_def)

lemma mapped_value_here:
  assumes txn: "length txn_id = 12" and ok: "addr_ok addr"
  shows "mapped_value (pre0 @ xor_value txn_id addr @ rest) txn_id (length pre0) (length (xor_value txn_id addr)) =
    Inr (Some addr)"
proof -
  obtain f a p key where x: "xor_value txn_id addr = [0, f] @ be16_bytes (p XOR 0x2112) @ map2 (XOR) a key"
    and la: "length a = length key" and
    c: "(f = 1 \<and> addr = V4 a p \<and> key = MAGIC_COOKIE) \<or> (f = 2 \<and> addr = V6 a p \<and> key = MAGIC_COOKIE @ txn_id)"
    using ok txn by (cases addr) (auto simp: MAGIC_COOKIE_def)
  let ?r = "pre0 @ xor_value txn_id addr @ rest"
  have r: "?r = (pre0 @ [0, f]) @ be16_bytes (p XOR 0x2112) @ (map2 (XOR) a key @ rest)"
    "?r = (pre0 @ [0, f] @ be16_bytes (p XOR 0x2112)) @ map2 (XOR) a key @ rest" by (simp_all add: x)
  have port: "be16_at ?r (length pre0 + 2) = Inr (p XOR 0x2112)" unfolding r(1) by (rule be16_at_off) simp
  have fam: "byte_at ?r (length pre0 + 1) = Inr f" by (simp add: byte_at_def x nth_append)
  have adr: "xor_at ?r (length pre0 + 4) key = Inr a"
    using xor_at_here [of "map2 (XOR) a key" key "pre0 @ [0, f] @ be16_bytes (p XOR 0x2112)" rest] la
    unfolding r(2) [symmetric] by (simp add: xor_xor_list)
  have pp: "(p XOR 0x2112) XOR 0x2112 = p" by (simp add: xor.assoc)
  have len: "length (xor_value txn_id addr) = 4 + length key" using la by (simp add: x)
  have sz: "length key = (if f = 1 then 4 else 16)" using c txn by (auto simp: MAGIC_COOKIE_def)
  have "mapped_value r txn_id i n = Inr (Some addr)"
    if "be16_at r (i + 2) = Inr (p XOR 0x2112)" "byte_at r (i + 1) = Inr f" "xor_at r (i + 4) key = Inr a"
      "n = 4 + length key" for r i n
    using c by (elim disjE) (use sz that pp in \<open>simp_all add: mapped_value_def\<close>)
  then show ?thesis using port fam adr len .
qed

lemma attr_loop_finds:
  assumes txn: "length txn_id = 12" and ok: "addr_ok addr"
    and pre: "\<forall>(ty, v) \<in> set pre. ty \<noteq> 0x0020 \<and> length v < 65536"
  shows "attr_loop (pre0 @ concat (map encode_attr pre) @ encode_attr (0x0020, xor_value txn_id addr) @ rest)
     txn_id (length pre0) = Inr (Some addr)"
  using pre
proof (induction pre arbitrary: pre0)
  case Nil
  let ?v = "xor_value txn_id addr"
  let ?pad = "replicate ((4 - length ?v mod 4) mod 4) (0 :: u8)"
  let ?r = "pre0 @ encode_attr (0x0020, ?v) @ rest"
  have lv: "4 \<le> length ?v" "length ?v < 65536" using ok txn by (cases addr; simp add: MAGIC_COOKIE_def)+
  have r: "?r = pre0 @ be16_bytes 0x0020 @ (be16_bytes (of_nat (length ?v)) @ ?v @ ?pad @ rest)"
    "?r = (pre0 @ be16_bytes 0x0020) @ be16_bytes (of_nat (length ?v)) @ (?v @ ?pad @ rest)"
    "?r = (pre0 @ be16_bytes 0x0020 @ be16_bytes (of_nat (length ?v))) @ ?v @ (?pad @ rest)"
    by (simp_all add: encode_attr_def)
  have r1: "be16_at ?r (length pre0) = Inr 0x0020" unfolding r(1) by (rule be16_at_here)
  have r2: "be16_at ?r (length pre0 + 2) = Inr (of_nat (length ?v))" unfolding r(2) by (rule be16_at_off) simp
  have u: "unat (of_nat (length ?v) :: u16) = length ?v" using lv(2) by (simp add: unat_of_nat)
  have m: "mapped_value ?r txn_id (length pre0 + 4) (length ?v) = Inr (Some addr)"
    using mapped_value_here [OF txn ok, of "pre0 @ be16_bytes 0x0020 @ be16_bytes (of_nat (length ?v))" "?pad @ rest"]
    unfolding r(3) [symmetric] by simp
  have "length pre0 + 4 + unat (of_nat (length ?v) :: u16) \<le> length ?r"
    unfolding u by (simp add: encode_attr_def)
  from attr_loop_step [OF r1 r2 this, of txn_id] have "attr_loop ?r txn_id (length pre0) = Inr (Some addr)"
    using lv(1) m unfolding u by simp
  then show ?case by simp
next
  case (Cons a pre)
  obtain ty v where a: "a = (ty, v)" by (cases a)
  show ?case
    using Cons.IH [of "pre0 @ encode_attr a"] Cons.prems a
      attr_loop_skip [of ty v pre0 "concat (map encode_attr pre) @ encode_attr (0x0020, xor_value txn_id addr) @ rest" txn_id]
    by simp
qed

lemma parse_binding_success:
  assumes txn: "length txn_id = 12" and ok: "addr_ok addr"
    and pre: "\<forall>(ty, v) \<in> set pre. ty \<noteq> 0x0020 \<and> length v < 65536"
  shows "parse_xor_mapped_address (binding_success txn_id (pre @ (0x0020, xor_value txn_id addr) # post)) txn_id =
    Inr (Some addr)"
proof -
  let ?m = "binding_success txn_id (pre @ (0x0020, xor_value txn_id addr) # post)"
  let ?body = "concat (map encode_attr (pre @ (0x0020, xor_value txn_id addr) # post))"
  let ?pre0 = "[0x01, 0x01] @ be16_bytes (of_nat (length ?body)) @ MAGIC_COOKIE @ txn_id"
  have m: "?m = ?pre0 @ concat (map encode_attr pre) @ encode_attr (0x0020, xor_value txn_id addr) @
      concat (map encode_attr post)"
    by (simp add: binding_success_def Let_def)
  have lh: "length ?pre0 = 20" using txn by (simp add: MAGIC_COOKIE_def)
  have "is_binding_response ?m txn_id"
    using txn unfolding m by (simp add: is_binding_response_def be16_bytes_def MAGIC_COOKIE_def)
  moreover have "attr_loop ?m txn_id (length ?pre0) = Inr (Some addr)"
    unfolding m by (rule attr_loop_finds [OF txn ok pre])
  ultimately show ?thesis unfolding lh by (simp add: parse_xor_mapped_address_def)
qed

lemma foreign_ignored: "\<not> is_binding_response resp txn_id \<Longrightarrow> parse_xor_mapped_address resp txn_id = Inr None"
  by (simp add: parse_xor_mapped_address_def)

lemma request_echo:
  "length txn_id = 12 \<Longrightarrow> length (encode_binding_request txn_id) = 20 \<and>
   is_binding_response (encode_binding_request txn_id) txn_id"
  by (simp add: encode_binding_request_def is_binding_response_def MAGIC_COOKIE_def)

section \<open>Queries and classification\<close>

lemma query_loop_strays:
  assumes "\<forall>d \<in> set strays. \<not> is_binding_response (take BUF d) txn_id"
    and "parse_xor_mapped_address (take BUF d) txn_id = Inr (Some addr)"
  shows "query_loop txn_id (map Some strays @ Some d # rest) = Inr (Some addr)"
  using assms by (induction strays) (simp_all add: foreign_ignored)

lemma query_loop_total: "length txn_id = 12 \<Longrightarrow> \<exists>a. query_loop txn_id ds = Inr a"
proof (induction txn_id ds rule: query_loop.induct)
  case (3 txn_id d ds)
  obtain a where "parse_xor_mapped_address (take BUF d) txn_id = Inr a" using parse_total [OF 3(2)] by blast
  then show ?case using 3 by (cases a) auto
qed auto

lemma query_mapped_total: "length (q_txn q) = 12 \<Longrightarrow> \<exists>a. query_mapped q = Inr a"
  using query_loop_total [of "q_txn q" "q_recv q"] by (auto simp: query_mapped_def split: option.splits)

lemma probe_all_answers:
  assumes "list_all2 (\<lambda>q a. query_mapped q = Inr a) qs as"
  shows "probe_all qs = Inr (map the (filter (\<lambda>a. a \<noteq> None) as))"
  using assms by (induction rule: list_all2_induct) (auto split: option.splits)

lemma classify_cases:
  shows "classify_mapping as = NoResponse \<longleftrightarrow> as = []"
    and "classify_mapping as = OneResponse a \<longleftrightarrow> as = [a]"
    and "classify_mapping as = EndpointIndependent a \<longleftrightarrow> 2 \<le> length as \<and> set as = {a}"
    and "classify_mapping as = Symmetric bs \<longleftrightarrow> bs = as \<and> (\<exists>x \<in> set as. \<exists>y \<in> set as. x \<noteq> y)"
  by (induction as rule: classify_mapping.induct) (auto simp: list_all_iff)

end
