(* ===== verification/B2P_Reference.thy ===== *)
theory B2P_Reference
  imports B2P_Store B2P_Handshake
begin

text \<open>
  A computable instance of the third-party code the model takes as arguments: it satisfies every
  law the theorems assume (\<open>aead_correct\<close>, \<open>aead_tag16\<close>, \<open>derive_key_32\<close>, \<open>b58_correct\<close>, \<open>json_correct\<close>,
  \<open>state_json_correct\<close>, \<open>confirmations_differ\<close>, \<open>spake_correct\<close>), so the laws are consistent and the
  theorems apply to something. The serializers are built from a small set of combinators whose
  contract is the locale \<open>codec\<close>.
\<close>

type_synonym 'a getter = "bytes \<Rightarrow> ('a \<times> bytes) option"

definition run_getter :: "'a getter \<Rightarrow> bytes \<Rightarrow> 'a option" where
  "run_getter get b = (case get b of Some (v, []) \<Rightarrow> Some v | _ \<Rightarrow> None)"

locale codec =
  fixes put :: "'a \<Rightarrow> bytes" and get :: "'a getter"
  assumes get_put: "get (put v @ rest) = Some (v, rest)"
begin

lemma run_put: "run_getter get (put v) = Some v"
  using get_put [of v "[]"] by (simp add: run_getter_def)

end

section \<open>Combinators\<close>

definition put_u64 :: "u64 \<Rightarrow> bytes" where
  "put_u64 w = u64_le_bytes w"

definition get_u64 :: "u64 getter" where
  "get_u64 b = (if length b < 8 then None else Some (of_nat (nat_of_le (take 8 b)), drop 8 b))"

definition put_u32 :: "u32 \<Rightarrow> bytes" where
  "put_u32 w = u32_le_bytes w"

definition get_u32 :: "u32 getter" where
  "get_u32 b = (if length b < 4 then None else Some (u32_from_le (take 4 b), drop 4 b))"

fun get_len :: "nat getter" where
  "get_len [] = None"
| "get_len (x # xs) =
     (if x = 0 then Some (0, xs) else map_option (\<lambda>(n, r). (Suc n, r)) (get_len xs))"

definition put_len :: "nat \<Rightarrow> bytes" where
  "put_len n = replicate n 1 @ [0]"

fun get_items :: "'a getter \<Rightarrow> nat \<Rightarrow> 'a list getter" where
  "get_items get 0 b = Some ([], b)"
| "get_items get (Suc n) b =
     (case get b of
        None \<Rightarrow> None
      | Some (v, r) \<Rightarrow> map_option (\<lambda>(vs, r'). (v # vs, r')) (get_items get n r))"

definition put_list :: "('a \<Rightarrow> bytes) \<Rightarrow> 'a list \<Rightarrow> bytes" where
  "put_list put vs = put_len (length vs) @ concat (map put vs)"

definition get_list :: "'a getter \<Rightarrow> 'a list getter" where
  "get_list get b = (case get_len b of None \<Rightarrow> None | Some (n, r) \<Rightarrow> get_items get n r)"

definition put_char :: "char \<Rightarrow> bytes" where
  "put_char c = [of_nat (of_char c)]"

definition get_char :: "char getter" where
  "get_char b = (case b of [] \<Rightarrow> None | x # xs \<Rightarrow> Some (char_of (unat x), xs))"

definition put_bool :: "bool \<Rightarrow> bytes" where
  "put_bool v = [if v then 1 else 0]"

definition get_bool :: "bool getter" where
  "get_bool b = (case b of [] \<Rightarrow> None | x # xs \<Rightarrow> Some (x = 1, xs))"

definition put_opt :: "('a \<Rightarrow> bytes) \<Rightarrow> 'a option \<Rightarrow> bytes" where
  "put_opt put v = (case v of None \<Rightarrow> [0] | Some x \<Rightarrow> 1 # put x)"

definition get_opt :: "'a getter \<Rightarrow> 'a option getter" where
  "get_opt get b =
     (case b of [] \<Rightarrow> None
      | x # xs \<Rightarrow> if x = 0 then Some (None, xs) else map_option (\<lambda>(v, r). (Some v, r)) (get xs))"

definition put_pair :: "('a \<Rightarrow> bytes) \<Rightarrow> ('b \<Rightarrow> bytes) \<Rightarrow> 'a \<times> 'b \<Rightarrow> bytes" where
  "put_pair p q v = p (fst v) @ q (snd v)"

definition get_pair :: "'a getter \<Rightarrow> 'b getter \<Rightarrow> ('a \<times> 'b) getter" where
  "get_pair g h b =
     (case g b of None \<Rightarrow> None | Some (x, r) \<Rightarrow> map_option (\<lambda>(y, r'). ((x, y), r')) (h r))"

definition put_via :: "('b \<Rightarrow> 'a) \<Rightarrow> ('a \<Rightarrow> bytes) \<Rightarrow> 'b \<Rightarrow> bytes" where
  "put_via f p v = p (f v)"

definition get_via :: "('a \<Rightarrow> 'b) \<Rightarrow> 'a getter \<Rightarrow> 'b getter" where
  "get_via g h b = map_option (\<lambda>(x, r). (g x, r)) (h b)"

lemma codec_u64: "codec put_u64 get_u64"
  by unfold_locales (simp add: put_u64_def get_u64_def nat_of_u64_le)

lemma codec_u32: "codec put_u32 get_u32"
  by unfold_locales (simp add: put_u32_def get_u32_def)

lemma get_put_len: "get_len (put_len n @ rest) = Some (n, rest)"
  by (induction n) (simp_all add: put_len_def)

lemma codec_list: "codec put get \<Longrightarrow> codec (put_list put) (get_list get)"
proof -
  assume c: "codec put get"
  have "get_items get (length vs) (concat (map put vs) @ rest) = Some (vs, rest)" for vs rest
    by (induction vs) (simp_all add: codec.get_put [OF c])
  then show ?thesis by unfold_locales (simp add: put_list_def get_list_def get_put_len)
qed

lemma codec_char: "codec put_char get_char"
proof
  fix c :: char and rest
  have "(of_char c :: nat) < 256" by simp
  then have "unat (of_nat (of_char c) :: u8) = of_char c" by (simp only: unat_of_nat) simp
  then show "get_char (put_char c @ rest) = Some (c, rest)" by (simp add: put_char_def get_char_def)
qed

lemma codec_bool: "codec put_bool get_bool"
  by unfold_locales (simp add: put_bool_def get_bool_def)

lemma codec_opt: "codec put get \<Longrightarrow> codec (put_opt put) (get_opt get)"
  by unfold_locales (auto simp: put_opt_def get_opt_def codec.get_put split: option.split)

lemma codec_pair: "codec p g \<Longrightarrow> codec q h \<Longrightarrow> codec (put_pair p q) (get_pair g h)"
  by unfold_locales (auto simp: put_pair_def get_pair_def codec.get_put)

lemma codec_via: "codec p h \<Longrightarrow> (\<And>v. g (f v) = v) \<Longrightarrow> codec (put_via f p) (get_via g h)"
  by unfold_locales (simp add: put_via_def get_via_def codec.get_put)

lemmas codec_intros = codec_u64 codec_u32 codec_list codec_char codec_bool codec_opt codec_pair codec_via

abbreviation put_str :: "string \<Rightarrow> bytes" where "put_str \<equiv> put_list put_char"
abbreviation get_str :: "string getter" where "get_str \<equiv> get_list get_char"

section \<open>The messages\<close>

definition put_kind :: "kind \<Rightarrow> bytes" where
  "put_kind k = [case k of KFile \<Rightarrow> 0 | KTar \<Rightarrow> 1 | KText \<Rightarrow> 2]"

definition get_kind :: "kind getter" where
  "get_kind b =
     (case b of [] \<Rightarrow> None
      | x # xs \<Rightarrow> Some (if x = 0 then KFile else if x = 1 then KTar else KText, xs))"

lemma codec_kind: "codec put_kind get_kind"
  by unfold_locales (auto simp: put_kind_def get_kind_def split: kind.split)

definition put_manifest :: "manifest \<Rightarrow> bytes" where
  "put_manifest = put_via
     (\<lambda>m. (m_version m, m_transfer_id m, m_kind m, m_name m, m_entries m, m_total_size m,
           m_chunk_size m, m_text m))
     (put_pair put_u32 (put_pair put_str (put_pair put_kind (put_pair put_str (put_pair
       (put_list (put_via (\<lambda>e. (e_path e, e_size e)) (put_pair put_str put_u64)))
       (put_pair put_u64 (put_pair put_u64 (put_opt put_str))))))))"

definition get_manifest :: "manifest getter" where
  "get_manifest = get_via
     (\<lambda>(v, tid, k, nm, es, tot, cs, t). \<lparr>m_version = v, m_transfer_id = tid, m_kind = k, m_name = nm,
        m_entries = es, m_total_size = tot, m_chunk_size = cs, m_text = t\<rparr>)
     (get_pair get_u32 (get_pair get_str (get_pair get_kind (get_pair get_str (get_pair
       (get_list (get_via (\<lambda>(p, s). \<lparr>e_path = p, e_size = s\<rparr>) (get_pair get_str get_u64)))
       (get_pair get_u64 (get_pair get_u64 (get_opt get_str))))))))"

interpretation manifest_codec: codec put_manifest get_manifest
  unfolding put_manifest_def get_manifest_def
  by (intro codec_intros codec_kind) simp_all

definition put_stream_ack :: "stream_manifest_ack \<Rightarrow> bytes" where
  "put_stream_ack = put_via (\<lambda>a. (sa_accepted a, sa_complete a, sa_have_runs a))
     (put_pair put_bool (put_pair put_bool (put_list (put_pair put_u64 put_u64))))"

definition get_stream_ack :: "stream_manifest_ack getter" where
  "get_stream_ack = get_via (\<lambda>(a, c, r). \<lparr>sa_accepted = a, sa_complete = c, sa_have_runs = r\<rparr>)
     (get_pair get_bool (get_pair get_bool (get_list (get_pair get_u64 get_u64))))"

interpretation stream_ack_codec: codec put_stream_ack get_stream_ack
  unfolding put_stream_ack_def get_stream_ack_def by (intro codec_intros) simp

definition put_manifest_ack :: "manifest_ack \<Rightarrow> bytes" where
  "put_manifest_ack = put_via (\<lambda>a. (ma_accepted a, ma_complete a, ma_have a))
     (put_pair put_bool (put_pair put_bool (put_list put_u64)))"

definition get_manifest_ack :: "manifest_ack getter" where
  "get_manifest_ack = get_via (\<lambda>(a, c, h). \<lparr>ma_accepted = a, ma_complete = c, ma_have = h\<rparr>)
     (get_pair get_bool (get_pair get_bool (get_list get_u64)))"

interpretation manifest_ack_codec: codec put_manifest_ack get_manifest_ack
  unfolding put_manifest_ack_def get_manifest_ack_def by (intro codec_intros) simp

definition put_status :: "status_resp \<Rightarrow> bytes" where
  "put_status = put_via sr_have (put_list put_u64)"

definition get_status :: "status_resp getter" where
  "get_status = get_via (\<lambda>h. \<lparr>sr_have = h\<rparr>) (get_list get_u64)"

interpretation status_codec: codec put_status get_status
  unfolding put_status_def get_status_def by (intro codec_intros) simp

definition put_commit :: "commit \<Rightarrow> bytes" where
  "put_commit = put_via co_blake3_hex put_str"

definition get_commit :: "commit getter" where
  "get_commit = get_via (\<lambda>h. \<lparr>co_blake3_hex = h\<rparr>) get_str"

interpretation commit_codec: codec put_commit get_commit
  unfolding put_commit_def get_commit_def by (intro codec_intros) simp

definition put_commit_ack :: "commit_ack \<Rightarrow> bytes" where
  "put_commit_ack = put_via (\<lambda>a. (ca_ok a, ca_error a)) (put_pair put_bool (put_opt put_str))"

definition get_commit_ack :: "commit_ack getter" where
  "get_commit_ack = get_via (\<lambda>(a, e). \<lparr>ca_ok = a, ca_error = e\<rparr>) (get_pair get_bool (get_opt get_str))"

interpretation commit_ack_codec: codec put_commit_ack get_commit_ack
  unfolding put_commit_ack_def get_commit_ack_def by (intro codec_intros) simp

definition put_state :: "store_state \<Rightarrow> bytes" where
  "put_state = put_via (\<lambda>s. (ss_transfer_id s, ss_total_size s, ss_chunk_size s, ss_have s))
     (put_pair put_str (put_pair put_u64 (put_pair put_u64 (put_list put_u64))))"

definition get_state :: "store_state getter" where
  "get_state = get_via (\<lambda>(tid, tot, cs, h). \<lparr>ss_transfer_id = tid, ss_total_size = tot,
       ss_chunk_size = cs, ss_have = h\<rparr>)
     (get_pair get_str (get_pair get_u64 (get_pair get_u64 (get_list get_u64))))"

interpretation state_codec: codec put_state get_state
  unfolding put_state_def get_state_def by (intro codec_intros) simp

definition decode_state :: "bytes \<Rightarrow> store_state option" where
  "decode_state b =
     (case run_getter get_state b of
        Some s \<Rightarrow> if ascending (ss_have s) then Some s else None
      | None \<Rightarrow> None)"

section \<open>The library\<close>

definition aead_head :: "bytes \<Rightarrow> bytes \<Rightarrow> bytes \<Rightarrow> bytes" where
  "aead_head k n a = take 16 (k @ n @ a @ replicate 16 0)"

definition octal_digit :: "nat \<Rightarrow> char" where
  "octal_digit n = char_of (49 + n)"

definition octal_value :: "char \<Rightarrow> nat" where
  "octal_value c = of_char c - 49"

fun encode_octal :: "bytes \<Rightarrow> string" where
  "encode_octal [] = []"
| "encode_octal (b # bs) = octal_digit (unat b div 64) # octal_digit (unat b div 8 mod 8) #
     octal_digit (unat b mod 8) # encode_octal bs"

fun decode_octal :: "string \<Rightarrow> bytes option" where
  "decode_octal (c # d # e # cs) =
     map_option ((#) (of_nat (64 * octal_value c + 8 * octal_value d + octal_value e))) (decode_octal cs)"
| "decode_octal [] = Some []"
| "decode_octal _ = None"

definition reference_lib :: store_lib where
  "reference_lib =
     \<lparr>xchacha_encrypt = (\<lambda>k n a m. aead_head k n a @ m),
      xchacha_decrypt = (\<lambda>k n a c. if prefix (aead_head k n a) c
                                    then Some (drop (length (aead_head k n a)) c) else None),
      blake3_derive_key = (\<lambda>ctx k. take 32 (k @ str_bytes ctx @ replicate 32 0)),
      blake3_hash = id,
      blake3_hex = encode_octal,
      blake3_keyed_hash = (\<lambda>k m. put_len (length k) @ k @ m),
      b58_encode = encode_octal,
      b58_decode = (\<lambda>s. if set s \<subseteq> set b58_alphabet then decode_octal s else None),
      js_manifest = put_manifest, un_manifest = run_getter get_manifest,
      js_manifest_ack = put_manifest_ack, un_manifest_ack = run_getter get_manifest_ack,
      js_stream_ack = put_stream_ack, un_stream_ack = run_getter get_stream_ack,
      js_status = put_status, un_status = run_getter get_status,
      js_commit = put_commit, un_commit = run_getter get_commit,
      js_commit_ack = put_commit_ack, un_commit_ack = run_getter get_commit_ack,
      js_state = put_state, un_state = decode_state,
      tar_unpack = (\<lambda>_ _. io_ret ())\<rparr>"

definition reference_spake :: spake_lib where
  "reference_spake =
     \<lparr>spake_msg = (\<lambda>pw ident r. r),
      spake_finish = (\<lambda>pw ident r m. Some (take 32 (pw @ replicate 32 0)))\<rparr>"

lemma reference_aead: "aead_correct reference_lib"
  by (simp add: aead_correct_def reference_lib_def)

lemma reference_tag16: "aead_tag16 reference_lib"
proof -
  have "length (aead_head k n a) = 16" for k n a
    unfolding aead_head_def length_take by simp
  then show ?thesis by (simp add: aead_tag16_def reference_lib_def)
qed

lemma reference_derive_key: "derive_key_32 reference_lib"
  by (simp add: derive_key_32_def reference_lib_def min_def)

lemma reference_json: "json_correct reference_lib"
  by (simp add: json_correct_def reference_lib_def manifest_codec.run_put
      stream_ack_codec.run_put manifest_ack_codec.run_put status_codec.run_put
      commit_codec.run_put commit_ack_codec.run_put)

lemma reference_state_json: "state_json_correct reference_lib"
  by (auto simp: state_json_correct_def reference_lib_def decode_state_def 
      state_codec.run_put split: option.splits if_splits)

lemma put_len_eq: "put_len n @ xs = put_len m @ ys \<longleftrightarrow> n = m \<and> xs = ys"
proof
  assume "put_len n @ xs = put_len m @ ys"
  then have "get_len (put_len n @ xs) = get_len (put_len m @ ys)" by (rule arg_cong)
  then show "n = m \<and> xs = ys" unfolding get_put_len by simp
qed simp

lemma reference_confirmations: "k \<noteq> k' \<Longrightarrow> confirmations_differ reference_lib k k'"
  by (auto simp: confirmations_differ_def reference_lib_def put_len_eq)

lemma reference_spake_correct: "spake_correct reference_spake"
  by (auto simp: spake_correct_def reference_spake_def min_def)

lemma octal_digit_value: "n < 8 \<Longrightarrow> octal_value (octal_digit n) = n"
  by (simp add: octal_digit_def octal_value_def)

lemma octal_digit_in: "n < 8 \<Longrightarrow> octal_digit n \<in> set b58_alphabet"
proof -
  have "\<forall>d \<in> set [0..<8]. octal_digit d \<in> set b58_alphabet" by code_simp
  then show "n < 8 \<Longrightarrow> octal_digit n \<in> set b58_alphabet" by simp
qed

lemma octal_digits: "n < 256 \<Longrightarrow> n div 64 < 8 \<and> n div 8 mod 8 < 8 \<and> n mod 8 < 8 \<and>
    64 * (n div 64) + 8 * (n div 8 mod 8) + n mod 8 = (n :: nat)"
proof -
  assume "n < 256"
  moreover have "n div 64 = n div 8 div 8" by (simp add: div_mult2_eq [symmetric])
  moreover have "8 * (n div 8) + n mod 8 = n" by (rule mult_div_mod_eq)
  moreover have "8 * (n div 8 div 8) + n div 8 mod 8 = n div 8" by (rule mult_div_mod_eq)
  moreover have "n mod 8 < 8" "n div 8 mod 8 < 8" by simp_all
  ultimately show ?thesis by linarith
qed

lemma decode_encode_octal: "decode_octal (encode_octal b) = Some b"
proof (induction b)
  case (Cons x b)
  have lt: "unat x < 256" using unsigned_less [of x] by simp
  have "of_nat (64 * (unat x div 64) + 8 * (unat x div 8 mod 8) + unat x mod 8) = x"
    using octal_digits [OF lt] by (metis of_nat_unat ucast_id)
  then show ?case using Cons octal_digits [OF lt] by (simp only: encode_octal.simps
      decode_octal.simps octal_digit_value option.map)
qed simp

lemma reference_b58: "b58_correct reference_lib"
proof -
  have "set (encode_octal b) \<subseteq> set b58_alphabet" for b
  proof (induction b)
    case (Cons x b)
    have lt: "unat x < 256" using unsigned_less [of x] by simp
    show ?case using Cons octal_digits [OF lt] by (simp add: octal_digit_in)
  qed simp
  moreover have "b \<noteq> [] \<Longrightarrow> encode_octal b \<noteq> []" for b by (cases b) auto
  ultimately show ?thesis by (simp add: b58_correct_def reference_lib_def decode_encode_octal)
qed

lemma reference_b58_strict: "b58_strict reference_lib"
proof -
  have "decode_octal s = Some b \<Longrightarrow> length s \<le> 4 * length b" for s b
    by (induction s arbitrary: b rule: decode_octal.induct) fastforce+
  then show ?thesis by (simp add: b58_strict_def reference_lib_def)
qed

end
