(* ===== verification/B2P_Webrtc.thy ===== *)
theory B2P_Webrtc
  imports B2P_Handshake B2P_Turn
begin

text \<open>
  The WebRTC transport (src/src/transport/webrtc.rs): the sealed signalling frames, the pump that
  applies them, the establishment of the data channel and the channel itself. The peer connection
  is third-party: the record \<open>webrtc_lib\<close> holds its operations over an abstract state, and
  \<open>pc_contract\<close> and \<open>webrtc_json\<close> name what is relied on. The callbacks and the task of
  \<open>establish\<close> interleave freely: a run is a list of events, one for each callback and one for each
  completed await of the task.
\<close>

record ('pc, 'sdp, 'cand) webrtc_lib =
  js_sdp :: "'sdp \<Rightarrow> bytes option"
  un_sdp :: "bytes \<Rightarrow> 'sdp option"
  js_cand :: "'cand \<Rightarrow> bytes option"
  un_cand :: "bytes \<Rightarrow> 'cand option"
  set_remote_description :: "'sdp \<Rightarrow> 'pc \<Rightarrow> unit res \<times> 'pc"
  remote_description :: "'pc \<Rightarrow> 'sdp option"
  add_ice_candidate :: "'cand \<Rightarrow> 'pc \<Rightarrow> unit res \<times> 'pc"
  create_offer :: "'pc \<Rightarrow> 'sdp res \<times> 'pc"
  create_answer :: "'pc \<Rightarrow> 'sdp res \<times> 'pc"
  set_local_description :: "'sdp \<Rightarrow> 'pc \<Rightarrow> unit res \<times> 'pc"
  create_data_channel :: "string \<Rightarrow> 'pc \<Rightarrow> unit res \<times> 'pc"
  close_pc :: "'pc \<Rightarrow> 'pc"

text \<open>
  A description that was set stays set, and a candidate never changes it; JSON reads back what it
  wrote.
\<close>

definition pc_contract :: "('pc, 'sdp, 'cand) webrtc_lib \<Rightarrow> bool" where
  "pc_contract W \<longleftrightarrow>
     (\<forall>s p p'. set_remote_description W s p = (Inr (), p') \<longrightarrow> remote_description W p' \<noteq> None) \<and>
     (\<forall>c p. remote_description W (snd (add_ice_candidate W c p)) = remote_description W p) \<and>
     (\<forall>p. remote_description W (snd (create_answer W p)) = remote_description W p) \<and>
     (\<forall>s p. remote_description W (snd (set_local_description W s p)) = remote_description W p)"

definition webrtc_json :: "('pc, 'sdp, 'cand) webrtc_lib \<Rightarrow> bool" where
  "webrtc_json W \<longleftrightarrow>
     (\<forall>s b. js_sdp W s = Some b \<longrightarrow> un_sdp W b = Some s) \<and>
     (\<forall>c b. js_cand W c = Some b \<longrightarrow> un_cand W b = Some c)"

section \<open>The channel\<close>

datatype item = IMsg bytes | IClosed

record wchan =
  wc_queue :: "item list"
  wc_closed :: bool

definition channel_closed :: err where
  "channel_closed = Msg ''data channel closed by peer''"

text \<open>
  What a send waits for after its check of the flag: the data channel's own result, or the
  notification of a close.
\<close>

datatype send_race = DcSent "unit res" | CloseNotified

definition wchan_send :: "wchan \<Rightarrow> send_race \<Rightarrow> unit res" where
  "wchan_send ch race =
     (if wc_closed ch then Inl channel_closed
      else case race of
             DcSent r \<Rightarrow> context_of ''data channel send failed'' r
           | CloseNotified \<Rightarrow> Inl channel_closed)"

text \<open>
  \<open>None\<close> while nothing is queued. The handlers of the data channel hold a sender of the queue for
  as long as the channel lives, so the queue itself never ends.
\<close>

definition wchan_recv :: "wchan \<Rightarrow> (bytes res \<times> wchan) option" where
  "wchan_recv ch =
     (case wc_queue ch of
        [] \<Rightarrow> None
      | IMsg m # q \<Rightarrow> Some (Inr m, ch\<lparr>wc_queue := q\<rparr>)
      | IClosed # q \<Rightarrow> Some (Inl channel_closed, ch\<lparr>wc_queue := q\<rparr>))"

text \<open>
  Dropping the channel: up to fifty looks at the amount still buffered, a pause after each that is
  not zero, then the close. The value is the number of pauses and the connection.
\<close>

fun drain_polls :: "nat \<Rightarrow> nat list \<Rightarrow> nat" where
  "drain_polls 0 amounts = 0"
| "drain_polls (Suc n) [] = 0"
| "drain_polls (Suc n) (a # as) = (if a = 0 then 0 else Suc (drain_polls n as))"

definition wchan_drop ::
  "('pc, 'sdp, 'cand) webrtc_lib \<Rightarrow> bool \<Rightarrow> nat list \<Rightarrow> 'pc \<Rightarrow> nat \<times> 'pc" where
  "wchan_drop W in_runtime amounts pc =
     (if in_runtime then (drain_polls 50 amounts, close_pc W pc) else (0, pc))"

section \<open>Configuration\<close>

record rtc_ice_server =
  rtc_urls :: "string list"
  rtc_username :: string
  rtc_credential :: string

definition build_pc_config :: "ice_server list \<Rightarrow> rtc_ice_server list" where
  "build_pc_config servers =
     map (\<lambda>s. \<lparr>rtc_urls = ice_urls s, rtc_username = ice_username s,
               rtc_credential = ice_credential s\<rparr>) servers"

text \<open>\<open>new_pc\<close> stands for the API builder and \<^verbatim>\<open>new_peer_connection\<close>.\<close>

definition build_pc :: "(rtc_ice_server list \<Rightarrow> 'pc res) \<Rightarrow> ice_server list \<Rightarrow> 'pc res" where
  "build_pc new_pc servers = new_pc (build_pc_config servers)"

section \<open>Signalling\<close>

text \<open>
  The task of \<open>establish\<close>: what it does next. The results of its awaits on the rendezvous come with
  the event that completes them.
\<close>

datatype 'sdp stage =
    Setup
  | Subscribing
  | Offering
  | SettingLocal 'sdp
  | Publishing
  | WaitOpen
  | TakeHandle
  | Established
  | Failed err

record ('pc, 'sdp, 'cand) conn =
  cn_pc :: 'pc
  cn_stage :: "'sdp stage"
  cn_pending :: "'cand list"
  cn_published :: "bytes list"
  cn_open :: bool
  cn_handle :: bool
  cn_chan :: wchan

definition conn_start :: "'pc \<Rightarrow> ('pc, 'sdp, 'cand) conn" where
  "conn_start pc =
     \<lparr>cn_pc = pc, cn_stage = Setup, cn_pending = [], cn_published = [], cn_open = False,
      cn_handle = False, cn_chan = \<lparr>wc_queue = [], wc_closed = False\<rparr>\<rparr>"

definition publish_frame :: "bytes \<Rightarrow> ('pc, 'sdp, 'cand) conn \<Rightarrow> ('pc, 'sdp, 'cand) conn" where
  "publish_frame frame st = st\<lparr>cn_published := cn_published st @ [frame]\<rparr>"

definition sealed_frame ::
  "'x crypto_lib_scheme \<Rightarrow> bytes \<Rightarrow> bytes \<Rightarrow> u8 \<Rightarrow> role \<Rightarrow> bytes \<Rightarrow> bytes" where
  "sealed_frame L nonce sig_key kind role json =
     encode_frame kind role (seal_random L nonce sig_key [kind, role_byte role] json)"

text \<open>A gathered candidate: \<open>None\<close> ends the gathering, \<open>Inl\<close> is one that has no JSON form.\<close>

definition on_ice_candidate ::
  "'x crypto_lib_scheme \<Rightarrow> ('pc, 'sdp, 'cand) webrtc_lib \<Rightarrow> bytes \<Rightarrow> role \<Rightarrow> bytes \<Rightarrow> 'cand res option \<Rightarrow>
   ('pc, 'sdp, 'cand) conn \<Rightarrow> ('pc, 'sdp, 'cand) conn" where
  "on_ice_candidate L W sig_key role nonce c st =
     (case c of
        Some (Inr init) \<Rightarrow>
          (case js_cand W init of
             Some json \<Rightarrow> publish_frame (sealed_frame L nonce sig_key KIND_ICE role json) st
           | None \<Rightarrow> st)
      | _ \<Rightarrow> st)"

definition push_item :: "item \<Rightarrow> ('pc, 'sdp, 'cand) conn \<Rightarrow> ('pc, 'sdp, 'cand) conn" where
  "push_item i st = st\<lparr>cn_chan := (cn_chan st)\<lparr>wc_queue := wc_queue (cn_chan st) @ [i]\<rparr>\<rparr>"

definition signal_closed :: "('pc, 'sdp, 'cand) conn \<Rightarrow> ('pc, 'sdp, 'cand) conn" where
  "signal_closed st = push_item IClosed (st\<lparr>cn_chan := (cn_chan st)\<lparr>wc_closed := True\<rparr>\<rparr>)"

datatype pc_state =
    PcUnspecified | PcNew | PcConnecting | PcConnected | PcDisconnected | PcFailed | PcClosed

definition on_state_change :: "pc_state \<Rightarrow> ('pc, 'sdp, 'cand) conn \<Rightarrow> ('pc, 'sdp, 'cand) conn" where
  "on_state_change s st = (if s = PcFailed \<or> s = PcClosed then signal_closed st else st)"

definition publish_answer ::
  "'x crypto_lib_scheme \<Rightarrow> ('pc, 'sdp, 'cand) webrtc_lib \<Rightarrow> bytes \<Rightarrow> role \<Rightarrow> bytes \<Rightarrow>
   ('pc, 'sdp, 'cand) conn \<Rightarrow> ('pc, 'sdp, 'cand) conn" where
  "publish_answer L W sig_key role nonce st =
     (case create_answer W (cn_pc st) of
        (Inl _, pc) \<Rightarrow> st\<lparr>cn_pc := pc\<rparr>
      | (Inr answer, pc) \<Rightarrow>
          (case set_local_description W answer pc of
             (Inl _, pc) \<Rightarrow> st\<lparr>cn_pc := pc\<rparr>
           | (Inr _, pc) \<Rightarrow>
               (case js_sdp W answer of
                  None \<Rightarrow> st\<lparr>cn_pc := pc\<rparr>
                | Some j \<Rightarrow>
                    publish_frame (sealed_frame L nonce sig_key KIND_SDP role j) (st\<lparr>cn_pc := pc\<rparr>))))"

definition add_candidates ::
  "('pc, 'sdp, 'cand) webrtc_lib \<Rightarrow> 'cand list \<Rightarrow> 'pc \<Rightarrow> 'pc" where
  "add_candidates W cs pc = fold (\<lambda>c p. snd (add_ice_candidate W c p)) cs pc"

text \<open>One round of the pump.\<close>

definition pump_step ::
  "'x crypto_lib_scheme \<Rightarrow> ('pc, 'sdp, 'cand) webrtc_lib \<Rightarrow> bytes \<Rightarrow> role \<Rightarrow> bytes \<Rightarrow> bytes \<Rightarrow>
   ('pc, 'sdp, 'cand) conn \<Rightarrow> ('pc, 'sdp, 'cand) conn" where
  "pump_step L W sig_key role nonce frame st =
     (case decode_frame frame of
        None \<Rightarrow> st
      | Some (kind, r, payload) \<Rightarrow>
          if r \<noteq> role_byte (other role) then st
          else
            (case open_random L sig_key [kind, r] payload of
               Inl _ \<Rightarrow> st
             | Inr plain \<Rightarrow>
                 if kind = KIND_SDP then
                   (case un_sdp W plain of
                      None \<Rightarrow> st
                    | Some sdp \<Rightarrow>
                        (case set_remote_description W sdp (cn_pc st) of
                           (Inl _, pc) \<Rightarrow> st\<lparr>cn_pc := pc\<rparr>
                         | (Inr _, pc) \<Rightarrow>
                             let st = st\<lparr>cn_pc := add_candidates W (cn_pending st) pc, cn_pending := []\<rparr> in
                             if role = Sender then publish_answer L W sig_key role nonce st else st))
                 else if kind = KIND_ICE then
                   (case un_cand W plain of
                      None \<Rightarrow> st
                    | Some init \<Rightarrow>
                        if remote_description W (cn_pc st) \<noteq> None
                        then st\<lparr>cn_pc := snd (add_ice_candidate W init (cn_pc st))\<rparr>
                        else st\<lparr>cn_pending := cn_pending st @ [init]\<rparr>)
                 else st))"

section \<open>Establishment\<close>

datatype 'cand rtc_event =
    LocalCandidate bytes "'cand res option"
  | PeerFrame bytes bytes
      \<comment> \<open>the nonce an answer to it would use, and the frame\<close>
  | StateChange pc_state
  | ChannelOffered
  | ChannelOpen
  | ChannelMessage bytes
  | ChannelClose
  | Awaited bytes "unit res"
      \<comment> \<open>the task goes on: the nonce of its frame, and the outcome of the rendezvous call\<close>

definition fail_with :: "err \<Rightarrow> ('pc, 'sdp, 'cand) conn \<Rightarrow> ('pc, 'sdp, 'cand) conn" where
  "fail_with e st = st\<lparr>cn_stage := Failed e\<rparr>"

definition task_step ::
  "'x crypto_lib_scheme \<Rightarrow> ('pc, 'sdp, 'cand) webrtc_lib \<Rightarrow> bytes \<Rightarrow> role \<Rightarrow> bytes \<Rightarrow> unit res \<Rightarrow>
   ('pc, 'sdp, 'cand) conn \<Rightarrow> ('pc, 'sdp, 'cand) conn" where
  "task_step L W sig_key role nonce outcome st =
     (case cn_stage st of
        Setup \<Rightarrow>
          (case role of
             Receiver \<Rightarrow>
               (case create_data_channel W ''b2p'' (cn_pc st) of
                  (Inl e, pc) \<Rightarrow> fail_with e (st\<lparr>cn_pc := pc\<rparr>)
                | (Inr _, pc) \<Rightarrow> st\<lparr>cn_pc := pc, cn_handle := True, cn_stage := Subscribing\<rparr>)
           | Sender \<Rightarrow> st\<lparr>cn_stage := Subscribing\<rparr>)
      | Subscribing \<Rightarrow>
          (case outcome of
             Inl e \<Rightarrow> fail_with e st
           | Inr _ \<Rightarrow> st\<lparr>cn_stage := if role = Receiver then Offering else WaitOpen\<rparr>)
      | Offering \<Rightarrow>
          (case create_offer W (cn_pc st) of
             (Inl e, pc) \<Rightarrow> fail_with e (st\<lparr>cn_pc := pc\<rparr>)
           | (Inr offer, pc) \<Rightarrow> st\<lparr>cn_pc := pc, cn_stage := SettingLocal offer\<rparr>)
      | SettingLocal offer \<Rightarrow>
          (case set_local_description W offer (cn_pc st) of
             (Inl e, pc) \<Rightarrow> fail_with e (st\<lparr>cn_pc := pc\<rparr>)
           | (Inr _, pc) \<Rightarrow>
               (case js_sdp W offer of
                  None \<Rightarrow> fail_with (Msg ''json error'') (st\<lparr>cn_pc := pc\<rparr>)
                | Some j \<Rightarrow>
                    publish_frame (sealed_frame L nonce sig_key KIND_SDP role j)
                      (st\<lparr>cn_pc := pc, cn_stage := Publishing\<rparr>)))
      | Publishing \<Rightarrow>
          (case outcome of Inl e \<Rightarrow> fail_with e st | Inr _ \<Rightarrow> st\<lparr>cn_stage := WaitOpen\<rparr>)
      | WaitOpen \<Rightarrow> if cn_open st then st\<lparr>cn_open := False, cn_stage := TakeHandle\<rparr> else st
      | TakeHandle \<Rightarrow> if cn_handle st then st\<lparr>cn_stage := Established\<rparr> else st
      | Established \<Rightarrow> st
      | Failed e \<Rightarrow> st)"

text \<open>The pump lives from the subscription until \<open>establish\<close> returns.\<close>

fun pumping :: "'sdp stage \<Rightarrow> bool" where
  "pumping Setup = False"
| "pumping Subscribing = False"
| "pumping Established = False"
| "pumping (Failed e) = False"
| "pumping _ = True"

fun rtc_step ::
  "'x crypto_lib_scheme \<Rightarrow> ('pc, 'sdp, 'cand) webrtc_lib \<Rightarrow> bytes \<Rightarrow> role \<Rightarrow> 'cand rtc_event \<Rightarrow>
   ('pc, 'sdp, 'cand) conn \<Rightarrow> ('pc, 'sdp, 'cand) conn" where
  "rtc_step L W sig_key role (LocalCandidate nonce c) st = on_ice_candidate L W sig_key role nonce c st"
| "rtc_step L W sig_key role (PeerFrame nonce frame) st =
     (if pumping (cn_stage st) then pump_step L W sig_key role nonce frame st else st)"
| "rtc_step L W sig_key role (StateChange s) st = on_state_change s st"
| "rtc_step L W sig_key role ChannelOffered st =
     (if role = Sender then st\<lparr>cn_handle := True\<rparr> else st)"
| "rtc_step L W sig_key role ChannelOpen st = (if cn_handle st then st\<lparr>cn_open := True\<rparr> else st)"
| "rtc_step L W sig_key role (ChannelMessage m) st = (if cn_handle st then push_item (IMsg m) st else st)"
| "rtc_step L W sig_key role ChannelClose st = (if cn_handle st then signal_closed st else st)"
| "rtc_step L W sig_key role (Awaited nonce outcome) st = task_step L W sig_key role nonce outcome st"

definition rtc_run ::
  "'x crypto_lib_scheme \<Rightarrow> ('pc, 'sdp, 'cand) webrtc_lib \<Rightarrow> bytes \<Rightarrow> role \<Rightarrow> 'cand rtc_event list \<Rightarrow>
   ('pc, 'sdp, 'cand) conn \<Rightarrow> ('pc, 'sdp, 'cand) conn" where
  "rtc_run L W sig_key role evs st = fold (rtc_step L W sig_key role) evs st"

definition no_direct_path :: err where
  "no_direct_path = Msg (''connected to the peer over signaling, but no direct UDP path formed in time '' @
     em_dash @ '' likely a symmetric NAT on one side. Retry with a TURN relay '' @
     ''(--turn turn:HOST:PORT), use --tunnel, or put both peers on the same LAN'')"

text \<open>\<open>evs\<close> is what happens before the deadline.\<close>

definition rtc_connect ::
  "'x crypto_lib_scheme \<Rightarrow> ('pc, 'sdp, 'cand) webrtc_lib \<Rightarrow> (rtc_ice_server list \<Rightarrow> 'pc res) \<Rightarrow>
   session_key \<Rightarrow> role \<Rightarrow> ice_server list \<Rightarrow> 'cand rtc_event list \<Rightarrow>
   wchan res \<times> ('pc, 'sdp, 'cand) conn option" where
  "rtc_connect L W new_pc key role servers evs =
     (case build_pc new_pc servers of
        Inl e \<Rightarrow> (Inl e, None)
      | Inr pc \<Rightarrow>
          (let st = rtc_run L W (signaling_key L key) role evs (conn_start pc) in
           case cn_stage st of
             Established \<Rightarrow> (Inr (cn_chan st), Some st)
           | Failed e \<Rightarrow> (Inl e, Some (st\<lparr>cn_pc := close_pc W (cn_pc st)\<rparr>))
           | _ \<Rightarrow> (Inl no_direct_path, Some (st\<lparr>cn_pc := close_pc W (cn_pc st)\<rparr>))))"

section \<open>The race between a send and the close\<close>

text \<open>
  A send registers as a waiter, looks at the flag, and only then waits for the data channel or the
  notification. A close handler stores the flag and then notifies the registered waiters, of which
  it keeps no record. \<open>race_step\<close> interleaves the sends of the channel, one after another, with any
  number of close handlers; \<open>rc_closing\<close> counts the handlers between their two actions.
\<close>

datatype send_state = SIdle | SEnabled | SWaiting | SDone "unit res"

record race =
  rc_flag :: bool
  rc_waiter :: bool
  rc_woken :: bool
  rc_closing :: nat
  rc_send :: send_state

definition race_start :: race where
  "race_start = \<lparr>rc_flag = False, rc_waiter = False, rc_woken = False, rc_closing = 0, rc_send = SIdle\<rparr>"

inductive race_step :: "race \<Rightarrow> race \<Rightarrow> bool" where
  enable: "rc_send s = SIdle \<Longrightarrow>
     race_step s (s\<lparr>rc_send := SEnabled, rc_waiter := True, rc_woken := False\<rparr>)"
| check_closed: "rc_send s = SEnabled \<Longrightarrow> rc_flag s \<Longrightarrow>
     race_step s (s\<lparr>rc_send := SDone (Inl channel_closed), rc_waiter := False\<rparr>)"
| check_open: "rc_send s = SEnabled \<Longrightarrow> \<not> rc_flag s \<Longrightarrow> race_step s (s\<lparr>rc_send := SWaiting\<rparr>)"
| sent: "rc_send s = SWaiting \<Longrightarrow>
     race_step s (s\<lparr>rc_send := SDone (context_of ''data channel send failed'' r), rc_waiter := False\<rparr>)"
| woken: "rc_send s = SWaiting \<Longrightarrow> rc_woken s \<Longrightarrow>
     race_step s (s\<lparr>rc_send := SDone (Inl channel_closed), rc_waiter := False\<rparr>)"
| next_send: "rc_send s = SDone r \<Longrightarrow> race_step s (s\<lparr>rc_send := SIdle\<rparr>)"
| close_store: "race_step s (s\<lparr>rc_flag := True, rc_closing := Suc (rc_closing s)\<rparr>)"
| close_notify: "rc_closing s = Suc n \<Longrightarrow>
     race_step s (s\<lparr>rc_closing := n, rc_woken := rc_woken s \<or> rc_waiter s, rc_waiter := False\<rparr>)"

inductive_cases race_step_cases: "race_step s s'"

section \<open>What the pump does with a stream of frames\<close>

datatype ('sdp, 'cand) signal = SSdp 'sdp | SCand 'cand

fun signal_frame ::
  "'x crypto_lib_scheme \<Rightarrow> ('pc, 'sdp, 'cand) webrtc_lib \<Rightarrow> bytes \<Rightarrow> role \<Rightarrow> bytes \<Rightarrow> ('sdp, 'cand) signal \<Rightarrow>
   bytes option" where
  "signal_frame L W sig_key role nonce (SSdp d) =
     map_option (sealed_frame L nonce sig_key KIND_SDP role) (js_sdp W d)"
| "signal_frame L W sig_key role nonce (SCand c) =
     map_option (sealed_frame L nonce sig_key KIND_ICE role) (js_cand W c)"

text \<open>A frame that opens under the key of the session and names the other role.\<close>

definition from_peer :: "'x crypto_lib_scheme \<Rightarrow> bytes \<Rightarrow> role \<Rightarrow> bytes \<Rightarrow> bool" where
  "from_peer L sig_key role frame =
     (case decode_frame frame of
        None \<Rightarrow> False
      | Some (kind, r, payload) \<Rightarrow>
          r = role_byte (other role) \<and>
          (case open_random L sig_key [kind, r] payload of Inl _ \<Rightarrow> False | Inr _ \<Rightarrow> True))"

text \<open>The peer connection and the buffer after one signal.\<close>

definition answered :: "('pc, 'sdp, 'cand) webrtc_lib \<Rightarrow> role \<Rightarrow> 'pc \<Rightarrow> 'pc" where
  "answered W role pc =
     (if role = Sender
      then case create_answer W pc of
             (Inl _, pc) \<Rightarrow> pc
           | (Inr answer, pc) \<Rightarrow> snd (set_local_description W answer pc)
      else pc)"

fun apply_signal ::
  "('pc, 'sdp, 'cand) webrtc_lib \<Rightarrow> role \<Rightarrow> ('sdp, 'cand) signal \<Rightarrow> 'pc \<times> 'cand list \<Rightarrow> 'pc \<times> 'cand list" where
  "apply_signal W role (SSdp d) (pc, pending) =
     (case set_remote_description W d pc of
        (Inl _, pc) \<Rightarrow> (pc, pending)
      | (Inr _, pc) \<Rightarrow> (answered W role (add_candidates W pending pc), []))"
| "apply_signal W role (SCand c) (pc, pending) =
     (if remote_description W pc \<noteq> None then (snd (add_ice_candidate W c pc), pending)
      else (pc, pending @ [c]))"

definition pump_view :: "('pc, 'sdp, 'cand) conn \<Rightarrow> 'pc \<times> 'cand list" where
  "pump_view st = (cn_pc st, cn_pending st)"

lemma publish_frame_sel [simp]:
  "cn_pc (publish_frame fr st) = cn_pc st" "cn_pending (publish_frame fr st) = cn_pending st"
  "cn_stage (publish_frame fr st) = cn_stage st" "cn_open (publish_frame fr st) = cn_open st"
  "cn_chan (publish_frame fr st) = cn_chan st" "cn_handle (publish_frame fr st) = cn_handle st"
  "cn_published (publish_frame fr st) = cn_published st @ [fr]"
  by (simp_all add: publish_frame_def)

lemma push_item_sel [simp]:
  "cn_pc (push_item i st) = cn_pc st" "cn_pending (push_item i st) = cn_pending st"
  "cn_stage (push_item i st) = cn_stage st" "cn_open (push_item i st) = cn_open st"
  "cn_handle (push_item i st) = cn_handle st" "cn_published (push_item i st) = cn_published st"
  "wc_queue (cn_chan (push_item i st)) = wc_queue (cn_chan st) @ [i]"
  "wc_closed (cn_chan (push_item i st)) = wc_closed (cn_chan st)"
  by (simp_all add: push_item_def)

lemma signal_closed_sel [simp]:
  "cn_pc (signal_closed st) = cn_pc st" "cn_pending (signal_closed st) = cn_pending st"
  "cn_stage (signal_closed st) = cn_stage st" "cn_open (signal_closed st) = cn_open st"
  "cn_handle (signal_closed st) = cn_handle st" "cn_published (signal_closed st) = cn_published st"
  "wc_queue (cn_chan (signal_closed st)) = wc_queue (cn_chan st) @ [IClosed]"
  "wc_closed (cn_chan (signal_closed st))"
  by (simp_all add: signal_closed_def)

lemma answered_receiver: "answered W Receiver pc = pc"
  by (simp add: answered_def)

lemma publish_answer_sel:
  "cn_pc (publish_answer L W sig_key Sender nonce st) = answered W Sender (cn_pc st)"
  "cn_pending (publish_answer L W sig_key role nonce st) = cn_pending st"
  "cn_stage (publish_answer L W sig_key role nonce st) = cn_stage st"
  "cn_open (publish_answer L W sig_key role nonce st) = cn_open st"
  by (simp_all add: publish_answer_def answered_def split: prod.split sum.split option.split)

lemma pump_ignores: "\<not> from_peer L sig_key role frame \<Longrightarrow> pump_step L W sig_key role nonce frame st = st"
  by (auto simp: pump_step_def from_peer_def split: option.splits sum.splits)

lemma pump_step_stage [simp]:
  "cn_stage (pump_step L W sig_key role nonce frame st) = cn_stage st"
  "cn_open (pump_step L W sig_key role nonce frame st) = cn_open st"
  by (auto simp: pump_step_def publish_answer_sel Let_def split: option.split sum.split prod.split)

lemma pump_sealed:
  assumes "aead_correct L" and "length nonce' = 24"
  shows "pump_step L W sig_key role nonce (sealed_frame L nonce' sig_key KIND_SDP (other role) json) st =
      (case un_sdp W json of
         None \<Rightarrow> st
       | Some sdp \<Rightarrow>
           (case set_remote_description W sdp (cn_pc st) of
              (Inl _, pc) \<Rightarrow> st\<lparr>cn_pc := pc\<rparr>
            | (Inr _, pc) \<Rightarrow>
                let st = st\<lparr>cn_pc := add_candidates W (cn_pending st) pc, cn_pending := []\<rparr> in
                if role = Sender then publish_answer L W sig_key role nonce st else st))"
    and "pump_step L W sig_key role nonce (sealed_frame L nonce' sig_key KIND_ICE (other role) json) st =
      (case un_cand W json of
         None \<Rightarrow> st
       | Some init \<Rightarrow>
           if remote_description W (cn_pc st) \<noteq> None
           then st\<lparr>cn_pc := snd (add_ice_candidate W init (cn_pc st))\<rparr>
           else st\<lparr>cn_pending := cn_pending st @ [init]\<rparr>)"
  using open_seal_random [OF assms]
  by (simp_all add: pump_step_def sealed_frame_def KIND_SDP_def KIND_ICE_def)

lemma pump_signal:
  assumes "aead_correct L" and "webrtc_json W" and "length nonce' = 24"
    and "signal_frame L W sig_key (other role) nonce' s = Some frame"
  shows "pump_view (pump_step L W sig_key role nonce frame st) = apply_signal W role s (pump_view st)"
proof (cases s)
  case (SSdp d)
  then obtain json where "js_sdp W d = Some json" and fr: "frame = sealed_frame L nonce' sig_key KIND_SDP (other role) json"
    using assms(4) by auto
  then have "un_sdp W json = Some d" using assms(2) by (simp add: webrtc_json_def)
  then show ?thesis unfolding fr pump_sealed [OF assms(1,3)] SSdp
    by (cases role) (simp_all add: pump_view_def publish_answer_sel answered_receiver split: prod.split sum.split)
next
  case (SCand c)
  then obtain json where "js_cand W c = Some json" and fr: "frame = sealed_frame L nonce' sig_key KIND_ICE (other role) json"
    using assms(4) by auto
  then have "un_cand W json = Some c" using assms(2) by (simp add: webrtc_json_def)
  then show ?thesis by (simp add: SCand fr pump_sealed [OF assms(1,3)] pump_view_def)
qed

text \<open>Sealed frames of the peer are recognised, those of the own side are not.\<close>

lemma from_peer_sealed [simp]:
  "aead_correct L \<Longrightarrow> length nonce = 24 \<Longrightarrow>
   from_peer L sig_key role (sealed_frame L nonce sig_key kind r json) \<longleftrightarrow> r = other role"
  by (simp add: from_peer_def sealed_frame_def open_seal_random)

fun event_frame :: "'cand rtc_event \<Rightarrow> bytes option" where
  "event_frame (PeerFrame _ frame) = Some frame"
| "event_frame _ = None"

definition peer_frames :: "'cand rtc_event list \<Rightarrow> bytes list" where
  "peer_frames evs = List.map_filter event_frame evs"

lemma peer_frames_simps [simp]:
  "peer_frames [] = []"
  "peer_frames (ev # evs) =
     (case event_frame ev of None \<Rightarrow> peer_frames evs | Some frame \<Rightarrow> frame # peer_frames evs)"
  by (auto simp: peer_frames_def List.map_filter_def split: option.split)

lemma rtc_run_simps [simp]:
  "rtc_run L W sig_key role [] st = st"
  "rtc_run L W sig_key role (ev # evs) st = rtc_run L W sig_key role evs (rtc_step L W sig_key role ev st)"
  by (simp_all add: rtc_run_def)

definition waiting :: "('pc, 'sdp, 'cand) conn \<Rightarrow> bool" where
  "waiting st \<longleftrightarrow> cn_stage st = WaitOpen \<and> \<not> cn_open st"

lemma waiting_step:
  "waiting st \<Longrightarrow> ev \<noteq> ChannelOpen \<Longrightarrow> waiting (rtc_step L W sig_key role ev st)"
  by (cases ev) (auto simp: waiting_def on_ice_candidate_def on_state_change_def task_step_def
    split: option.split sum.split)

lemma view_step:
  "waiting st \<Longrightarrow> ev \<noteq> ChannelOpen \<Longrightarrow> event_frame ev = None \<Longrightarrow>
   pump_view (rtc_step L W sig_key role ev st) = pump_view st"
  by (cases ev) (auto simp: waiting_def on_ice_candidate_def on_state_change_def task_step_def pump_view_def
    split: option.split sum.split)

text \<open>
  Until the channel opens, the pump's state is that of the peer's signals applied in their order:
  foreign frames, its own echo and all callbacks in between change nothing of it.
\<close>

lemma pump_refines:
  assumes "aead_correct L" and "webrtc_json W"
  shows "waiting st \<Longrightarrow> ChannelOpen \<notin> set evs \<Longrightarrow> \<forall>x \<in> set sent. length (fst x) = 24 \<Longrightarrow>
    map Some (filter (from_peer L sig_key role) (peer_frames evs)) =
      map (\<lambda>x. signal_frame L W sig_key (other role) (fst x) (snd x)) sent \<Longrightarrow>
    pump_view (rtc_run L W sig_key role evs st) = fold (apply_signal W role) (map snd sent) (pump_view st)"
proof (induction evs arbitrary: st sent)
  case Nil
  then show ?case by simp
next
  case (Cons ev evs)
  let ?st = "rtc_step L W sig_key role ev st"
  have w: "waiting ?st" by (rule waiting_step) (use Cons.prems in auto)
  show ?case
  proof (cases "event_frame ev")
    case None
    have "pump_view ?st = pump_view st" by (rule view_step [OF Cons.prems(1) _ None]) (use Cons.prems in auto)
    then show ?thesis using Cons.IH [OF w, of sent] Cons.prems None by simp
  next
    case (Some frame)
    then obtain nonce where ev: "ev = PeerFrame nonce frame" by (cases ev) auto
    have st: "?st = pump_step L W sig_key role nonce frame st" using Cons.prems(1) by (simp add: ev waiting_def)
    show ?thesis
    proof (cases "from_peer L sig_key role frame")
      case False
      then have "?st = st" by (simp add: st pump_ignores)
      then show ?thesis using Cons.IH [OF w, of sent] Cons.prems Some False by simp
    next
      case True
      then obtain x rest where sent: "sent = x # rest"
        and x: "signal_frame L W sig_key (other role) (fst x) (snd x) = Some frame"
        and rest: "map Some (filter (from_peer L sig_key role) (peer_frames evs)) =
          map (\<lambda>x. signal_frame L W sig_key (other role) (fst x) (snd x)) rest"
        using Cons.prems(4) Some by (cases sent) auto
      have "pump_view ?st = apply_signal W role (snd x) (pump_view st)"
        unfolding st by (rule pump_signal [OF assms _ x]) (use Cons.prems(3) sent in simp)
      then show ?thesis using Cons.IH [OF w _ _ rest] Cons.prems(2,3) sent by simp
    qed
  qed
qed

lemma remote_kept:
  assumes "pc_contract W"
  shows "remote_description W (add_candidates W cs pc) = remote_description W pc"
    and "remote_description W (answered W role pc) = remote_description W pc"
proof -
  show "remote_description W (add_candidates W cs pc) = remote_description W pc"
    using assms by (induction cs arbitrary: pc) (simp_all add: add_candidates_def pc_contract_def)
  have "remote_description W (snd (create_answer W pc)) = remote_description W pc"
    "remote_description W (snd (set_local_description W s p)) = remote_description W p" for s p
    using assms by (simp_all add: pc_contract_def)
  then show "remote_description W (answered W role pc) = remote_description W pc"
    by (auto simp: answered_def split: prod.splits sum.splits)
qed

lemma candidates_buffered:
  "remote_description W pc = None \<Longrightarrow>
   fold (apply_signal W role) (map SCand xs) (pc, pending) = (pc, pending @ xs)"
  by (induction xs arbitrary: pending) simp_all

lemma candidates_added:
  assumes "pc_contract W"
  shows "remote_description W pc \<noteq> None \<Longrightarrow>
    fold (apply_signal W role) (map SCand ys) (pc, []) = (add_candidates W ys pc, [])"
proof (induction ys arbitrary: pc)
  case Nil
  then show ?case by (simp add: add_candidates_def)
next
  case (Cons y ys)
  have "remote_description W (snd (add_ice_candidate W y pc)) \<noteq> None"
    using assms Cons.prems by (simp add: pc_contract_def)
  then show ?case using Cons by (simp add: add_candidates_def)
qed

lemma signals_applied:
  assumes pc: "pc_contract W" and none: "remote_description W pc = None"
    and set: "set_remote_description W d pc = (Inr (), pc1)"
  shows "fold (apply_signal W role) (map SCand xs @ SSdp d # map SCand ys) (pc, []) =
    (add_candidates W ys (answered W role (add_candidates W xs pc1)), [])"
proof -
  have "remote_description W pc1 \<noteq> None" using pc set by (auto simp: pc_contract_def)
  then have "remote_description W (answered W role (add_candidates W xs pc1)) \<noteq> None"
    by (simp add: remote_kept [OF pc])
  from candidates_added [OF pc this] show ?thesis
    using candidates_buffered [OF none, of role xs "[]"] by (simp add: set)
qed

section \<open>Order and end of the channel\<close>

fun chan_items :: "'cand rtc_event \<Rightarrow> item list" where
  "chan_items (ChannelMessage m) = [IMsg m]"
| "chan_items ChannelClose = [IClosed]"
| "chan_items (StateChange s) = (if s = PcFailed \<or> s = PcClosed then [IClosed] else [])"
| "chan_items _ = []"

fun item_result :: "item \<Rightarrow> bytes res" where
  "item_result (IMsg m) = Inr m"
| "item_result IClosed = Inl channel_closed"

text \<open>The results of up to \<open>n\<close> receives, as far as the queue has them.\<close>

fun wchan_recvs :: "nat \<Rightarrow> wchan \<Rightarrow> bytes res list" where
  "wchan_recvs 0 ch = []"
| "wchan_recvs (Suc n) ch =
     (case wchan_recv ch of None \<Rightarrow> [] | Some (r, ch) \<Rightarrow> r # wchan_recvs n ch)"

lemma wchan_recvs_take: "wchan_recvs n ch = take n (map item_result (wc_queue ch))"
proof (induction n arbitrary: ch)
  case (Suc n)
  then show ?case by (auto simp: wchan_recv_def split: list.split item.split)
qed simp

lemma pump_step_chan [simp]:
  "cn_chan (pump_step L W sig_key role nonce frame st) = cn_chan st"
  "cn_handle (pump_step L W sig_key role nonce frame st) = cn_handle st"
  by (auto simp: pump_step_def publish_answer_def Let_def split: option.split sum.split prod.split)

lemma task_step_chan [simp]:
  "cn_chan (task_step L W sig_key role nonce outcome st) = cn_chan st"
  "cn_handle st \<Longrightarrow> cn_handle (task_step L W sig_key role nonce outcome st)"
  by (auto simp: task_step_def fail_with_def split: stage.split sum.split prod.split role.split option.split)

lemma wired_step:
  assumes "cn_handle st"
  shows "cn_handle (rtc_step L W sig_key role ev st)"
    and "wc_queue (cn_chan (rtc_step L W sig_key role ev st)) = wc_queue (cn_chan st) @ chan_items ev"
    and "wc_closed (cn_chan (rtc_step L W sig_key role ev st)) \<longleftrightarrow> wc_closed (cn_chan st) \<or> IClosed \<in> set (chan_items ev)"
  using assms
  by (cases ev; auto simp: on_ice_candidate_def on_state_change_def split: option.split sum.split)+

lemma wired_run:
  assumes "cn_handle st"
  shows "wc_queue (cn_chan (rtc_run L W sig_key role evs st)) = wc_queue (cn_chan st) @ concat (map chan_items evs)"
    and "wc_closed (cn_chan (rtc_run L W sig_key role evs st)) \<longleftrightarrow>
      wc_closed (cn_chan st) \<or> IClosed \<in> set (concat (map chan_items evs))"
  using assms by (induction evs arbitrary: st) (simp_all add: wired_step)

section \<open>No wakeup is lost\<close>

definition race_inv :: "race \<Rightarrow> bool" where
  "race_inv s \<longleftrightarrow>
     (rc_send s = SEnabled \<or> rc_send s = SWaiting \<longrightarrow> rc_waiter s \<or> rc_woken s) \<and>
     (rc_send s = SWaiting \<and> rc_flag s \<longrightarrow> rc_woken s \<or> 0 < rc_closing s) \<and>
     (0 < rc_closing s \<longrightarrow> rc_flag s)"

lemma race_inv_step: "race_step s s' \<Longrightarrow> race_inv s \<Longrightarrow> race_inv s'"
  by (induction rule: race_step.induct) (auto simp: race_inv_def)

lemma race_reach_inv: "race_step\<^sup>*\<^sup>* race_start s \<Longrightarrow> race_inv s"
proof (induction rule: rtranclp_induct)
  case base
  then show ?case by (simp add: race_inv_def race_start_def)
next
  case (step s s')
  then show ?case using race_inv_step by blast
qed

end
