(* ===== verification/B2P_Net.thy ===== *)
theory B2P_Net
  imports B2P_Stun
begin

text \<open>
  IP addresses as the network code reads and prints them: the textual forms of
  \<^verbatim>\<open>std::net::IpAddr\<close> and \<^verbatim>\<open>SocketAddr\<close>, on which src/src/doh.rs and
  src/src/doctor.rs rely.
\<close>

datatype ip_addr = Ip4 bytes | Ip6 "u16 list"

section \<open>Reading an address\<close>

definition to_digit :: "nat \<Rightarrow> char \<Rightarrow> nat option" where
  "to_digit radix c =
     (let n = (of_char c :: nat);
          d = (if 48 \<le> n \<and> n \<le> 57 then n - 48
               else if 97 \<le> n \<and> n \<le> 122 then n - 87
               else if 65 \<le> n \<and> n \<le> 90 then n - 55 else 36)
      in if d < radix then Some d else None)"

text \<open>Value, number of digits and rest; more than \<open>most\<close> digits are an error.\<close>

fun read_digits :: "nat \<Rightarrow> nat \<Rightarrow> nat \<Rightarrow> nat \<Rightarrow> string \<Rightarrow> (nat \<times> nat \<times> string) option" where
  "read_digits radix most acc n [] = Some (acc, n, [])"
| "read_digits radix most acc n (c # cs) =
     (case to_digit radix c of
        None \<Rightarrow> Some (acc, n, c # cs)
      | Some d \<Rightarrow>
          if n + 1 > most then None else read_digits radix most (acc * radix + d) (n + 1) cs)"

definition read_number :: "nat \<Rightarrow> nat \<Rightarrow> bool \<Rightarrow> nat \<Rightarrow> string \<Rightarrow> (nat \<times> string) option" where
  "read_number radix most zero_prefix bound s =
     (case read_digits radix most 0 0 s of
        None \<Rightarrow> None
      | Some (v, n, rest) \<Rightarrow>
          if n = 0 \<or> (\<not> zero_prefix \<and> take 1 s = ''0'' \<and> 1 < n) \<or> bound \<le> v then None
          else Some (v, rest))"

definition read_separator ::
  "char \<Rightarrow> nat \<Rightarrow> (string \<Rightarrow> ('a \<times> string) option) \<Rightarrow> string \<Rightarrow> ('a \<times> string) option" where
  "read_separator sep i inner s =
     (if i = 0 then inner s
      else case s of c # cs \<Rightarrow> if c = sep then inner cs else None | [] \<Rightarrow> None)"

fun read_octets :: "nat \<Rightarrow> nat \<Rightarrow> string \<Rightarrow> (bytes \<times> string) option" where
  "read_octets i 0 s = Some ([], s)"
| "read_octets i (Suc n) s =
     (case read_separator CHR ''.'' i (read_number 10 3 False 256) s of
        None \<Rightarrow> None
      | Some (v, rest) \<Rightarrow>
          (case read_octets (Suc i) n rest of
             None \<Rightarrow> None
           | Some (vs, rest) \<Rightarrow> Some (of_nat v # vs, rest)))"

definition read_ipv4_addr :: "string \<Rightarrow> (bytes \<times> string) option" where
  "read_ipv4_addr s = read_octets 0 4 s"

text \<open>Up to \<open>n\<close> groups, the first of them the \<open>i\<close>th; the flag tells that an IPv4 address ended them.\<close>

fun read_groups :: "nat \<Rightarrow> nat \<Rightarrow> string \<Rightarrow> u16 list \<times> bool \<times> string" where
  "read_groups i 0 s = ([], False, s)"
| "read_groups i (Suc n) s =
     (case (if 0 < n then read_separator CHR '':'' i read_ipv4_addr s else None) of
        Some (v4, rest) \<Rightarrow> ([be16 (v4 ! 0) (v4 ! 1), be16 (v4 ! 2) (v4 ! 3)], True, rest)
      | None \<Rightarrow>
          (case read_separator CHR '':'' i (read_number 16 4 True 65536) s of
             None \<Rightarrow> ([], False, s)
           | Some (g, rest) \<Rightarrow>
               (case read_groups (Suc i) n rest of (gs, v4, rest) \<Rightarrow> (of_nat g # gs, v4, rest))))"

definition read_ipv6_addr :: "string \<Rightarrow> (u16 list \<times> string) option" where
  "read_ipv6_addr s =
     (case read_groups 0 8 s of (front, v4, rest) \<Rightarrow>
        if length front = 8 then Some (front, rest)
        else if v4 then None
        else
          (case strip_pre ''::'' rest of
             None \<Rightarrow> None
           | Some rest \<Rightarrow>
               (case read_groups 0 (8 - (length front + 1)) rest of (rear, _, rest) \<Rightarrow>
                  Some (front @ replicate (8 - length front - length rear) 0 @ rear, rest))))"

definition parse_ip :: "string \<Rightarrow> ip_addr option" where
  "parse_ip s =
     (case read_ipv4_addr s of
        Some (v4, rest) \<Rightarrow> if rest = [] then Some (Ip4 v4) else None
      | None \<Rightarrow>
          (case read_ipv6_addr s of
             Some (v6, rest) \<Rightarrow> if rest = [] then Some (Ip6 v6) else None
           | None \<Rightarrow> None))"

section \<open>Printing an address\<close>

fun intercalate :: "string \<Rightarrow> string list \<Rightarrow> string" where
  "intercalate sep [] = []"
| "intercalate sep [s] = s"
| "intercalate sep (s # ss) = s @ sep @ intercalate sep ss"

definition ipv4_text :: "bytes \<Rightarrow> string" where
  "ipv4_text b = intercalate ''.'' (map (\<lambda>o'. show_nat (unat o')) b)"

definition hex_char :: "nat \<Rightarrow> char" where
  "hex_char d = (if d < 10 then char_of (48 + d) else char_of (87 + d))"

fun hex_text :: "nat \<Rightarrow> string" where
  "hex_text n = (if n < 16 then [hex_char n] else hex_text (n div 16) @ [hex_char (n mod 16)])"

declare hex_text.simps [simp del]

text \<open>The first longest run of zero segments: start and length.\<close>

fun zero_span :: "nat \<Rightarrow> nat \<times> nat \<Rightarrow> nat \<times> nat \<Rightarrow> u16 list \<Rightarrow> nat \<times> nat" where
  "zero_span i longest current [] = longest"
| "zero_span i longest (start, len) (g # gs) =
     (if g = 0 then
        let start = (if len = 0 then i else start); len = len + 1 in
        zero_span (i + 1) (if len > snd longest then (start, len) else longest) (start, len) gs
      else zero_span (i + 1) longest (0, 0) gs)"

definition segments_text :: "u16 list \<Rightarrow> string" where
  "segments_text gs = intercalate '':'' (map (\<lambda>g. hex_text (unat g)) gs)"

definition u16_octets :: "u16 \<Rightarrow> bytes" where
  "u16_octets g = [of_nat (unat g div 256), of_nat (unat g mod 256)]"

definition ipv6_text :: "u16 list \<Rightarrow> string" where
  "ipv6_text gs =
     (if take 6 gs = [0, 0, 0, 0, 0, 0xffff]
      then ''::ffff:'' @ ipv4_text (concat (map u16_octets (drop 6 gs)))
      else
        (case zero_span 0 (0, 0) (0, 0) gs of (start, len) \<Rightarrow>
           if 1 < len
           then segments_text (take start gs) @ ''::'' @ segments_text (drop (start + len) gs)
           else segments_text gs))"

fun ip_text :: "ip_addr \<Rightarrow> string" where
  "ip_text (Ip4 b) = ipv4_text b"
| "ip_text (Ip6 gs) = ipv6_text gs"

fun segments_of :: "bytes \<Rightarrow> u16 list" where
  "segments_of (a # b # rest) = be16 a b # segments_of rest"
| "segments_of _ = []"

fun socket_addr_text :: "socket_addr \<Rightarrow> string" where
  "socket_addr_text (V4 b port) = ipv4_text b @ '':'' @ show_nat (unat port)"
| "socket_addr_text (V6 b port) = ''['' @ ipv6_text (segments_of b) @ '']:'' @ show_nat (unat port)"

section \<open>Classes of addresses\<close>

fun is_loopback :: "ip_addr \<Rightarrow> bool" where
  "is_loopback (Ip4 b) = (b ! 0 = 127)"
| "is_loopback (Ip6 gs) = (gs = [0, 0, 0, 0, 0, 0, 0, 1])"

fun is_unspecified :: "ip_addr \<Rightarrow> bool" where
  "is_unspecified (Ip4 b) = (b = [0, 0, 0, 0])"
| "is_unspecified (Ip6 gs) = (gs = [0, 0, 0, 0, 0, 0, 0, 0])"

section \<open>Shape of what is read\<close>

lemma read_octets_length: "read_octets i n s = Some (vs, rest) \<Longrightarrow> length vs = n"
  by (induction i n s arbitrary: vs rest rule: read_octets.induct) (auto split: option.splits prod.splits)

lemma read_groups_length: "read_groups i n s = (gs, v4, rest) \<Longrightarrow> length gs \<le> n"
proof (induction i n s arbitrary: gs v4 rest rule: read_groups.induct)
  case (2 i n s)
  then show ?case by (fastforce split: option.splits prod.splits if_splits)
qed simp

text \<open>An address that was read has four octets or eight segments.\<close>

fun ip_wf :: "ip_addr \<Rightarrow> bool" where
  "ip_wf (Ip4 b) = (length b = 4)"
| "ip_wf (Ip6 gs) = (length gs = 8)"

lemma parse_ip_wf:
  assumes "parse_ip s = Some ip"
  shows "ip_wf ip"
proof (cases "read_ipv4_addr s")
  case None
  then obtain v6 where r: "read_ipv6_addr s = Some (v6, [])" and ip: "ip = Ip6 v6"
    using assms by (auto simp: parse_ip_def split: option.splits if_splits)
  obtain front v4 rest where g: "read_groups 0 8 s = (front, v4, rest)" by (metis surj_pair)
  note lf = read_groups_length [OF g]
  show ?thesis
  proof (cases "length front = 8")
    case True
    then show ?thesis using r g ip by (auto simp: read_ipv6_addr_def)
  next
    case False
    then obtain rest2 rear b r3 where b: "read_groups 0 (8 - (length front + 1)) rest2 = (rear, b, r3)"
      and v6: "v6 = front @ replicate (8 - length front - length rear) 0 @ rear"
      using r g by (auto simp: read_ipv6_addr_def split: option.splits prod.splits if_splits)
    from read_groups_length [OF b] lf False show ?thesis by (simp add: ip v6)
  qed
next
  case (Some x)
  then show ?thesis using assms read_octets_length [of 0 4 s]
    by (auto simp: parse_ip_def read_ipv4_addr_def split: prod.splits if_splits)
qed

end
