(* ===== verification/B2P_Trust.thy ===== *)
theory B2P_Trust
  imports B2P_Send B2P_Net
begin

text \<open>
  Outgoing HTTPS: the trust options of every client (src/src/http.rs), the probe that names who
  signed the certificate the network presents (src/src/tlsprobe.rs), and name resolution over HTTPS
  (src/src/doh.rs); and the two users of them, the TLS connector of the relay
  (src/src/transport/relay.rs) and the client of the tunnel sender (src/src/send.rs). The PEM, X.509 and TLS crates and the HTTP client are arguments; one TLS
  handshake is the record of what each of its steps returns.
\<close>

section \<open>Clients (src/src/http.rs)\<close>

record tls_opts =
  to_cafile :: "path option"

record client_builder =
  cb_connect_timeout :: nat
  cb_roots :: "bytes list"

text \<open>Certificates are kept as their DER bytes.\<close>

record pem_lib =
  from_pem_bundle :: "bytes \<Rightarrow> bytes list res"
  pemfile_certs :: "bytes \<Rightarrow> bytes res list"

definition load_pem_certs :: "pem_lib \<Rightarrow> path \<Rightarrow> bytes list io" where
  "load_pem_certs P p =
     bindIO (io_context (''reading --cafile '' @ path_text p) (fs_read p)) (\<lambda>pem f.
     case context_of (''parsing PEM certificates in '' @ path_text p) (from_pem_bundle P pem) of
       Inl e \<Rightarrow> (Inl e, f)
     | Inr certs \<Rightarrow>
         if certs = [] then (Inl (Msg (''no certificates found in '' @ path_text p)), f)
         else (Inr certs, f))"

definition http_builder :: "pem_lib \<Rightarrow> tls_opts \<Rightarrow> client_builder io" where
  "http_builder P opts =
     (let b = \<lparr>cb_connect_timeout = 15, cb_roots = []\<rparr> in
      case to_cafile opts of
        None \<Rightarrow> io_ret b
      | Some p \<Rightarrow>
          bindIO (load_pem_certs P p) (\<lambda>certs.
          io_ret (fold (\<lambda>c b. b\<lparr>cb_roots := cb_roots b @ [c]\<rparr>) certs b)))"

definition http_client :: "pem_lib \<Rightarrow> (client_builder \<Rightarrow> 'c res) \<Rightarrow> tls_opts \<Rightarrow> 'c io" where
  "http_client P build opts = bindIO (http_builder P opts) (\<lambda>b f. (build b, f))"

definition error_for_status :: "http_response \<Rightarrow> http_response res" where
  "error_for_status r =
     (if 400 \<le> hr_status r \<and> hr_status r < 600 then Inl (Msg ''HTTP status error'') else Inr r)"

section \<open>Who signed the certificate (src/src/tlsprobe.rs)\<close>

record tls_report =
  tr_leaf_issuer :: string
  tr_os_store_verifies :: bool
  tr_os_error :: "string option"

definition PUBLIC_CA_MARKERS :: "string list" where
  "PUBLIC_CA_MARKERS =
     [''Let'' @ [CHR 39] @ ''s Encrypt'', ''ISRG'', ''Google Trust Services'', ''DigiCert'', ''Cloudflare'',
      ''Amazon'', ''Sectigo'', ''COMODO'', ''USERTrust'', ''GlobalSign'', ''Entrust'', ''GoDaddy'',
      ''Starfield'', ''ZeroSSL'', ''SSL.com'', ''IdenTrust'', ''QuoVadis'', ''Buypass'', ''Actalis'',
      ''Microsoft'', ''Apple'']"

definition looks_public :: "string \<Rightarrow> bool" where
  "looks_public issuer = list_ex (\<lambda>m. contains_str m issuer) PUBLIC_CA_MARKERS"

definition issuer_of :: "(bytes \<Rightarrow> string res) \<Rightarrow> bytes \<Rightarrow> string res" where
  "issuer_of x509 der =
     map_err (\<lambda>e. Msg (''parsing server certificate: '' @ display_err e)) (x509 der)"

text \<open>Collecting the parsed items into a result stops at the first error.\<close>

fun collect_res :: "'a res list \<Rightarrow> 'a list res" where
  "collect_res [] = Inr []"
| "collect_res (Inl e # rs) = Inl e"
| "collect_res (Inr v # rs) = bindR (collect_res rs) (\<lambda>vs. Inr (v # vs))"

definition load_pem_roots :: "pem_lib \<Rightarrow> path \<Rightarrow> bytes list io" where
  "load_pem_roots P p =
     bindIO (io_context (''reading '' @ path_text p) (fs_read p)) (\<lambda>pem f.
     case context_of (''parsing PEM certificates in '' @ path_text p) (collect_res (pemfile_certs P pem)) of
       Inl e \<Rightarrow> (Inl e, f)
     | Inr certs \<Rightarrow>
         if certs = [] then (Inl (Msg (''no certificates found in '' @ path_text p)), f)
         else (Inr certs, f))"

record tls_session =
  ts_name :: "unit res"
  ts_conn :: "unit res"
  ts_addrs :: "ip_addr list res"
  ts_tcp :: "unit res"
  ts_timeouts :: "unit res"
  ts_rounds :: "unit res list"
    \<comment> \<open>\<^verbatim>\<open>complete_io\<close>, as long as the connection is handshaking\<close>
  ts_leaf :: "bytes option"
    \<comment> \<open>the certificate the verifier is asked about\<close>

definition tls_connect :: "tls_session \<Rightarrow> unit res" where
  "tls_connect S =
     bindR (ts_addrs S) (\<lambda>addrs.
     bindR (ok_or (Msg ''hostname did not resolve'') (case addrs of [] \<Rightarrow> None | a # _ \<Rightarrow> Some a)) (\<lambda>_.
     bindR (ts_tcp S) (\<lambda>_. ts_timeouts S)))"

fun handshake_rounds :: "unit res list \<Rightarrow> unit res" where
  "handshake_rounds [] = Inr ()"
| "handshake_rounds (r # rs) = bindR (context_of ''TLS handshake'' r) (\<lambda>_. handshake_rounds rs)"

definition tls_handshake :: "tls_session \<Rightarrow> unit res" where
  "tls_handshake S =
     bindR (ts_name S) (\<lambda>_. bindR (ts_conn S) (\<lambda>_. bindR (tls_connect S) (\<lambda>_.
     handshake_rounds (ts_rounds S))))"

text \<open>The verifier of the first pass: it keeps the leaf and accepts everything.\<close>

definition verify_server_cert :: "bytes \<Rightarrow> bytes option \<Rightarrow> unit res \<times> bytes option" where
  "verify_server_cert end_entity captured = (Inr (), Some end_entity)"

definition captured_leaf :: "tls_session \<Rightarrow> bytes option" where
  "captured_leaf S =
     (case ts_leaf S of None \<Rightarrow> None | Some der \<Rightarrow> snd (verify_server_cert der None))"

text \<open>
  \<open>capture\<close> is the handshake with that verifier, \<open>verified roots\<close> the one against a root store;
  \<open>root_ok\<close> tells which certificates the store takes.
\<close>

definition probe_blocking ::
  "(bytes \<Rightarrow> string res) \<Rightarrow> (bytes \<Rightarrow> bool) \<Rightarrow> unit res \<Rightarrow> bytes list \<Rightarrow> tls_session \<Rightarrow>
   (bytes list \<Rightarrow> tls_session) \<Rightarrow> bytes list \<Rightarrow> tls_report res" where
  "probe_blocking x509 root_ok versions native capture verified extra_roots =
     bindR versions (\<lambda>_.
     bindR (tls_handshake capture) (\<lambda>_.
     bindR (ok_or (Msg ''server presented no certificate'') (captured_leaf capture)) (\<lambda>leaf.
     bindR (issuer_of x509 leaf) (\<lambda>leaf_issuer.
     let roots = filter root_ok native @ filter root_ok extra_roots;
         os = tls_handshake (verified roots) in
     Inr \<lparr>tr_leaf_issuer = leaf_issuer,
          tr_os_store_verifies = (case os of Inr _ \<Rightarrow> True | Inl _ \<Rightarrow> False),
          tr_os_error = (case os of Inr _ \<Rightarrow> None | Inl e \<Rightarrow> Some (display_alt e))\<rparr>))))"

section \<open>Resolution over HTTPS (src/src/doh.rs)\<close>

definition PROVIDERS :: "(string \<times> string) list" where
  "PROVIDERS =
     [(''cloudflare'', ''https://1.1.1.1/dns-query''), (''google'', ''https://8.8.8.8/resolve'')]"

definition A_RECORD :: u16 where "A_RECORD = 1"
definition AAAA_RECORD :: u16 where "AAAA_RECORD = 28"

record doh_answer =
  dn_kind :: u16
  dn_data :: string

text \<open>
  \<open>dh_get base name type\<close> is the reply to the request, \<open>dh_json\<close> the JSON decoder, which takes a
  missing list of answers for an empty one.
\<close>

record doh_net =
  dh_get :: "string \<Rightarrow> string \<Rightarrow> string \<Rightarrow> http_response res"
  dh_json :: "bytes \<Rightarrow> doh_answer list res"

definition doh_answers :: "doh_net \<Rightarrow> string \<Rightarrow> string \<Rightarrow> string \<Rightarrow> doh_answer list res" where
  "doh_answers D base host kind =
     bindR (context_of ''DoH request failed'' (dh_get D base host kind)) (\<lambda>r.
     bindR (context_of ''DoH endpoint returned an error status'' (error_for_status r)) (\<lambda>r.
     context_of ''DoH response was not valid JSON'' (dh_json D (hr_body r))))"

fun answer_ip :: "doh_answer \<Rightarrow> ip_addr option" where
  "answer_ip ans =
     (if dn_kind ans = A_RECORD \<or> dn_kind ans = AAAA_RECORD then parse_ip (dn_data ans) else None)"

fun doh_kinds :: "doh_net \<Rightarrow> string \<Rightarrow> string \<Rightarrow> string list \<Rightarrow> ip_addr list \<Rightarrow> ip_addr list res" where
  "doh_kinds D base host [] ips = Inr ips"
| "doh_kinds D base host (kind # kinds) ips =
     bindR (doh_answers D base host kind) (\<lambda>answers.
     doh_kinds D base host kinds (ips @ List.map_filter answer_ip answers))"

definition doh_query :: "doh_net \<Rightarrow> string \<Rightarrow> string \<Rightarrow> ip_addr list res" where
  "doh_query D base host = doh_kinds D base host [''A'', ''AAAA''] []"

fun try_providers ::
  "doh_net \<Rightarrow> string \<Rightarrow> (string \<times> string) list \<Rightarrow> err option \<Rightarrow> ip_addr list res" where
  "try_providers D host [] last_err =
     Inl (case last_err of Some e \<Rightarrow> e | None \<Rightarrow> Msg ''no DoH providers configured'')"
| "try_providers D host ((label, base) # rest) last_err =
     (case doh_query D base host of
        Inr ips \<Rightarrow>
          if ips \<noteq> [] then Inr ips
          else try_providers D host rest (Some (Msg (label @ '': no A/AAAA records for '' @ host)))
      | Inl e \<Rightarrow> try_providers D host rest (Some (Ctx (''DoH provider '' @ label @ '' failed'') e)))"

definition doh_resolve ::
  "pem_lib \<Rightarrow> (client_builder \<Rightarrow> doh_net res) \<Rightarrow> string \<Rightarrow> tls_opts \<Rightarrow> ip_addr list io" where
  "doh_resolve P build host tls =
     bindIO (http_client P build tls) (\<lambda>client f. (try_providers client host PROVIDERS None, f))"

section \<open>Their users\<close>

text \<open>
  The roots the relay connection trusts. Native certificates the store refuses are skipped, one of
  the \<^verbatim>\<open>--cafile\<close> is an error.
\<close>

fun add_roots :: "(bytes \<Rightarrow> bool) \<Rightarrow> bytes list \<Rightarrow> bytes list \<Rightarrow> bytes list res" where
  "add_roots root_ok roots [] = Inr roots"
| "add_roots root_ok roots (der # ders) =
     (if root_ok der then add_roots root_ok (roots @ [der]) ders else Inl (Msg ''invalid certificate''))"

definition tls_connector ::
  "pem_lib \<Rightarrow> (bytes \<Rightarrow> bool) \<Rightarrow> unit res \<Rightarrow> bytes list \<Rightarrow> tls_opts \<Rightarrow> bytes list io" where
  "tls_connector P root_ok versions native tls =
     (let roots = filter root_ok native in
      bindIO (case to_cafile tls of
                None \<Rightarrow> io_ret roots
              | Some p \<Rightarrow> bindIO (load_pem_roots P p) (\<lambda>ders f. (add_roots root_ok roots ders, f)))
        (\<lambda>roots f.
         if roots = [] then (Inl (Msg ''no trusted TLS roots available''), f)
         else (bindR (context_of ''TLS protocol setup'' versions) (\<lambda>_. Inr roots), f)))"

text \<open>
  The client of the tunnel sender, with the addresses its host is pinned to. \<open>doh\<close> makes the DoH
  client from a builder.
\<close>

definition build_client ::
  "pem_lib \<Rightarrow> (client_builder \<Rightarrow> doh_net res) \<Rightarrow> (client_builder \<Rightarrow> unit res) \<Rightarrow> string option \<Rightarrow> nat option \<Rightarrow>
   tls_opts \<Rightarrow> (client_builder \<times> (ip_addr \<times> nat) list option) io" where
  "build_client P doh build host port tls =
     bindIO (http_builder P tls) (\<lambda>builder f.
     case (case host of
             Some h \<Rightarrow>
               if parse_ip h = None \<and> h \<noteq> ''localhost''
               then (case doh_resolve P doh h tls f of (r, f) \<Rightarrow> (\<lambda>_. r, f))
               else (\<lambda>_. Inl (Msg []), f)
           | None \<Rightarrow> (\<lambda>_. Inl (Msg []), f)) of
       (resolve, f) \<Rightarrow>
         (let addrs = pinned_addrs host (\<lambda>h. parse_ip h \<noteq> None) resolve
                        (case port of Some p \<Rightarrow> p | None \<Rightarrow> 443) in
          (bindR (build builder) (\<lambda>_. Inr (builder, addrs)), f)))"

section \<open>Facts\<close>

text \<open>
  The two loaders of \<^verbatim>\<open>--cafile\<close> reach the same verdict on a file whenever the two PEM parsers do.
\<close>

lemma loaders_agree:
  assumes "\<And>b. map_sum (\<lambda>_. ()) (\<lambda>cs. cs = []) (from_pem_bundle P b) =
      map_sum (\<lambda>_. ()) (\<lambda>cs. cs = []) (collect_res (pemfile_certs P b))"
  shows "map_sum (\<lambda>_. ()) (\<lambda>_. ()) (fst (load_pem_certs P p f)) =
    map_sum (\<lambda>_. ()) (\<lambda>_. ()) (fst (load_pem_roots P p f)) \<and>
    snd (load_pem_certs P p f) = snd (load_pem_roots P p f)"
proof -
  obtain r f' where r: "fs_read p f = (r, f')" by (metis surj_pair)
  show ?thesis
  proof (cases r)
    case (Inl e)
    then show ?thesis by (simp add: load_pem_certs_def load_pem_roots_def bindIO_def io_context_def r)
  next
    case (Inr b)
    then show ?thesis using assms [of b]
      by (cases "from_pem_bundle P b"; cases "collect_res (pemfile_certs P b)")
        (simp_all add: load_pem_certs_def load_pem_roots_def bindIO_def io_context_def r)
  qed
qed

lemma builder_roots:
  "http_builder P \<lparr>to_cafile = Some p\<rparr> f =
     (case load_pem_certs P p f of
        (Inl e, f') \<Rightarrow> (Inl e, f')
      | (Inr certs, f') \<Rightarrow> (Inr \<lparr>cb_connect_timeout = 15, cb_roots = certs\<rparr>, f'))"
proof -
  have "fold (\<lambda>c b. b\<lparr>cb_roots := cb_roots b @ [c]\<rparr>) certs \<lparr>cb_connect_timeout = 15, cb_roots = rs\<rparr> =
      \<lparr>cb_connect_timeout = 15, cb_roots = rs @ certs\<rparr>" for certs rs
    by (induction certs arbitrary: rs) simp_all
  then show ?thesis
    by (simp add: http_builder_def bindIO_def io_ret_def split: prod.split sum.split)
qed

lemma doh_kinds_wf:
  "doh_kinds D base host kinds ips = Inr out \<Longrightarrow> list_all ip_wf ips \<Longrightarrow> list_all ip_wf out"
proof (induction kinds arbitrary: ips)
  case (Cons k ks)
  from Cons.prems(1) obtain answers where
    "doh_kinds D base host ks (ips @ List.map_filter answer_ip answers) = Inr out"
    by (auto simp: bindR_eq_Inr)
  moreover have "list_all ip_wf (List.map_filter answer_ip answers)"
    by (auto simp: list_all_iff List.map_filter_def dest: parse_ip_wf split: if_splits)
  ultimately show ?case using Cons by simp
qed simp

definition has_records :: "doh_net \<Rightarrow> string \<Rightarrow> string \<times> string \<Rightarrow> bool" where
  "has_records D host p =
     (case doh_query D (snd p) host of Inr ips \<Rightarrow> ips \<noteq> [] | Inl _ \<Rightarrow> False)"

text \<open>The answer is that of the first provider that has records; without one there is an error.\<close>

lemma try_providers_first:
  "(\<forall>p. find (has_records D host) ps = Some p \<longrightarrow>
      try_providers D host ps e = doh_query D (snd p) host) \<and>
   (find (has_records D host) ps = None \<longrightarrow> (\<exists>e'. try_providers D host ps e = Inl e'))"
proof (induction ps arbitrary: e)
  case Nil
  then show ?case by simp
next
  case (Cons p ps)
  obtain label base where p: "p = (label, base)" by (cases p)
  show ?case
  proof (cases "doh_query D base host")
    case (Inl err)
    then show ?thesis using Cons.IH [of "Some (Ctx (''DoH provider '' @ label @ '' failed'') err)"]
      by (simp add: p has_records_def)
  next
    case (Inr ips)
    then show ?thesis using Cons.IH [of "Some (Msg (label @ '': no A/AAAA records for '' @ host))"]
      by (simp add: p has_records_def)
  qed
qed

text \<open>The certificates of a \<^verbatim>\<open>--cafile\<close> are trusted by the relay connection, or it is not made.\<close>

lemma add_roots_all: "add_roots root_ok roots ders = Inr rs \<Longrightarrow> rs = roots @ ders"
proof (induction ders arbitrary: roots)
  case (Cons d ders)
  then show ?case using Cons.IH [of "roots @ [d]"] by (simp split: if_splits)
qed simp

lemma load_pem_roots_nonempty: "load_pem_roots P p f = (Inr ders, f') \<Longrightarrow> ders \<noteq> []"
proof -
  assume "load_pem_roots P p f = (Inr ders, f')"
  then obtain pem f1 where "(case context_of (''parsing PEM certificates in '' @ path_text p) (collect_res (pemfile_certs P pem)) of
      Inl e \<Rightarrow> (Inl e, f1)
    | Inr certs \<Rightarrow> if certs = [] then (Inl (Msg (''no certificates found in '' @ path_text p)), f1) else (Inr certs, f1)) =
      (Inr ders, f')"
    unfolding load_pem_roots_def bindIO_Inr by blast
  then show ?thesis by (cases "collect_res (pemfile_certs P pem)") (auto split: if_splits)
qed

lemma connector_trusts_cafile:
  assumes "tls_connector P root_ok versions native \<lparr>to_cafile = Some p\<rparr> f = (Inr rs, f')"
  shows "\<exists>ders f1. load_pem_roots P p f = (Inr ders, f1) \<and> ders \<noteq> [] \<and> set ders \<subseteq> set rs"
proof -
  from assms obtain ders f1 roots where l: "load_pem_roots P p f = (Inr ders, f1)"
    and a: "add_roots root_ok (filter root_ok native) ders = Inr roots" and rs: "rs = roots"
    by (auto simp: tls_connector_def bindIO_Inr bindR_eq_Inr split: if_splits)
  have "ders \<noteq> []" by (rule load_pem_roots_nonempty [OF l])
  then show ?thesis using l add_roots_all [OF a] rs by auto
qed

text \<open>
  A sender's client is pinned to the answers of DNS over HTTPS for a name, and to nothing for a
  literal address.
\<close>

lemma build_client_pins:
  assumes "build_client P doh build (Some h) port tls f = (Inr (b, Some addrs), f')"
  shows "parse_ip h = None \<and> h \<noteq> ''localhost'' \<and>
    (\<exists>ips f0 f1. doh_resolve P doh h tls f0 = (Inr ips, f1) \<and> ips \<noteq> [] \<and> map fst addrs = ips)"
  using assms
  by (auto simp: build_client_def bindIO_Inr bindR_eq_Inr pinned_addrs_def Let_def comp_def
      split: prod.splits if_splits sum.splits) blast

end
