(* ===== verification/B2P_Rendezvous.thy ===== *)
theory B2P_Rendezvous
  imports B2P_Json B2P_Handshake B2P_Trust
begin

text \<open>
  The rendezvous (src/src/rendezvous/mod.rs) and its ntfy client (src/src/rendezvous/ntfy.rs):
  publishing a frame as base64 text, and the subscription that cuts the response body into lines
  and keeps the message events. Base64, the JSON parser and the HTTP client are arguments; a
  response body is the list of its chunks, where an \<open>Inl\<close> is a transport error.
\<close>

record base64_lib =
  b64_encode :: "bytes \<Rightarrow> string"
  b64_decode :: "string \<Rightarrow> bytes option"

definition b64_correct :: "base64_lib \<Rightarrow> bool" where
  "b64_correct B \<longleftrightarrow> (\<forall>b. b64_decode B (b64_encode B b) = Some b)"

section \<open>The line format (src/src/rendezvous/mod.rs)\<close>

definition parse_ntfy_message :: "json_parser \<Rightarrow> base64_lib \<Rightarrow> string \<Rightarrow> bytes option" where
  "parse_ntfy_message P B line =
     Option.bind (P line) (\<lambda>v.
     Option.bind (json_get ''event'' v) (\<lambda>ev.
     Option.bind (json_str ev) (\<lambda>ev.
     if ev \<noteq> ''message'' then None
     else
       Option.bind (json_get ''message'' v) (\<lambda>msg.
       Option.bind (json_str msg) (b64_decode B)))))"

section \<open>The client (src/src/rendezvous/ntfy.rs)\<close>

definition SINCE_WINDOW :: string where
  "SINCE_WINDOW = ''3m''"

record ntfy_rendezvous =
  ny_base :: string

definition ntfy_new ::
  "pem_lib \<Rightarrow> (client_builder \<Rightarrow> unit res) \<Rightarrow> string \<Rightarrow> tls_opts \<Rightarrow> ntfy_rendezvous io" where
  "ntfy_new P build base tls =
     bindIO (http_client P build tls) (\<lambda>_.
     io_ret \<lparr>ny_base = trim_end_matches (\<lambda>c. c = CHR ''/'') base\<rparr>)"

text \<open>\<open>post url body\<close> is the reply to the request, or its failure.\<close>

definition ntfy_publish ::
  "base64_lib \<Rightarrow> (string \<Rightarrow> string \<Rightarrow> http_response res) \<Rightarrow> ntfy_rendezvous \<Rightarrow> string \<Rightarrow> bytes \<Rightarrow> unit res" where
  "ntfy_publish B post rv topic frame =
     (let body = b64_encode B frame in
      bindR (context_of ''publishing to the rendezvous failed'' (post (ny_base rv @ ''/'' @ topic) body)) (\<lambda>r.
      bindR (context_of ''rendezvous rejected the publish'' (error_for_status r)) (\<lambda>_. Inr ())))"

text \<open>
  The text of a body up to the first failing chunk, and whether it ended cleanly. The line reader
  cuts at line feeds, drops one carriage return before each, returns an unterminated last line
  only at a clean end, and never an empty one there.
\<close>

fun body_text :: "string res list \<Rightarrow> string \<times> bool" where
  "body_text [] = ([], True)"
| "body_text (Inl e # cs) = ([], False)"
| "body_text (Inr s # cs) = (case body_text cs of (t, clean) \<Rightarrow> (s @ t, clean))"

definition strip_cr :: "string \<Rightarrow> string" where
  "strip_cr s = (if s \<noteq> [] \<and> last s = CHR 13 then butlast s else s)"

definition body_lines :: "string res list \<Rightarrow> string list" where
  "body_lines chunks =
     (case body_text chunks of (t, clean) \<Rightarrow>
        let parts = split_char (CHR 10) t in
        map strip_cr (butlast parts) @ (if clean \<and> last parts \<noteq> [] then [last parts] else []))"

definition ntfy_subscribe ::
  "json_parser \<Rightarrow> base64_lib \<Rightarrow> (string \<Rightarrow> (nat \<times> string res list) res) \<Rightarrow> ntfy_rendezvous \<Rightarrow> string \<Rightarrow>
   bytes list res" where
  "ntfy_subscribe P B get rv topic =
     (let url = ny_base rv @ ''/'' @ topic @ ''/json?since='' @ SINCE_WINDOW in
      bindR (context_of ''subscribing to the rendezvous failed'' (get url)) (\<lambda>(code, body).
      bindR (context_of ''rendezvous rejected the subscribe''
               (error_for_status \<lparr>hr_status = code, hr_body = []\<rparr>)) (\<lambda>_.
      Inr (List.map_filter (parse_ntfy_message P B) (body_lines body)))))"

definition ntfy_close :: "ntfy_rendezvous \<Rightarrow> unit res" where
  "ntfy_close rv = Inr ()"

section \<open>Facts\<close>

text \<open>The lines of a body, and what is left after the last line feed.\<close>

lemma split_lines:
  "(\<And>l. l \<in> set ls \<Longrightarrow> CHR 10 \<notin> set l) \<Longrightarrow> CHR 10 \<notin> set rest \<Longrightarrow>
   split_char (CHR 10) (concat (map (\<lambda>l. l @ [CHR 10]) ls) @ rest) = ls @ [rest]"
  by (induction ls) simp_all

lemma body_lines_cut:
  assumes "\<And>l. l \<in> set ls \<Longrightarrow> CHR 10 \<notin> set l" and "CHR 10 \<notin> set rest"
    and "body_text chunks = (concat (map (\<lambda>l. l @ [CHR 10]) ls) @ rest, clean)"
  shows "body_lines chunks = map strip_cr ls @ (if clean \<and> rest \<noteq> [] then [rest] else [])"
  using split_lines [OF assms(1,2)] by (simp add: body_lines_def assms(3))

text \<open>What the service makes of a published text: one message event that holds it.\<close>

definition message_line :: "json_parser \<Rightarrow> string \<Rightarrow> string \<Rightarrow> bool" where
  "message_line P line t \<longleftrightarrow>
     (case P line of
        None \<Rightarrow> False
      | Some v \<Rightarrow> json_get ''event'' v = Some (JStr ''message'') \<and> json_get ''message'' v = Some (JStr t))"

lemma message_line_parsed:
  "b64_correct B \<Longrightarrow> message_line P line (b64_encode B frame) \<Longrightarrow> parse_ntfy_message P B line = Some frame"
  by (auto simp: message_line_def parse_ntfy_message_def b64_correct_def json_str_def split: option.splits)

text \<open>
  A log of lines, each the message of a published frame or something else; \<open>rest\<close> is what a broken
  connection left of the next one.
\<close>

definition ntfy_log :: "json_parser \<Rightarrow> base64_lib \<Rightarrow> (string \<times> bytes option) list \<Rightarrow> bool" where
  "ntfy_log P B log \<longleftrightarrow>
     list_all (\<lambda>(line, x). CHR 10 \<notin> set line \<and>
       (case x of
          Some frame \<Rightarrow> message_line P (strip_cr line) (b64_encode B frame)
        | None \<Rightarrow> parse_ntfy_message P B (strip_cr line) = None)) log"

lemma map_filter_log:
  "b64_correct B \<Longrightarrow> ntfy_log P B log \<Longrightarrow>
   List.map_filter (parse_ntfy_message P B) (map strip_cr (map fst log)) = List.map_filter snd log"
proof (induction log)
  case (Cons x log)
  obtain line fr where x: "x = (line, fr)" by (cases x)
  show ?case
  proof (cases fr)
    case None
    then show ?thesis using Cons by (simp add: x ntfy_log_def List.map_filter_simps)
  next
    case (Some frame)
    then have "parse_ntfy_message P B (strip_cr line) = Some frame"
      using Cons.prems message_line_parsed by (simp add: x ntfy_log_def)
    then show ?thesis using Cons Some by (simp add: x ntfy_log_def List.map_filter_simps)
  qed
qed (simp add: List.map_filter_simps)

lemma subscription_log:
  assumes b: "b64_correct B" and log: "ntfy_log P B log" and rest: "CHR 10 \<notin> set rest"
    and clean: "clean \<longrightarrow> rest = []"
    and body: "body_text body = (concat (map (\<lambda>x. fst x @ [CHR 10]) log) @ rest, clean)"
    and get: "get (ny_base rv @ ''/'' @ topic @ ''/json?since='' @ SINCE_WINDOW) = Inr (code, body)"
    and code: "code < 400"
  shows "ntfy_subscribe P B get rv topic = Inr (List.map_filter snd log)"
proof -
  have nl: "CHR 10 \<notin> set l" if "l \<in> set (map fst log)" for l
    using that log by (auto simp: ntfy_log_def list_all_iff)
  have "body_text body = (concat (map (\<lambda>l. l @ [CHR 10]) (map fst log)) @ rest, clean)"
    using body by (simp add: comp_def)
  from body_lines_cut [OF nl rest this] have "body_lines body = map strip_cr (map fst log)" using clean by auto
  then show ?thesis
    using map_filter_log [OF b log] get code by (simp add: ntfy_subscribe_def error_for_status_def Let_def)
qed

end
