(* ===== verification/B2P_Tunnel.thy ===== *)
theory B2P_Tunnel
  imports B2P_Trust
begin

text \<open>
  The cloudflared tunnel (src/src/tunnel.rs) with its table of pinned downloads
  (src/src/cloudflared_pins.rs): finding the URL in the output of the process, obtaining the binary
  and starting it. The \<^verbatim>\<open>url\<close>, SHA-256, gzip and tar crates, the HTTP client and the process
  are arguments. The mode bits of a file are not part of the model of the disk: setting them is an
  operation that may fail.
\<close>

section \<open>Pins (src/src/cloudflared_pins.rs)\<close>

definition CLOUDFLARED_VERSION :: string where
  "CLOUDFLARED_VERSION = ''2026.7.2''"

definition PINS :: "(string \<times> string \<times> string) list" where
  "PINS =
     [(''linux-amd64'', ''cloudflared-linux-amd64'',
       ''ec905ea7b7e327ff8abdde8cb64697a2152de74dbcdbf6aec9db8364eb3886cd''),
      (''linux-arm64'', ''cloudflared-linux-arm64'',
       ''405df476437e027fc6d18729a5a77155c0a33a6082aeee60a799a688f3052e66''),
      (''darwin-amd64'', ''cloudflared-darwin-amd64.tgz'',
       ''4ee0d3b48a990a2f9b5faec5838f73ec1f400aa8e0a4864be576adfafec406cb''),
      (''darwin-arm64'', ''cloudflared-darwin-arm64.tgz'',
       ''2086e51c61d6565781d84117a5007d0c826d03ffdc74acb91c08c167f9f8cd7c''),
      (''windows-amd64'', ''cloudflared-windows-amd64.exe'',
       ''cdb5d4432f6ae1595654a692a51308b69d2bf7af961f5578d9391837cf072df9'')]"

section \<open>The URL of a tunnel\<close>

text \<open>What the \<^verbatim>\<open>url\<close> crate tells of a text it accepts.\<close>

record url_view =
  uv_text :: string
  uv_scheme :: string
  uv_host :: "string option"
  uv_path :: string

type_synonym url_parser = "string \<Rightarrow> url_view option"

text \<open>The suffix that starts at the first occurrence of a pattern.\<close>

fun find_sub :: "string \<Rightarrow> string \<Rightarrow> string option" where
  "find_sub p [] = (if p = [] then Some [] else None)"
| "find_sub p (x # xs) = (if prefix p (x # xs) then Some (x # xs) else find_sub p xs)"

definition parse_tunnel_url :: "url_parser \<Rightarrow> string \<Rightarrow> url_view option" where
  "parse_tunnel_url U line =
     (case find_sub ''https://'' line of
        None \<Rightarrow> None
      | Some rest \<Rightarrow>
          (case U (takeWhile (\<lambda>c. \<not> (is_ws c \<or> c = CHR ''|'')) rest) of
             None \<Rightarrow> None
           | Some url \<Rightarrow>
               (case uv_host url of
                  None \<Rightarrow> None
                | Some host \<Rightarrow>
                    if suffix ''.trycloudflare.com'' host \<and> host \<noteq> ''api.trycloudflare.com'' \<and>
                       (uv_path url = [] \<or> uv_path url = ''/'')
                    then Some url else None)))"

record tunnel_handle =
  th_url :: url_view
  th_child :: bool

text \<open>The address the socket reports, \<open>None\<close> when one of its calls fails.\<close>

definition lan_ip :: "unit option \<Rightarrow> unit option \<Rightarrow> ip_addr option \<Rightarrow> string option" where
  "lan_ip bound connected local_addr =
     Option.bind bound (\<lambda>_. Option.bind connected (\<lambda>_. map_option ip_text local_addr))"

definition tunnel_direct :: "url_parser \<Rightarrow> string option \<Rightarrow> u16 \<Rightarrow> tunnel_handle res" where
  "tunnel_direct U lan port =
     (let ip = (case lan of Some ip \<Rightarrow> ip | None \<Rightarrow> ''127.0.0.1'') in
      bindR (ok_or (Msg ''invalid URL'') (U (''http://'' @ ip @ '':'' @ show_nat (unat port)))) (\<lambda>url.
      Inr \<lparr>th_url = url, th_child = False\<rparr>))"

text \<open>Dropping the handle kills the process it holds: \<open>running\<close> before and after.\<close>

definition tunnel_drop :: "tunnel_handle \<Rightarrow> bool \<Rightarrow> bool" where
  "tunnel_drop h running = (running \<and> \<not> th_child h)"

section \<open>The binary\<close>

definition platform_key :: "string \<Rightarrow> string \<Rightarrow> string option" where
  "platform_key os arch =
     (if (os, arch) = (''linux'', ''x86_64'') then Some ''linux-amd64''
      else if (os, arch) = (''linux'', ''aarch64'') then Some ''linux-arm64''
      else if (os, arch) = (''macos'', ''x86_64'') then Some ''darwin-amd64''
      else if (os, arch) = (''macos'', ''aarch64'') then Some ''darwin-arm64''
      else if (os, arch) = (''windows'', ''x86_64'') then Some ''windows-amd64''
      else None)"

text \<open>One entry of an archive: the last component of its path, and its content.\<close>

record tar_entry =
  te_file_name :: "string option res"
  te_content :: "bytes res"

record tunnel_env =
  tu_os :: string
  tu_arch :: string
  tu_data_dir :: "path option"
  tu_get :: "string \<Rightarrow> (nat \<times> bytes res) res"
  tu_sha256_hex :: "bytes \<Rightarrow> string"
  tu_tgz :: "bytes \<Rightarrow> tar_entry res list res"

definition binary_path :: "tunnel_env \<Rightarrow> path io" where
  "binary_path E f =
     (case tu_data_dir E of
        None \<Rightarrow> (Inl (Msg ''cannot determine data directory''), f)
      | Some d \<Rightarrow>
          (let bin_dir = d @ [''bin''];
               nm = (if tu_os E = ''windows'' then ''cloudflared.exe'' else ''cloudflared'') in
           bindIO (fs_create_dir_all bin_dir) (\<lambda>_.
           io_ret (bin_dir @ [nm @ ''-'' @ CLOUDFLARED_VERSION])) f))"

fun find_cloudflared :: "tar_entry res list \<Rightarrow> bytes res" where
  "find_cloudflared [] = Inr []"
| "find_cloudflared (Inl e # es) = Inl e"
| "find_cloudflared (Inr en # es) =
     bindR (te_file_name en) (\<lambda>nm.
     if nm = Some ''cloudflared'' then te_content en else find_cloudflared es)"

definition unpack_binary :: "tunnel_env \<Rightarrow> string \<Rightarrow> bytes \<Rightarrow> bytes res" where
  "unpack_binary E file bytes =
     (if suffix ''.tgz'' file then
        bindR (tu_tgz E bytes) (\<lambda>entries.
        bindR (find_cloudflared entries) (\<lambda>out.
        if out = [] then Inl (Msg ''cloudflared binary not found inside archive'') else Inr out))
      else Inr bytes)"

definition download_url :: "string \<Rightarrow> string" where
  "download_url file =
     ''https://github.com/cloudflare/cloudflared/releases/download/'' @ CLOUDFLARED_VERSION @ ''/'' @ file"

definition download :: "tunnel_env \<Rightarrow> string \<Rightarrow> bytes res" where
  "download E file =
     bindR (tu_get E (download_url file)) (\<lambda>(code, body).
     bindR (error_for_status \<lparr>hr_status = code, hr_body = []\<rparr>) (\<lambda>_. body))"

text \<open>The checked binary for a platform.\<close>

definition pinned_binary :: "tunnel_env \<Rightarrow> string \<Rightarrow> string \<Rightarrow> bytes res" where
  "pinned_binary E file expected_sha =
     bindR (download E file) (\<lambda>bytes.
     if tu_sha256_hex E bytes \<noteq> expected_sha
     then Inl (Msg (''cloudflared download checksum mismatch '' @ em_dash @ '' refusing to run it''))
     else unpack_binary E file bytes)"

definition fs_set_permissions :: "path \<Rightarrow> unit io" where
  "fs_set_permissions p f =
     (case io_tick f of
        (Some _, f') \<Rightarrow> (Inl io_failed, f')
      | (None, f') \<Rightarrow> if fs_exists p f' then (Inr (), f') else (Inl (Io ''not found''), f'))"

definition ensure_binary ::
  "pem_lib \<Rightarrow> (client_builder \<Rightarrow> unit res) \<Rightarrow> tunnel_env \<Rightarrow> tls_opts \<Rightarrow> path io" where
  "ensure_binary P build E tls =
     bindIO (binary_path E) (\<lambda>p f.
     if fs_exists p f then (Inr p, f)
     else
       (case platform_key (tu_os E) (tu_arch E) of
          None \<Rightarrow> (Inl (Msg ''no cloudflared build pinned for this platform''), f)
        | Some key \<Rightarrow>
            (case find (\<lambda>(k, _, _). k = key) PINS of
               None \<Rightarrow> (Inl (Msg ''platform missing from pin table''), f)
             | Some (_, file, expected_sha) \<Rightarrow>
                 bindIO (http_client P build tls) (\<lambda>_ f.
                 case pinned_binary E file expected_sha of
                   Inl e \<Rightarrow> (Inl e, f)
                 | Inr binary \<Rightarrow>
                     bindIO (fs_write p binary) (\<lambda>_.
                     if tu_os E = ''windows'' then io_ret p
                     else bindIO (fs_set_permissions p) (\<lambda>_. io_ret p)) f) f)))"

section \<open>The process\<close>

text \<open>
  \<open>ls\<close> are the lines of its standard error within thirty seconds, \<open>ended\<close> whether the stream ended
  (or failed) in that time.
\<close>

datatype watch = Announced url_view | Refused string | Exited | TimedOut

fun watch_lines :: "url_parser \<Rightarrow> string list \<Rightarrow> bool \<Rightarrow> watch" where
  "watch_lines U [] ended = (if ended then Exited else TimedOut)"
| "watch_lines U (l # ls) ended =
     (case parse_tunnel_url U l of
        Some url \<Rightarrow> Announced url
      | None \<Rightarrow>
          if contains_str ''failed to request quick Tunnel'' l then Refused (trim l)
          else watch_lines U ls ended)"

definition start_cloudflared ::
  "pem_lib \<Rightarrow> (client_builder \<Rightarrow> unit res) \<Rightarrow> tunnel_env \<Rightarrow> url_parser \<Rightarrow> unit res \<Rightarrow> bool \<Rightarrow> string list \<Rightarrow>
   bool \<Rightarrow> tls_opts \<Rightarrow> tunnel_handle io" where
  "start_cloudflared P build E U spawned has_stderr ls ended tls =
     bindIO (ensure_binary P build E tls) (\<lambda>_ f.
     (bindR (context_of ''failed to start cloudflared'' spawned) (\<lambda>_.
      bindR (ok_or (Msg ''no stderr from cloudflared'') (if has_stderr then Some () else None)) (\<lambda>_.
      case watch_lines U ls ended of
        Announced url \<Rightarrow> Inr \<lparr>th_url = url, th_child = True\<rparr>
      | Refused reason \<Rightarrow>
          Inl (Msg (''cloudflared could not create the quick tunnel: '' @ reason @ '' '' @ em_dash @
            '' this network may be DNS-filtering trycloudflare.com (run `b2p doctor`); try --direct on a '' @
            ''LAN, or run the receiver on a less restricted network''))
      | Exited \<Rightarrow>
          Inl (Msg (''cloudflared exited before announcing a tunnel URL (run `b2p doctor`); '' @
            ''try --direct on a LAN, or run the receiver on a less restricted network''))
      | TimedOut \<Rightarrow>
          Inl (Msg (''tunnel did not come up within 30s '' @ em_dash @ '' this network may block cloudflared '' @
            ''(run `b2p doctor` to check); try --direct on a LAN, or run the receiver '' @
            ''on a less restricted network'')))), f))"

section \<open>Facts\<close>

definition cloudflared_path :: "tunnel_env \<Rightarrow> path \<Rightarrow> path" where
  "cloudflared_path E d =
     d @ [''bin''] @ [(if tu_os E = ''windows'' then ''cloudflared.exe'' else ''cloudflared'') @ ''-'' @ CLOUDFLARED_VERSION]"

lemma binary_path_runs:
  assumes "tu_data_dir E = Some d"
  shows "binary_path E f =
    (case fs_create_dir_all (d @ [''bin'']) f of
       (Inl e, f') \<Rightarrow> (Inl e, f') | (Inr _, f') \<Rightarrow> (Inr (cloudflared_path E d), f'))"
  by (simp add: binary_path_def assms cloudflared_path_def bindIO_def io_ret_def Let_def split: prod.split sum.split)

lemma binary_path_keeps:
  assumes "tu_data_dir E = Some d" and "binary_path E f = (r, f')"
  shows "files f' (cloudflared_path E d) = files f (cloudflared_path E d)"
    and "r = Inr p \<Longrightarrow> p = cloudflared_path E d"
proof -
  let ?P = "\<lambda>q. prefix q (d @ [''bin''])"
  obtain r1 f1 where c: "fs_create_dir_all (d @ [''bin'']) f = (r1, f1)" by (metis surj_pair)
  have "io_keeps ?P (fs_create_dir_all (d @ [''bin'']))" by (rule keeps_intros)
  from io_keepsD [OF this c, of "cloudflared_path E d"] have "files f1 (cloudflared_path E d) = files f (cloudflared_path E d)"
    by (auto simp: cloudflared_path_def dest: prefix_length_le)
  then show "files f' (cloudflared_path E d) = files f (cloudflared_path E d)"
    and "r = Inr p \<Longrightarrow> p = cloudflared_path E d"
    using assms(2) by (auto simp: binary_path_runs [OF assms(1)] c split: sum.splits)
qed

lemma http_client_keeps: "io_keeps (\<lambda>_. False) (http_client P build tls)"
proof -
  have pure: "io_keeps Q (\<lambda>f. (r, f))" for Q r by (simp add: io_keeps_def)
  have "io_keeps (\<lambda>_. False) (\<lambda>f. (case v of Inl e \<Rightarrow> (Inl e, f) | Inr cs \<Rightarrow> if cs = [] then (Inl e', f) else (Inr cs, f)))"
    for v :: "bytes list res" and e' by (simp add: io_keeps_def split: sum.split)
  then have "io_keeps (\<lambda>_. False) (load_pem_certs P p)" for p
    unfolding load_pem_certs_def by (intro keeps_intros)
  then have "io_keeps (\<lambda>_. False) (http_builder P tls)"
    unfolding http_builder_def Let_def by (cases "to_cafile tls") (auto intro: keeps_intros)
  then show ?thesis unfolding http_client_def by (intro keeps_intros pure)
qed

lemma fs_write_torn:
  assumes "fs_write p c f = (r, f')"
  shows "files f' p = files f p \<or> (\<exists>k. files f' p = Some (File (take k c)))"
    and "r = Inr () \<Longrightarrow> files f' p = Some (File c)"
proof -
  have "\<exists>k. c = take k c" by (rule exI [of _ "length c"]) simp
  then show "files f' p = files f p \<or> (\<exists>k. files f' p = Some (File (take k c)))" "r = Inr () \<Longrightarrow> files f' p = Some (File c)"
    using assms by (auto simp: fs_write_def dest!: io_tick_keeps split: prod.splits option.splits if_splits)
qed

lemma fs_set_permissions_keeps: "fs_set_permissions p f = (r, f') \<Longrightarrow> files f' = files f"
  by (auto simp: fs_set_permissions_def dest!: io_tick_keeps split: prod.splits option.splits if_splits)

text \<open>The end of \<open>ensure_binary\<close>, once the checked binary is at hand.\<close>

lemma install_safe:
  assumes "bindIO (fs_write p c) (\<lambda>_. if w then io_ret p else bindIO (fs_set_permissions p) (\<lambda>_. io_ret p)) f = (r, f')"
  shows "files f' p = files f p \<or> (\<exists>k. files f' p = Some (File (take k c)))"
    and "r = Inr q \<Longrightarrow> files f' p = Some (File c)"
proof -
  obtain r1 f1 where w: "fs_write p c f = (r1, f1)" by (metis surj_pair)
  have k: "files f' = files f1" and r: "r = Inr q \<Longrightarrow> r1 = Inr ()"
    using assms by (auto simp: bindIO_def io_ret_def w dest: fs_set_permissions_keeps split: sum.splits if_splits prod.splits)
  show "files f' p = files f p \<or> (\<exists>k. files f' p = Some (File (take k c)))" using fs_write_torn(1) [OF w] k by simp
  show "r = Inr q \<Longrightarrow> files f' p = Some (File c)" using fs_write_torn(2) [OF w] k r by simp
qed

text \<open>A binary unpacked from a download of the platform's entry in the table whose checksum is the pinned one.\<close>

definition pinned_for :: "tunnel_env \<Rightarrow> bytes \<Rightarrow> bool" where
  "pinned_for E binary \<longleftrightarrow>
     list_ex (\<lambda>(key, file, sha). platform_key (tu_os E) (tu_arch E) = Some key \<and>
       (case download E file of
          Inl _ \<Rightarrow> False
        | Inr bytes \<Rightarrow> tu_sha256_hex E bytes = sha \<and> unpack_binary E file bytes = Inr binary)) PINS"

lemma pinned_binary_checked:
  assumes "(key, file, sha) \<in> set PINS" and "platform_key (tu_os E) (tu_arch E) = Some key"
    and "pinned_binary E file sha = Inr binary"
  shows "pinned_for E binary"
  unfolding pinned_for_def list_ex_iff
  by (rule bexI [OF _ assms(1)]) (use assms(2,3) in \<open>auto simp: pinned_binary_def bindR_eq_Inr split: if_splits\<close>)

lemma ensure_binary_safe:
  assumes d: "tu_data_dir E = Some d" and run: "ensure_binary P build E tls f = (r, f')"
  defines "p \<equiv> cloudflared_path E d"
  shows "(files f' p = files f p \<or> (\<exists>binary k. pinned_for E binary \<and> files f' p = Some (File (take k binary)))) \<and>
    (\<forall>q. r = Inr q \<longrightarrow> q = p \<and> (files f p = None \<longrightarrow> (\<exists>binary. pinned_for E binary \<and> files f' p = Some (File binary))))"
proof -
  obtain r0 f0 where b: "binary_path E f = (r0, f0)" by (metis surj_pair)
  note kb = binary_path_keeps [OF d b, folded p_def]
  show ?thesis
  proof (cases r0)
    case (Inl e)
    then have "r = Inl e" "f' = f0" using run b by (simp_all add: ensure_binary_def)
    then show ?thesis using kb(1) by simp
  next
    case (Inr p')
    then have b: "binary_path E f = (Inr p, f0)" using b kb(2) by simp
    consider (there) "fs_exists p f0" | (none) e where "r = Inl e" "f' = f0"
      | (pin) key fl sha where "\<not> fs_exists p f0" "platform_key (tu_os E) (tu_arch E) = Some key"
          "find (\<lambda>(k, _, _). k = key) PINS = Some (key, fl, sha)"
    proof (cases "fs_exists p f0")
      case False
      show ?thesis
      proof (cases "platform_key (tu_os E) (tu_arch E)")
        case None
        then show ?thesis using none run False by (auto simp: ensure_binary_def b)
      next
        case (Some key)
        show ?thesis
        proof (cases "find (\<lambda>(k, _, _). k = key) PINS")
          case None
          then show ?thesis using none run False Some by (auto simp: ensure_binary_def b)
        next
          case (Some x)
          obtain k fl sha where x: "x = (k, fl, sha)" by (metis surj_pair)
          then have "k = key" using Some by (auto simp: find_Some_iff)
          then show ?thesis using pin False \<open>platform_key _ _ = Some key\<close> Some x by simp
        qed
      qed
    qed (rule there)
    then show ?thesis
    proof cases
      case there
      then show ?thesis using run kb(1) by (auto simp: ensure_binary_def b fs_exists_def)
    next
      case none
      then show ?thesis using kb(1) by simp
    next
      case pin
      obtain rc f1 where h: "http_client P build tls f0 = (rc, f1)" by (metis surj_pair)
      have k1: "files f1 p = files f p" using io_keepsD [OF http_client_keeps h] kb(1) by simp
      have mem: "(key, fl, sha) \<in> set PINS" using pin(3) nth_mem by (fastforce simp: find_Some_iff)
      show ?thesis
      proof (cases "\<exists>u binary. rc = Inr u \<and> pinned_binary E fl sha = Inr binary")
        case False
        then have "f' = f1 \<and> (\<exists>e. r = Inl e)"
          using run pin h by (cases rc; cases "pinned_binary E fl sha") (auto simp: ensure_binary_def b)
        then show ?thesis using k1 by auto
      next
        case True
        then obtain u binary where rc: "rc = Inr u" and pb: "pinned_binary E fl sha = Inr binary" by blast
        have pf: "pinned_for E binary" by (rule pinned_binary_checked [OF mem pin(2) pb])
        from run pin h rc pb have
          "bindIO (fs_write p binary) (\<lambda>_. if tu_os E = ''windows'' then io_ret p
             else bindIO (fs_set_permissions p) (\<lambda>_. io_ret p)) f1 = (r, f')"
          by (simp add: ensure_binary_def b)
        note ins = install_safe [OF this]
        have "q = p" if "r = Inr q" for q
          using that run pin h rc pb by (auto simp: ensure_binary_def b bindIO_Inr io_ret_def split: if_splits)
        then show ?thesis using ins(1) ins(2) k1 pf by auto
      qed
    qed
  qed
qed

text \<open>
  The check is made on the download only. A write that is cut short leaves a truncated file under
  the final name, and every later run takes that file for the binary.
\<close>

definition linux_env :: tunnel_env where
  "linux_env =
     \<lparr>tu_os = ''linux'', tu_arch = ''x86_64'', tu_data_dir = Some [''data''],
      tu_get = (\<lambda>_. Inr (200, Inr [1, 2, 3])), tu_sha256_hex = (\<lambda>_. snd (snd (PINS ! 0))),
      tu_tgz = (\<lambda>_. Inr [])\<rparr>"

lemma torn_binary_reused:
  fixes P :: pem_lib
  defines "run \<equiv> ensure_binary P (\<lambda>_. Inr ()) linux_env \<lparr>to_cafile = None\<rparr>"
  shows "\<exists>f f1 p c. run f = (Inl io_failed, f1) \<and> run (f1\<lparr>io_fault := None\<rparr>) = (Inr p, f1\<lparr>io_fault := None\<rparr>) \<and>
    files f1 p = Some (File c) \<and> \<not> pinned_for linux_env c"
proof -
  let ?f = "\<lparr>files = \<lambda>q. if q = [] then Some Dir else None, io_fault = Some (1, 1)\<rparr>"
  let ?bin = "[''data'', ''bin'']"
  let ?p = "[''data'', ''bin'', ''cloudflared-2026.7.2'']"
  obtain r0 f0 where c0: "fs_create_dir_all ?bin ?f = (r0, f0)" by (metis surj_pair)
  then have r0: "r0 = Inr ()" and f0: "io_fault f0 = Some (0, 1)"
      "files f0 q = (if prefix q ?bin then Some Dir else None)" for q
    by (auto simp: fs_create_dir_all_def io_tick_def)
  let ?f1 = "put_node ?p (File [1]) f0"
  have p: "cloudflared_path linux_env [''data''] = ?p"
    by (simp add: cloudflared_path_def linux_env_def CLOUDFLARED_VERSION_def)
  have d: "tu_data_dir linux_env = Some [''data'']" by (simp add: linux_env_def)
  have b0: "binary_path linux_env ?f = (Inr ?p, f0)" using c0 r0 by (simp add: binary_path_runs [OF d] p)
  have h: "http_client P (\<lambda>_. Inr ()) \<lparr>to_cafile = None\<rparr> f = (Inr (), f)" for f
    by (simp add: http_client_def http_builder_def bindIO_def io_ret_def)
  have pk: "platform_key (tu_os linux_env) (tu_arch linux_env) = Some ''linux-amd64''"
    by (simp add: platform_key_def linux_env_def)
  have pb: "pinned_binary linux_env ''cloudflared-linux-amd64'' sha =
      (if snd (snd (PINS ! 0)) \<noteq> sha then Inl (Msg (''cloudflared download checksum mismatch '' @ em_dash @ '' refusing to run it''))
       else Inr [1, 2, 3])" for sha
    by (simp add: pinned_binary_def download_def linux_env_def error_for_status_def unpack_binary_def suffix_def)
  have w: "fs_write ?p [1, 2, 3] f0 = (Inl io_failed, ?f1)"
    using f0 by (simp add: fs_write_def io_tick_def may_create_def)
  have "run ?f = (Inl io_failed, ?f1)"
    unfolding run_def ensure_binary_def using b0 h pk pb w by (simp add: fs_exists_def f0 PINS_def)
  moreover have "run (?f1\<lparr>io_fault := None\<rparr>) = (Inr ?p, ?f1\<lparr>io_fault := None\<rparr>)"
  proof -
    have "fs_create_dir_all ?bin (?f1\<lparr>io_fault := None\<rparr>) = (Inr (), ?f1\<lparr>io_fault := None\<rparr>)"
      using f0(2) by (auto simp: fs_create_dir_all_def io_tick_def fun_eq_iff put_node_def)
    then show ?thesis unfolding run_def ensure_binary_def
      by (simp add: binary_path_runs [OF d] p fs_exists_def)
  qed
  moreover have "\<not> pinned_for linux_env [1]"
    using pk by (simp add: pinned_for_def PINS_def download_def linux_env_def error_for_status_def unpack_binary_def suffix_def)
  ultimately show ?thesis by (intro exI [of _ ?f] exI [of _ ?f1] exI [of _ ?p] exI [of _ "[1]"]) simp
qed

end
