(* ===== verification/B2P_Doctor.thy ===== *)
theory B2P_Doctor
  imports B2P_Cli B2P_Trust
begin

text \<open>
  The network diagnosis (src/src/doctor.rs): the five checks, the verdict over them and the printed
  report. What the resolver, the TLS handshakes, the STUN servers, the health request and the relay
  probe return are the fields of \<open>doctor_env\<close>; \<open>None\<close> stands for an elapsed deadline. The four
  checks that the source joins read the disk only, so they run here one after another.
\<close>

definition DEFAULT_TARGET :: string where
  "DEFAULT_TARGET = ''trycloudflare.com''"

definition TLS_CANARY :: string where
  "TLS_CANARY = ''www.google.com''"

definition RENDEZVOUS_HEALTH :: string where
  "RENDEZVOUS_HEALTH = ''https://ntfy.sh/v1/health''"

datatype check_outcome = COk | CWarn | CFail

record check =
  ck_name :: string
  ck_label :: string
  ck_outcome :: check_outcome
  ck_detail :: string

record doctor_report =
  dp_checks :: "check list"
  dp_verdict :: string

fun mark :: "check_outcome \<Rightarrow> string" where
  "mark COk = [CHR 0xE2, CHR 0x9C, CHR 0x93]"
| "mark CWarn = ''!''"
| "mark CFail = [CHR 0xE2, CHR 0x9C, CHR 0x97]"

definition report_text :: "doctor_report \<Rightarrow> string" where
  "report_text r =
     concat (map (\<lambda>c. mark (ck_outcome c) @ '' '' @ ck_label c @ '': '' @ ck_detail c @ newline) (dp_checks r)) @
     newline @ ''verdict: '' @ dp_verdict r"

record doctor_env =
  dr_lookup :: "string \<Rightarrow> ip_addr list res option"
  dr_pem :: pem_lib
  dr_x509 :: "bytes \<Rightarrow> string res"
  dr_root_ok :: "bytes \<Rightarrow> bool"
  dr_versions :: "unit res"
  dr_native :: "bytes list"
  dr_capture :: tls_session
  dr_verified :: "bytes list \<Rightarrow> tls_session"
  dr_udp_bound :: bool
  dr_stun :: "stun_query list"
  dr_build :: "client_builder \<Rightarrow> unit res"
  dr_health :: "string \<Rightarrow> nat res"
  dr_relay :: "string \<Rightarrow> string option \<Rightarrow> unit res option"

section \<open>The checks\<close>

definition make_check :: "string \<Rightarrow> string \<Rightarrow> check_outcome \<Rightarrow> string \<Rightarrow> check" where
  "make_check nm label oc detail = \<lparr>ck_name = nm, ck_label = label, ck_outcome = oc, ck_detail = detail\<rparr>"

definition relay_check :: "doctor_env \<Rightarrow> string \<Rightarrow> string option \<Rightarrow> check" where
  "relay_check D url token =
     make_check ''relay'' (''relay ('' @ url @ '')'')
       (case dr_relay D url token of Some (Inr _) \<Rightarrow> COk | _ \<Rightarrow> CFail)
       (case dr_relay D url token of
          Some (Inr _) \<Rightarrow> ''WebSocket connect + ping round-trip OK''
        | Some (Inl e) \<Rightarrow> display_alt e
        | None \<Rightarrow> ''timed out probing the relay'')"

datatype dns_class = Clean | BlockPage ip_addr | Sinkhole ip_addr

fun is_umbrella :: "ip_addr \<Rightarrow> bool" where
  "is_umbrella (Ip4 o4) =
     (o4 ! 0 = 146 \<and> o4 ! 1 = 112 \<and> o4 ! 2 = 61 \<and> 104 \<le> o4 ! 3 \<and> o4 ! 3 \<le> 110)"
| "is_umbrella (Ip6 gs) = False"

fun classify_ips :: "ip_addr list \<Rightarrow> dns_class" where
  "classify_ips [] = Clean"
| "classify_ips (ip # ips) =
     (if is_umbrella ip then BlockPage ip
      else if is_loopback ip \<or> is_unspecified ip then Sinkhole ip
      else classify_ips ips)"

definition dns_check :: "doctor_env \<Rightarrow> string \<Rightarrow> check" where
  "dns_check D host =
     (let mk = make_check ''dns'' (''DNS ('' @ host @ '')'') in
      if parse_ip host \<noteq> None \<or> host = ''localhost''
      then mk COk (host @ '' is a literal address '' @ em_dash @ '' DNS not in play'')
      else
        (case dr_lookup D host of
           Some (Inr ips) \<Rightarrow>
             (case ips of
                [] \<Rightarrow> mk CFail ''resolver returned no addresses''
              | first # _ \<Rightarrow>
                  (case classify_ips ips of
                     Clean \<Rightarrow> mk COk (''resolves to '' @ ip_text first)
                   | BlockPage ip \<Rightarrow>
                       mk CFail (''resolves to '' @ ip_text ip @ '' (a Cisco Umbrella block IP) '' @ em_dash @
                         '' this network is DNS-filtering it'')
                   | Sinkhole ip \<Rightarrow>
                       mk CFail (''resolves to '' @ ip_text ip @ '' '' @ em_dash @
                         '' looks sinkholed by a DNS filter'')))
         | Some (Inl e) \<Rightarrow> mk CFail (''resolution failed: '' @ display_err e)
         | None \<Rightarrow> mk CFail ''resolution timed out''))"

definition tls_verdict :: "tls_report \<Rightarrow> check_outcome \<times> string" where
  "tls_verdict r =
     (let inspected = (\<not> looks_public (tr_leaf_issuer r)) in
      if tr_os_store_verifies r then
        if inspected then
          (CWarn, ''certificates are re-signed by '' @ tr_leaf_issuer r @ '' '' @ em_dash @
             '' this network runs TLS inspection; the OS trust store accepts it, so HTTPS works'')
        else
          (COk, ''issuer '' @ tr_leaf_issuer r @ '' '' @ em_dash @
             '' chain verifies against the OS trust store'')
      else
        (CFail, ''issuer '' @ tr_leaf_issuer r @ '' is not trusted ('' @
           (case tr_os_error r of Some e \<Rightarrow> e | None \<Rightarrow> []) @ '') '' @ em_dash @
           '' add this network's root CA to the OS store, or pass --cafile / set SSL_CERT_FILE''))"

definition tls_check :: "doctor_env \<Rightarrow> path option \<Rightarrow> check io" where
  "tls_check D cafile f =
     (let mk = make_check ''tls'' (''TLS ('' @ TLS_CANARY @ '')'');
          loaded = (case cafile of Some p \<Rightarrow> load_pem_roots (dr_pem D) p f | None \<Rightarrow> (Inr [], f)) in
      case loaded of
        (Inl e, f) \<Rightarrow> (Inr (mk CFail (''cannot load --cafile: '' @ display_alt e)), f)
      | (Inr extra, f) \<Rightarrow>
          (case probe_blocking (dr_x509 D) (dr_root_ok D) (dr_versions D) (dr_native D) (dr_capture D)
                  (dr_verified D) extra of
             Inr r \<Rightarrow> (Inr (case tls_verdict r of (oc, detail) \<Rightarrow> mk oc detail), f)
           | Inl e \<Rightarrow> (Inr (mk CFail (''cannot complete a TLS handshake: '' @ display_alt e)), f)))"

definition addr_list_text :: "socket_addr list \<Rightarrow> string" where
  "addr_list_text addrs = ''['' @ intercalate '', '' (map socket_addr_text addrs) @ '']''"

fun nat_verdict :: "nat_class \<Rightarrow> check_outcome \<times> string" where
  "nat_verdict (EndpointIndependent addr) =
     (COk, ''UDP egress works; mapped to '' @ socket_addr_text addr @ '' from every STUN server '' @ em_dash @
        '' endpoint-independent NAT, direct WebRTC viable'')"
| "nat_verdict (OneResponse addr) =
     (COk, ''UDP egress works (mapped to '' @ socket_addr_text addr @
        ''; only one STUN server answered, so NAT mapping is unclassified) '' @ em_dash @ '' WebRTC likely viable'')"
| "nat_verdict (Symmetric addrs) =
     (CWarn, ''UDP egress works, but this NAT is symmetric (mapped addresses differ: '' @ addr_list_text addrs @
        '') '' @ em_dash @ '' direct WebRTC to another NAT'd peer will likely fail; use a TURN relay (--turn) or --tunnel'')"
| "nat_verdict NoResponse =
     (CWarn, ''no STUN response '' @ em_dash @
        '' UDP likely blocked (harmless for the tunnel transport; matters for v2 WebRTC)'')"

definition stun_check :: "doctor_env \<Rightarrow> check res" where
  "stun_check D =
     bindR (nat_mapping (dr_udp_bound D) (dr_stun D)) (\<lambda>c.
     Inr (case nat_verdict c of (oc, detail) \<Rightarrow> make_check ''stun'' ''UDP/STUN'' oc detail))"

definition rendezvous_check :: "doctor_env \<Rightarrow> tls_opts \<Rightarrow> string \<Rightarrow> check io" where
  "rendezvous_check D tls url f =
     (let mk = make_check ''rendezvous'' (''rendezvous ('' @ url @ '')'') in
      case http_client (dr_pem D) (dr_build D) tls f of
        (Inl e, f) \<Rightarrow> (Inr (mk CFail (''cannot build HTTPS client: '' @ display_alt e)), f)
      | (Inr _, f) \<Rightarrow>
          (Inr (case dr_health D url of
                  Inr code \<Rightarrow>
                    if 200 \<le> code \<and> code < 300
                    then mk COk (''HTTP '' @ show_nat code @ '' '' @ em_dash @ '' reachable'')
                    else mk CWarn (''unexpected HTTP '' @ show_nat code)
                | Inl e \<Rightarrow> mk CFail (''unreachable: '' @ display_alt e)), f))"

section \<open>The verdict\<close>

definition failed :: "check list \<Rightarrow> string \<Rightarrow> bool" where
  "failed checks n = list_ex (\<lambda>c. ck_name c = n \<and> ck_outcome c = CFail) checks"

definition no_blockers :: string where
  "no_blockers = ''no blockers found '' @ em_dash @ '' DNS, TLS, and HTTPS reachability look clean''"

definition verdict :: "check list \<Rightarrow> string \<Rightarrow> string" where
  "verdict checks target =
     (if failed checks ''dns'' then
        ''this network blocks '' @ target @ '' at the DNS layer '' @ em_dash @
        '' the tunnel transport cannot work here; try `b2p receive --direct` with both machines on the '' @
        ''same LAN, or run the receiver on a less restricted network''
      else if failed checks ''tls'' then
        ''TLS verification is failing '' @ em_dash @ '' if this network runs TLS inspection, add its '' @
        ''root CA to the OS trust store, or pass --cafile / set SSL_CERT_FILE''
      else if failed checks ''relay'' then
        ''the relay is unreachable '' @ em_dash @ '' default transfers cannot proceed; check the URL '' @
        ''(b2p relay show) and that the worker is deployed (npx wrangler deploy in relay-worker/)''
      else if failed checks ''rendezvous'' then
        ''HTTPS egress looks restricted (the rendezvous host is unreachable) '' @ em_dash @
        '' transfers may still work if the tunnel host is reachable; otherwise use --direct on a shared LAN''
      else if list_ex (\<lambda>c. ck_name c = ''stun'' \<and> ck_outcome c = CWarn \<and>
                contains_str ''symmetric'' (ck_detail c)) checks then
        if list_ex (\<lambda>c. ck_name c = ''relay'' \<and> ck_outcome c = COk) checks then
          ''this network's NAT is symmetric '' @ em_dash @ '' direct P2P (--p2p) would likely fail, '' @
          ''but the default relay transport is unaffected and reachable; transfers should work''
        else
          ''every layer is clean, but this network's NAT is symmetric '' @ em_dash @ '' direct WebRTC '' @
          ''(--p2p) to another NAT'd peer will likely fail. The default relay transport is unaffected '' @
          ''(configure one: b2p relay set); for P2P use a TURN relay (--turn), --tunnel, or put both '' @
          ''peers on the same LAN''
      else no_blockers)"

definition doctor_run :: "doctor_env \<Rightarrow> doctor_args \<Rightarrow> doctor_report io" where
  "doctor_run D args =
     (let target = (case da_target_host args of Some h \<Rightarrow> h | None \<Rightarrow> DEFAULT_TARGET);
          tls = \<lparr>to_cafile = da_cafile args\<rparr>;
          dns = dns_check D target in
      bindIO (tls_check D (da_cafile args)) (\<lambda>tls_c.
      bindIO (\<lambda>f. (stun_check D, f)) (\<lambda>stun.
      bindIO (rendezvous_check D tls RENDEZVOUS_HEALTH) (\<lambda>rendezvous.
      let checks = [dns, tls_c, stun, rendezvous] @
            (case da_relay args of Some url \<Rightarrow> [relay_check D url (da_relay_token args)] | None \<Rightarrow> []) in
      io_ret \<lparr>dp_checks = checks, dp_verdict = verdict checks target\<rparr>))))"

section \<open>When the verdict is clean\<close>

text \<open>What the network has to show, check by check.\<close>

definition dns_usable :: "doctor_env \<Rightarrow> string \<Rightarrow> bool" where
  "dns_usable D host \<longleftrightarrow>
     parse_ip host \<noteq> None \<or> host = ''localhost'' \<or>
     (case dr_lookup D host of
        Some (Inr ips) \<Rightarrow>
          ips \<noteq> [] \<and> list_all (\<lambda>ip. \<not> is_umbrella ip \<and> \<not> is_loopback ip \<and> \<not> is_unspecified ip) ips
      | _ \<Rightarrow> False)"

definition tls_trusted :: "doctor_env \<Rightarrow> path option \<Rightarrow> fs \<Rightarrow> bool" where
  "tls_trusted D cafile f \<longleftrightarrow>
     (case fst (case cafile of Some p \<Rightarrow> load_pem_roots (dr_pem D) p f | None \<Rightarrow> (Inr [], f)) of
        Inl _ \<Rightarrow> False
      | Inr extra \<Rightarrow>
          (case probe_blocking (dr_x509 D) (dr_root_ok D) (dr_versions D) (dr_native D) (dr_capture D)
                  (dr_verified D) extra of
             Inr r \<Rightarrow> tr_os_store_verifies r | Inl _ \<Rightarrow> False))"

definition relay_answers :: "doctor_env \<Rightarrow> doctor_args \<Rightarrow> bool" where
  "relay_answers D args \<longleftrightarrow>
     (case da_relay args of None \<Rightarrow> True | Some url \<Rightarrow> dr_relay D url (da_relay_token args) = Some (Inr ()))"

lemma classify_clean:
  "classify_ips ips = Clean \<longleftrightarrow>
   list_all (\<lambda>ip. \<not> is_umbrella ip \<and> \<not> is_loopback ip \<and> \<not> is_unspecified ip) ips"
  by (induction ips) auto

lemma make_check_sel [simp]:
  "ck_name (make_check n l oc d) = n" "ck_outcome (make_check n l oc d) = oc" "ck_detail (make_check n l oc d) = d"
  by (simp_all add: make_check_def)

lemma dns_check_sel:
  "ck_name (dns_check D host) = ''dns''"
  "ck_outcome (dns_check D host) = (if dns_usable D host then COk else CFail)"
  by (auto simp: dns_check_def dns_usable_def Let_def classify_clean [symmetric] simp del: classify_ips.simps
    split: option.split sum.split list.split dns_class.split)

lemma tls_check_sel:
  assumes "tls_check D cafile f = (Inr c, f')"
  shows "ck_name c = ''tls''" and "ck_outcome c = CFail \<longleftrightarrow> \<not> tls_trusted D cafile f"
  using assms
  by (auto simp: tls_check_def tls_trusted_def tls_verdict_def Let_def split: prod.splits sum.splits if_splits)

lemma contains_symmetric:
  "contains_str ''symmetric'' (snd (nat_verdict (Symmetric addrs)))"
  "\<not> contains_str ''symmetric'' (snd (nat_verdict NoResponse))"
  by (simp_all add: em_dash_def)

lemma stun_check_sel:
  assumes "stun_check D = Inr c"
  shows "ck_name c = ''stun''" and "ck_outcome c \<noteq> CFail"
    and "ck_outcome c = CWarn \<and> contains_str ''symmetric'' (ck_detail c) \<longleftrightarrow>
      (\<exists>addrs. nat_mapping (dr_udp_bound D) (dr_stun D) = Inr (Symmetric addrs))"
proof -
  obtain cl where cl: "nat_mapping (dr_udp_bound D) (dr_stun D) = Inr cl"
    and c: "c = make_check ''stun'' ''UDP/STUN'' (fst (nat_verdict cl)) (snd (nat_verdict cl))"
    using assms by (auto simp: stun_check_def bindR_eq_Inr case_prod_beta)
  show "ck_name c = ''stun''" by (simp add: c)
  show "ck_outcome c \<noteq> CFail" by (cases cl) (simp_all add: c)
  have "fst (nat_verdict (Symmetric as)) = CWarn" "fst (nat_verdict NoResponse) = CWarn"
    "fst (nat_verdict (EndpointIndependent a)) = COk" "fst (nat_verdict (OneResponse a)) = COk" for as a by simp_all
  then show "ck_outcome c = CWarn \<and> contains_str ''symmetric'' (ck_detail c) \<longleftrightarrow>
      (\<exists>addrs. nat_mapping (dr_udp_bound D) (dr_stun D) = Inr (Symmetric addrs))"
    using contains_symmetric by (cases cl) (simp_all add: c cl del: nat_verdict.simps)
qed

lemma rendezvous_check_sel:
  assumes "rendezvous_check D tls url f = (Inr c, f')"
  shows "ck_name c = ''rendezvous''"
    and "ck_outcome c = CFail \<longleftrightarrow>
      \<not> ((\<exists>u. fst (http_client (dr_pem D) (dr_build D) tls f) = Inr u) \<and> (\<exists>code. dr_health D url = Inr code))"
  using assms by (auto simp: rendezvous_check_def Let_def split: prod.splits sum.splits if_splits)

lemma relay_check_sel:
  "ck_name (relay_check D url token) = ''relay''"
  "ck_outcome (relay_check D url token) = CFail \<longleftrightarrow> dr_relay D url token \<noteq> Some (Inr ())"
  by (auto simp: relay_check_def split: option.split sum.split)

lemma verdict_clean:
  "verdict checks target = no_blockers \<longleftrightarrow>
   \<not> failed checks ''dns'' \<and> \<not> failed checks ''tls'' \<and> \<not> failed checks ''relay'' \<and> \<not> failed checks ''rendezvous'' \<and>
   \<not> list_ex (\<lambda>c. ck_name c = ''stun'' \<and> ck_outcome c = CWarn \<and> contains_str ''symmetric'' (ck_detail c)) checks"
  by (auto simp: verdict_def no_blockers_def)

lemma doctor_clean:
  assumes run: "doctor_run D args f = (Inr rep, f')"
  defines "host \<equiv> (case da_target_host args of Some h \<Rightarrow> h | None \<Rightarrow> DEFAULT_TARGET)"
  shows "dp_verdict rep = no_blockers \<longleftrightarrow>
    dns_usable D host \<and> tls_trusted D (da_cafile args) f \<and> relay_answers D args \<and>
    (\<exists>u. fst (http_client (dr_pem D) (dr_build D) \<lparr>to_cafile = da_cafile args\<rparr>
        (snd (tls_check D (da_cafile args) f))) = Inr u) \<and>
    (\<exists>code. dr_health D RENDEZVOUS_HEALTH = Inr code) \<and>
    \<not> (\<exists>addrs. nat_mapping (dr_udp_bound D) (dr_stun D) = Inr (Symmetric addrs))"
proof -
  from run obtain t f1 st rv where t: "tls_check D (da_cafile args) f = (Inr t, f1)" and st: "stun_check D = Inr st"
    and rv: "rendezvous_check D \<lparr>to_cafile = da_cafile args\<rparr> RENDEZVOUS_HEALTH f1 = (Inr rv, f')"
    and rep: "dp_verdict rep = verdict ([dns_check D host, t, st, rv] @
        (case da_relay args of Some url \<Rightarrow> [relay_check D url (da_relay_token args)] | None \<Rightarrow> [])) host"
    by (auto simp: doctor_run_def Let_def bindIO_Inr io_ret_def host_def)
  note sel = dns_check_sel tls_check_sel [OF t] stun_check_sel [OF st] rendezvous_check_sel [OF rv]
  show ?thesis
    by (cases "da_relay args") (auto simp: rep t verdict_clean failed_def sel relay_check_sel relay_answers_def)
qed

end
