(* ===== verification/B2P_Room.thy ===== *)
theory B2P_Room
  imports B2P_Relay
begin

text \<open>
  The relay itself: the room of the Cloudflare Worker (src/relay-worker/src/index.js) and the
  in-process relay that stands for it in the tests (src/src/transport/mock.rs). Both implement one
  contract, the locale \<open>relay_room\<close>: a room has a seat for each role, tells both peers when the
  second one joins, forwards what a peer sends to the other one and says when a peer left.
\<close>

definition PONG :: string where "PONG = ''{\"t\":\"pong\"}''"
definition PEER_JOINED :: string where "PEER_JOINED = ''{\"t\":\"peer-joined\"}''"
definition PEER_LEFT :: string where "PEER_LEFT = ''{\"t\":\"peer-left\"}''"

lemmas room_texts = PING_def PONG_def PEER_JOINED_def PEER_LEFT_def

section \<open>What a room promises\<close>

text \<open>Who sits in which role, and everything that socket was sent so far.\<close>

type_synonym seats = "role \<Rightarrow> (nat \<times> ws_msg list) option"

definition tell :: "role \<Rightarrow> ws_msg \<Rightarrow> seats \<Rightarrow> seats" where
  "tell r m v = v(r := map_option (\<lambda>(i, q). (i, q @ [m])) (v r))"

definition seat_join :: "nat \<Rightarrow> role \<Rightarrow> seats \<Rightarrow> seats" where
  "seat_join i r v =
     (let v = v(r \<mapsto> (i, [])) in
      if v (other r) = None then v
      else tell (other r) (WsText PEER_JOINED) (tell r (WsText PEER_JOINED) v))"

definition seat_message :: "role \<Rightarrow> ws_msg \<Rightarrow> seats \<Rightarrow> seats" where
  "seat_message r m v =
     (if m = WsText PING then tell r (WsText PONG) v else tell (other r) m v)"

definition seat_leave :: "role \<Rightarrow> seats \<Rightarrow> seats" where
  "seat_leave r v = tell (other r) (WsText PEER_LEFT) (v(r := None))"

fun is_data :: "ws_msg \<Rightarrow> bool" where
  "is_data (WsBinary b) = True"
| "is_data (WsText t) = True"
| "is_data _ = False"

datatype room_event = RJoin nat role | RMessage role ws_msg | RLeave role

fun seat_step :: "room_event \<Rightarrow> seats \<Rightarrow> seats" where
  "seat_step (RJoin i r) v = seat_join i r v"
| "seat_step (RMessage r m) v = seat_message r m v"
| "seat_step (RLeave r) v = seat_leave r v"

text \<open>Histories without a second socket in a taken role: \<open>used\<close> are the sockets seen so far.\<close>

fun admissible :: "nat set \<Rightarrow> seats \<Rightarrow> room_event list \<Rightarrow> bool" where
  "admissible used v [] = True"
| "admissible used v (RJoin i r # es) \<longleftrightarrow>
     v r = None \<and> i \<notin> used \<and> admissible (insert i used) (seat_join i r v) es"
| "admissible used v (RMessage r m # es) \<longleftrightarrow>
     v r \<noteq> None \<and> is_data m \<and> admissible used (seat_message r m v) es"
| "admissible used v (RLeave r # es) \<longleftrightarrow>
     v r \<noteq> None \<and> admissible used (seat_leave r v) es"

text \<open>The same history on an implementation: messages and departures name the socket in the seat.\<close>

fun room_step ::
  "('s \<Rightarrow> seats) \<Rightarrow> (nat \<Rightarrow> role \<Rightarrow> 's \<Rightarrow> 's) \<Rightarrow> (nat \<Rightarrow> ws_msg \<Rightarrow> 's \<Rightarrow> 's) \<Rightarrow> (nat \<Rightarrow> 's \<Rightarrow> 's) \<Rightarrow>
   room_event \<Rightarrow> 's \<Rightarrow> 's" where
  "room_step view join message leave (RJoin i r) s = join i r s"
| "room_step view join message leave (RMessage r m) s =
     (case view s r of None \<Rightarrow> s | Some (i, _) \<Rightarrow> message i m s)"
| "room_step view join message leave (RLeave r) s =
     (case view s r of None \<Rightarrow> s | Some (i, _) \<Rightarrow> leave i s)"

locale relay_room =
  fixes view :: "'s \<Rightarrow> seats" and ok :: "'s \<Rightarrow> bool" and known :: "'s \<Rightarrow> nat set"
    and join :: "nat \<Rightarrow> role \<Rightarrow> 's \<Rightarrow> 's" and message :: "nat \<Rightarrow> ws_msg \<Rightarrow> 's \<Rightarrow> 's"
    and leave :: "nat \<Rightarrow> 's \<Rightarrow> 's"
  assumes joins: "ok s \<Longrightarrow> view s r = None \<Longrightarrow> i \<notin> known s \<Longrightarrow>
      ok (join i r s) \<and> view (join i r s) = seat_join i r (view s) \<and> known (join i r s) \<subseteq> insert i (known s)"
    and forwards: "ok s \<Longrightarrow> view s r = Some (i, q) \<Longrightarrow> is_data m \<Longrightarrow>
      ok (message i m s) \<and> view (message i m s) = seat_message r m (view s) \<and> known (message i m s) \<subseteq> known s"
    and leaves: "ok s \<Longrightarrow> view s r = Some (i, q) \<Longrightarrow>
      ok (leave i s) \<and> view (leave i s) = seat_leave r (view s) \<and> known (leave i s) \<subseteq> known s"
begin

lemma run_refines:
  assumes "ok s" and "admissible used (view s) es" and "known s \<subseteq> used"
  shows "view (fold (room_step view join message leave) es s) = fold seat_step es (view s)"
  using assms
proof (induction es arbitrary: s used)
  case Nil
  then show ?case by simp
next
  case (Cons e es)
  show ?case
  proof (cases e)
    case (RJoin i r)
    have "i \<notin> known s" using Cons.prems RJoin by auto
    then show ?thesis
      using Cons.IH [of "join i r s" "insert i used"] Cons.prems joins [of s r i] RJoin by auto
  next
    case (RMessage r m)
    then obtain i q where "view s r = Some (i, q)" using Cons.prems by auto
    then show ?thesis
      using Cons.IH [of "message i m s" used] Cons.prems forwards [of s r i q m] RMessage by auto
  next
    case (RLeave r)
    then obtain i q where "view s r = Some (i, q)" using Cons.prems by auto
    then show ?thesis
      using Cons.IH [of "leave i s" used] Cons.prems leaves [of s r i q] RLeave by auto
  qed
qed

end

section \<open>The Worker (src/relay-worker/src/index.js)\<close>

definition EXPIRE_UNPAIRED_MS :: nat where
  "EXPIRE_UNPAIRED_MS = 30 * 60 * 1000"

text \<open>
  A socket of the object's runtime: its tag, the close frame the room sent on it and the messages
  sent to it; on a closed socket nothing more is sent. The runtime lists the sockets \<open>G\<close> holds for;
  it may go on listing a socket the room closed until its client answers.
\<close>

record socket =
  so_id :: nat
  so_role :: role
  so_closed :: "(nat \<times> string) option"
  so_sent :: "ws_msg list"

record room =
  rm_sockets :: "socket list"
  rm_alarm :: "nat option"

definition room_new :: room where
  "room_new = \<lparr>rm_sockets = [], rm_alarm = None\<rparr>"

definition lists_open :: "(socket \<Rightarrow> bool) \<Rightarrow> bool" where
  "lists_open G \<longleftrightarrow> (\<forall>s. so_closed s = None \<longrightarrow> G s)"

definition getWebSockets :: "(socket \<Rightarrow> bool) \<Rightarrow> role \<Rightarrow> room \<Rightarrow> socket list" where
  "getWebSockets G r st = filter (\<lambda>s. so_role s = r \<and> G s) (rm_sockets st)"

definition on_socket :: "nat \<Rightarrow> (socket \<Rightarrow> socket) \<Rightarrow> room \<Rightarrow> room" where
  "on_socket i h st = st\<lparr>rm_sockets := map (\<lambda>s. if so_id s = i then h s else s) (rm_sockets st)\<rparr>"

definition socket_send :: "nat \<Rightarrow> ws_msg \<Rightarrow> room \<Rightarrow> room" where
  "socket_send i m = on_socket i (\<lambda>s. if so_closed s = None then s\<lparr>so_sent := so_sent s @ [m]\<rparr> else s)"

definition socket_close :: "nat \<Rightarrow> string \<Rightarrow> nat \<Rightarrow> room \<Rightarrow> room" where
  "socket_close code reason i =
     on_socket i (\<lambda>s. if so_closed s = None then s\<lparr>so_closed := Some (code, reason)\<rparr> else s)"

definition peerOf :: "(socket \<Rightarrow> bool) \<Rightarrow> role \<Rightarrow> room \<Rightarrow> nat option" where
  "peerOf G r st =
     (case getWebSockets G (other r) st of [] \<Rightarrow> None | s # _ \<Rightarrow> Some (so_id s))"

fun role_param :: "string option \<Rightarrow> role option" where
  "role_param None = None"
| "role_param (Some p) = (if p = ''send'' then Some Sender else if p = ''recv'' then Some Receiver else None)"

text \<open>\<open>Room.fetch\<close>: the status of the response and the room; \<open>i\<close> is the socket of the new pair.\<close>

definition room_fetch ::
  "(socket \<Rightarrow> bool) \<Rightarrow> nat \<Rightarrow> nat \<Rightarrow> bool \<Rightarrow> string option \<Rightarrow> room \<Rightarrow> nat \<times> room" where
  "room_fetch G now i upgrade param st =
     (if \<not> upgrade then (426, st)
      else
        (case role_param param of
           None \<Rightarrow> (400, st)
         | Some r \<Rightarrow>
             (let st = fold (\<lambda>s. socket_close 1012 ''replaced by a new connection'' (so_id s))
                         (getWebSockets G r st) st;
                  st = st\<lparr>rm_sockets := rm_sockets st @
                         [\<lparr>so_id = i, so_role = r, so_closed = None, so_sent = []\<rparr>]\<rparr> in
              (101,
               case peerOf G r st of
                 Some p \<Rightarrow>
                   (socket_send p (WsText PEER_JOINED) (socket_send i (WsText PEER_JOINED) st))
                     \<lparr>rm_alarm := None\<rparr>
               | None \<Rightarrow> st\<lparr>rm_alarm := Some (now + EXPIRE_UNPAIRED_MS)\<rparr>))))"

fun tag_of :: "nat \<Rightarrow> socket list \<Rightarrow> role option" where
  "tag_of i [] = None"
| "tag_of i (s # ss) = (if so_id s = i then Some (so_role s) else tag_of i ss)"

definition webSocketMessage :: "(socket \<Rightarrow> bool) \<Rightarrow> nat \<Rightarrow> ws_msg \<Rightarrow> room \<Rightarrow> room" where
  "webSocketMessage G i m st =
     (case tag_of i (rm_sockets st) of
        None \<Rightarrow> st
      | Some r \<Rightarrow> (case peerOf G r st of Some p \<Rightarrow> socket_send p m st | None \<Rightarrow> st))"

text \<open>The registered pair of texts is answered without calling the object.\<close>

definition room_receive :: "(socket \<Rightarrow> bool) \<Rightarrow> nat \<Rightarrow> ws_msg \<Rightarrow> room \<Rightarrow> room" where
  "room_receive G i m st =
     (if m = WsText PING then socket_send i (WsText PONG) st else webSocketMessage G i m st)"

definition departed :: "(socket \<Rightarrow> bool) \<Rightarrow> nat \<Rightarrow> nat \<Rightarrow> room \<Rightarrow> room" where
  "departed G now i st =
     (case tag_of i (rm_sockets st) of
        None \<Rightarrow> st
      | Some r \<Rightarrow>
          if list_ex (\<lambda>s. so_id s \<noteq> i) (getWebSockets G r st) then st
          else
            (case peerOf G r st of
               Some p \<Rightarrow>
                 (socket_send p (WsText PEER_LEFT) st)\<lparr>rm_alarm := Some (now + EXPIRE_UNPAIRED_MS)\<rparr>
             | None \<Rightarrow> st))"

text \<open>\<open>webSocketClose\<close> and \<open>webSocketError\<close>; then the runtime forgets the socket.\<close>

definition webSocketClose :: "(socket \<Rightarrow> bool) \<Rightarrow> nat \<Rightarrow> nat \<Rightarrow> room \<Rightarrow> room" where
  "webSocketClose G now i st =
     (let st = departed G now i st in
      st\<lparr>rm_sockets := filter (\<lambda>s. so_id s \<noteq> i) (rm_sockets st)\<rparr>)"

definition room_alarm :: "(socket \<Rightarrow> bool) \<Rightarrow> room \<Rightarrow> room" where
  "room_alarm G st =
     fold (\<lambda>s. socket_close 1013 ''room expired'' (so_id s)) (filter G (rm_sockets st)) st"

text \<open>The Worker in front of the rooms.\<close>

definition room_name_ok :: "string \<Rightarrow> bool" where
  "room_name_ok s \<longleftrightarrow> list_all is_ascii_alphanumeric s \<and> 1 \<le> length s \<and> length s \<le> 64"

record worker_request =
  wq_pathname :: string
  wq_role :: "string option"
  wq_authorization :: "string option"
  wq_upgrade :: bool

definition worker_fetch ::
  "(socket \<Rightarrow> bool) \<Rightarrow> string option \<Rightarrow> nat \<Rightarrow> nat \<Rightarrow> worker_request \<Rightarrow> (string \<Rightarrow> room) \<Rightarrow>
   nat \<times> (string \<Rightarrow> room)" where
  "worker_fetch G relay_token now i req rooms =
     (if wq_pathname req = ''/healthz'' then (200, rooms)
      else
        (case strip_pre ''/v1/room/'' (wq_pathname req) of
           None \<Rightarrow> (404, rooms)
         | Some name \<Rightarrow>
             if \<not> room_name_ok name then (404, rooms)
             else if (case relay_token of None \<Rightarrow> False
                      | Some t \<Rightarrow> t \<noteq> [] \<and> wq_authorization req \<noteq> Some (''Bearer '' @ t))
             then (401, rooms)
             else
               (case room_fetch G now i (wq_upgrade req) (wq_role req) (rooms name) of
                  (code, st) \<Rightarrow> (code, rooms(name := st)))))"

section \<open>The Worker's room keeps the contract\<close>

definition room_view :: "room \<Rightarrow> seats" where
  "room_view st r = map_option (\<lambda>s. (so_id s, so_sent s)) (find (\<lambda>s. so_role s = r) (rm_sockets st))"

definition room_ok :: "(socket \<Rightarrow> bool) \<Rightarrow> room \<Rightarrow> bool" where
  "room_ok G st \<longleftrightarrow> lists_open G \<and> distinct (map so_id (rm_sockets st)) \<and>
     distinct (map so_role (rm_sockets st)) \<and> list_all (\<lambda>s. so_closed s = None) (rm_sockets st)"

definition room_known :: "room \<Rightarrow> nat set" where
  "room_known st = so_id ` set (rm_sockets st)"

lemma room_ok_new: "lists_open G \<Longrightarrow> room_ok G room_new"
  by (simp add: room_ok_def room_new_def)

lemma find_map_keeps:
  "(\<And>x. P (h x) = P x) \<Longrightarrow> find P (map h xs) = map_option h (find P xs)"
  by (induction xs) auto

lemma tag_of_in:
  "distinct (map so_id ss) \<Longrightarrow> s \<in> set ss \<Longrightarrow> tag_of (so_id s) ss = Some (so_role s)"
  by (induction ss) (auto simp: rev_image_eqI)

lemma room_view_Some:
  "room_view st r = Some (i, q) \<longleftrightarrow>
   (\<exists>s. find (\<lambda>s. so_role s = r) (rm_sockets st) = Some s \<and> so_id s = i \<and> so_sent s = q)"
  by (auto simp: room_view_def)

lemma find_role_in: "find (\<lambda>s. so_role s = r) ss = Some s \<Longrightarrow> s \<in> set ss \<and> so_role s = r"
  by (auto simp: find_Some_iff in_set_conv_nth)

lemma room_view_tag:
  "room_ok G st \<Longrightarrow> room_view st r = Some (i, q) \<Longrightarrow> tag_of i (rm_sockets st) = Some r"
  using tag_of_in find_role_in by (fastforce simp: room_view_Some room_ok_def)

lemma room_view_id_role:
  assumes "room_ok G st" and "room_view st r = Some (i, q)" and "room_view st r' = Some (i, q')"
  shows "r' = r"
  using room_view_tag [OF assms(1,2)] room_view_tag [OF assms(1,3)] by simp

lemma filter_role:
  "distinct (map so_role ss) \<Longrightarrow> list_all G ss \<Longrightarrow>
   filter (\<lambda>s. so_role s = r \<and> G s) ss = (case find (\<lambda>s. so_role s = r) ss of None \<Rightarrow> [] | Some s \<Rightarrow> [s])"
proof (induction ss)
  case (Cons s ss)
  have "filter (\<lambda>t. so_role t = so_role s \<and> G t) ss = []"
    using Cons.prems(1) by (auto simp: filter_empty_conv) (metis imageI)
  then show ?case using Cons by auto
qed simp

lemma getWebSockets_view:
  assumes "room_ok G st"
  shows "map so_id (getWebSockets G r st) = (case room_view st r of None \<Rightarrow> [] | Some (i, _) \<Rightarrow> [i])"
proof -
  have "list_all G (rm_sockets st)" using assms by (auto simp: room_ok_def lists_open_def list_all_iff)
  then show ?thesis using assms
    by (auto simp: room_ok_def getWebSockets_def room_view_def filter_role split: option.split)
qed

lemma peerOf_view:
  assumes "room_ok G st"
  shows "peerOf G r st = map_option fst (room_view st (other r))"
  using getWebSockets_view [OF assms, of "other r"]
  by (auto simp: peerOf_def split: option.splits list.splits)

lemma on_socket_sel:
  assumes "\<And>s. so_id (h s) = so_id s \<and> so_role (h s) = so_role s \<and> so_closed (h s) = so_closed s"
  shows "map so_id (rm_sockets (on_socket i h st)) = map so_id (rm_sockets st)"
    "map so_role (rm_sockets (on_socket i h st)) = map so_role (rm_sockets st)"
    "map so_closed (rm_sockets (on_socket i h st)) = map so_closed (rm_sockets st)"
  using assms by (simp_all add: on_socket_def)

lemma socket_send_sel:
  "map so_id (rm_sockets (socket_send i m st)) = map so_id (rm_sockets st)"
  "map so_role (rm_sockets (socket_send i m st)) = map so_role (rm_sockets st)"
  "map so_closed (rm_sockets (socket_send i m st)) = map so_closed (rm_sockets st)"
  unfolding socket_send_def by (rule on_socket_sel, simp)+

lemma room_ok_maps:
  "room_ok G st \<longleftrightarrow> lists_open G \<and> distinct (map so_id (rm_sockets st)) \<and>
     distinct (map so_role (rm_sockets st)) \<and> list_all (\<lambda>c. c = None) (map so_closed (rm_sockets st))"
  by (simp add: room_ok_def list_all_iff)

lemma room_ok_send [simp]: "room_ok G (socket_send i m st) = room_ok G st"
  unfolding room_ok_maps socket_send_sel ..

lemma room_known_send [simp]: "room_known (socket_send i m st) = room_known st"
  unfolding room_known_def list.set_map [symmetric] socket_send_sel ..

lemma room_view_send:
  assumes "room_ok G st" and "room_view st r = Some (i, q)"
  shows "room_view (socket_send i m st) = tell r m (room_view st)"
proof
  fix r'
  let ?h = "\<lambda>s. if so_id s = i then if so_closed s = None then s\<lparr>so_sent := so_sent s @ [m]\<rparr> else s else s"
  have f: "find (\<lambda>s. so_role s = r') (map ?h (rm_sockets st)) =
      map_option ?h (find (\<lambda>s. so_role s = r') (rm_sockets st))"
    by (rule find_map_keeps) simp
  show "room_view (socket_send i m st) r' = tell r m (room_view st) r'"
  proof (cases "find (\<lambda>s. so_role s = r') (rm_sockets st)")
    case None
    then show ?thesis using f assms(2) by (auto simp: room_view_def socket_send_def on_socket_def tell_def)
  next
    case (Some s)
    then have v: "room_view st r' = Some (so_id s, so_sent s)" by (simp add: room_view_def)
    have o: "so_closed s = None" using assms(1) find_role_in [OF Some] by (auto simp: room_ok_def list_all_iff)
    have "r' = r" if "so_id s = i" by (rule room_view_id_role [OF assms v [unfolded that]])
    then have "so_id s = i \<longleftrightarrow> r' = r" using v assms(2) by auto
    moreover have "room_view (socket_send i m st) r' = Some (so_id s, so_sent (?h s))"
      using f Some by (simp add: room_view_def socket_send_def on_socket_def)
    ultimately show ?thesis using v o by (auto simp: tell_def)
  qed
qed

text \<open>The operations of the contract; the alarm's time plays no part in it.\<close>

definition room_join :: "(socket \<Rightarrow> bool) \<Rightarrow> nat \<Rightarrow> nat \<Rightarrow> role \<Rightarrow> room \<Rightarrow> room" where
  "room_join G now i r st = snd (room_fetch G now i True (Some (role_query r)) st)"

lemma room_alarm_sel [simp]:
  "room_view (st\<lparr>rm_alarm := a\<rparr>) = room_view st" "room_ok G (st\<lparr>rm_alarm := a\<rparr>) = room_ok G st"
  "room_known (st\<lparr>rm_alarm := a\<rparr>) = room_known st"
  by (simp_all add: room_view_def room_ok_def room_known_def fun_eq_iff)

lemma role_param_query [simp]: "role_param (Some (role_query r)) = Some r"
  by (cases r) (simp_all add: role_query_def)

lemma room_join_ok:
  assumes ok: "room_ok G st" and free: "room_view st r = None" and new: "i \<notin> room_known st"
  shows "room_ok G (room_join G now i r st)" and "room_view (room_join G now i r st) = seat_join i r (room_view st)"
    and "room_known (room_join G now i r st) = insert i (room_known st)"
proof -
  let ?st = "st\<lparr>rm_sockets := rm_sockets st @ [\<lparr>so_id = i, so_role = r, so_closed = None, so_sent = []\<rparr>]\<rparr>"
  have none: "getWebSockets G r st = []" using getWebSockets_view [OF ok, of r] free by simp
  have nr: "r \<notin> so_role ` set (rm_sockets st)"
    using free by (auto simp: room_view_def find_None_iff)
  have ok': "room_ok G ?st" using ok new nr by (auto simp: room_ok_def room_known_def)
  have fa: "find P (xs @ ys) = (case find P xs of None \<Rightarrow> find P ys | Some z \<Rightarrow> Some z)"
    for P and xs ys :: "socket list" by (induction xs) auto
  have v: "room_view ?st = (room_view st)(r \<mapsto> (i, []))"
    using free by (auto simp: room_view_def fun_eq_iff fa split: option.splits)
  have vo: "room_view ?st (other r) = room_view st (other r)" by (simp add: v)
  have k: "room_known ?st = insert i (room_known st)" by (auto simp: room_known_def)
  have j: "room_join G now i r st =
      (case peerOf G r ?st of
         Some p \<Rightarrow> (socket_send p (WsText PEER_JOINED) (socket_send i (WsText PEER_JOINED) ?st))\<lparr>rm_alarm := None\<rparr>
       | None \<Rightarrow> ?st\<lparr>rm_alarm := Some (now + EXPIRE_UNPAIRED_MS)\<rparr>)"
    by (simp add: room_join_def room_fetch_def none Let_def del: role_param.simps)
  have p: "peerOf G r ?st = map_option fst (room_view st (other r))"
    by (simp add: peerOf_view [OF ok'] vo)
  show "room_ok G (room_join G now i r st)" unfolding j by (simp add: ok' split: option.split)
  show "room_known (room_join G now i r st) = insert i (room_known st)"
    unfolding j by (simp add: k split: option.split)
  show "room_view (room_join G now i r st) = seat_join i r (room_view st)"
  proof (cases "room_view st (other r)")
    case None
    then show ?thesis unfolding j p by (simp add: v seat_join_def)
  next
    case (Some x)
    then obtain p' q where x: "room_view st (other r) = Some (p', q)" by (cases x) auto
    have v1: "room_view (socket_send i (WsText PEER_JOINED) ?st) = tell r (WsText PEER_JOINED) (room_view ?st)"
      by (rule room_view_send [OF ok', where q = "[]"]) (simp add: v)
    have "room_view (socket_send p' (WsText PEER_JOINED) (socket_send i (WsText PEER_JOINED) ?st)) =
        tell (other r) (WsText PEER_JOINED) (tell r (WsText PEER_JOINED) (room_view ?st))"
      unfolding v1 [symmetric]
      by (rule room_view_send [where G = G and q = q]) (simp_all add: ok' v1 tell_def v x)
    then show ?thesis unfolding j p by (simp add: x v seat_join_def)
  qed
qed

lemma room_receive_ok:
  assumes ok: "room_ok G st" and seat: "room_view st r = Some (i, q)"
  shows "room_ok G (room_receive G i m st)" and "room_view (room_receive G i m st) = seat_message r m (room_view st)"
    and "room_known (room_receive G i m st) = room_known st"
proof -
  have tag: "tag_of i (rm_sockets st) = Some r" by (rule room_view_tag [OF ok seat])
  show "room_ok G (room_receive G i m st)" "room_known (room_receive G i m st) = room_known st"
    using ok by (simp_all add: room_receive_def webSocketMessage_def split: option.split)
  show "room_view (room_receive G i m st) = seat_message r m (room_view st)"
    using room_view_send [OF ok, of "other r"] room_view_send [OF ok seat]
    by (auto simp: room_receive_def webSocketMessage_def tag peerOf_view [OF ok] seat_message_def
        tell_def fun_eq_iff split: option.split)
qed

lemma webSocketClose_ok:
  assumes ok: "room_ok G st" and seat: "room_view st r = Some (i, q)"
  shows "room_ok G (webSocketClose G now i st)" and "room_view (webSocketClose G now i st) = seat_leave r (room_view st)"
    and "room_known (webSocketClose G now i st) \<subseteq> room_known st"
proof -
  have tag: "tag_of i (rm_sockets st) = Some r" by (rule room_view_tag [OF ok seat])
  have "map so_id (getWebSockets G r st) = [i]" using getWebSockets_view [OF ok, of r] seat by simp
  then have alone: "\<not> list_ex (\<lambda>s. so_id s \<noteq> i) (getWebSockets G r st)" by auto
  define st1 where "st1 = departed G now i st"
  have st1: "st1 = (case room_view st (other r) of
      Some (p, _) \<Rightarrow> (socket_send p (WsText PEER_LEFT) st)\<lparr>rm_alarm := Some (now + EXPIRE_UNPAIRED_MS)\<rparr>
    | None \<Rightarrow> st)"
    unfolding st1_def departed_def using alone
    by (simp add: tag peerOf_view [OF ok] split: option.split)
  have ok1: "room_ok G st1" using ok by (simp add: st1 split: option.split)
  have v1: "room_view st1 = tell (other r) (WsText PEER_LEFT) (room_view st)"
    using room_view_send [OF ok, of "other r"]
    by (auto simp: st1 tell_def fun_eq_iff split: option.split)
  have c: "webSocketClose G now i st = st1\<lparr>rm_sockets := filter (\<lambda>s. so_id s \<noteq> i) (rm_sockets st1)\<rparr>"
    by (simp only: webSocketClose_def st1_def Let_def)
  show "room_ok G (webSocketClose G now i st)"
    using ok1 by (auto simp: c room_ok_def list_all_iff distinct_map_filter)
  show "room_known (webSocketClose G now i st) \<subseteq> room_known st"
  proof -
    have "room_known st1 = room_known st" by (simp add: st1 split: option.split)
    then show ?thesis by (auto simp: c room_known_def)
  qed
  have out: "find (\<lambda>s. so_role s = r') (filter (\<lambda>s. so_id s \<noteq> i) ss) =
      (if r' = r then None else find (\<lambda>s. so_role s = r') ss)"
    if "distinct (map so_role ss)" "\<And>s. s \<in> set ss \<Longrightarrow> so_id s = i \<longleftrightarrow> so_role s = r" for r' ss
    using that by (induction ss) (auto simp: find_None_iff)
  have mem: "so_id s = i \<longleftrightarrow> so_role s = r" if "s \<in> set (rm_sockets st1)" for s
  proof -
    have "room_view st1 r = Some (i, q)" by (simp add: v1 tell_def seat)
    then obtain s' where s': "s' \<in> set (rm_sockets st1)" "so_role s' = r" "so_id s' = i"
      unfolding room_view_Some using find_role_in by blast
    show ?thesis
      using that s' ok1 by (auto simp: room_ok_def distinct_map inj_on_def)
  qed
  show "room_view (webSocketClose G now i st) = seat_leave r (room_view st)"
  proof
    fix r'
    have "room_view (webSocketClose G now i st) r' = (if r' = r then None else room_view st1 r')"
      using out [of "rm_sockets st1" r'] mem ok1 by (simp add: c room_view_def room_ok_def)
    then show "room_view (webSocketClose G now i st) r' = seat_leave r (room_view st) r'"
      by (auto simp: v1 seat_leave_def tell_def)
  qed
qed


interpretation worker: relay_room room_view "room_ok G" room_known "room_join G now" "room_receive G"
  "webSocketClose G now" for G now
proof
  show "room_ok G (room_join G now i r s) \<and> room_view (room_join G now i r s) = seat_join i r (room_view s) \<and>
      room_known (room_join G now i r s) \<subseteq> insert i (room_known s)"
    if "room_ok G s" "room_view s r = None" "i \<notin> room_known s" for s r i
    using room_join_ok [OF that, of now] by simp
  show "room_ok G (room_receive G i m s) \<and> room_view (room_receive G i m s) = seat_message r m (room_view s) \<and>
      room_known (room_receive G i m s) \<subseteq> room_known s"
    if "room_ok G s" "room_view s r = Some (i, q)" "is_data m" for s r i q m
    using room_receive_ok [OF that(1,2), of m] by simp
  show "room_ok G (webSocketClose G now i s) \<and> room_view (webSocketClose G now i s) = seat_leave r (room_view s) \<and>
      room_known (webSocketClose G now i s) \<subseteq> room_known s"
    if "room_ok G s" "room_view s r = Some (i, q)" for s r i q
    using webSocketClose_ok [OF that, of now] by simp
qed

section \<open>The in-process relay (src/src/transport/mock.rs)\<close>

text \<open>
  A connection task has its own key, the key of its peer, the queue its sender in the map feeds and
  what it wrote to its socket. Steps of the tasks: the upgrade callback, joining after the upgrade,
  an item from the socket, a message from the queue. The sender of a queue lives in the map only.
\<close>

record mock_conn =
  mc_me :: string
  mc_them :: string
  mc_queue :: "ws_msg list"
  mc_written :: "ws_msg list"

record mock =
  mk_peers :: "string \<rightharpoonup> nat"
  mk_conns :: "nat \<rightharpoonup> mock_conn"

definition mock_new :: mock where
  "mock_new = \<lparr>mk_peers = (\<lambda>_. None), mk_conns = (\<lambda>_. None)\<rparr>"

fun split_once_str :: "string \<Rightarrow> string \<Rightarrow> (string \<times> string) option" where
  "split_once_str p [] = (if p = [] then Some ([], []) else None)"
| "split_once_str p (x # xs) =
     (if prefix p (x # xs) then Some ([], drop (length p) (x # xs))
      else map_option (\<lambda>(a, b). (x # a, b)) (split_once_str p xs))"

definition mock_path :: "string \<Rightarrow> (string \<times> string) option" where
  "mock_path path = Option.bind (strip_pre ''/v1/room/'' path) (split_once_str ''?role='')"

definition mock_key :: "string \<Rightarrow> string \<Rightarrow> string" where
  "mock_key room role = room @ ''/'' @ role"

definition mock_send_to :: "string \<Rightarrow> ws_msg \<Rightarrow> mock \<Rightarrow> mock" where
  "mock_send_to key m st =
     (case mk_peers st key of
        None \<Rightarrow> st
      | Some i \<Rightarrow>
          st\<lparr>mk_conns := (mk_conns st)
            (i := map_option (\<lambda>c. c\<lparr>mc_queue := mc_queue c @ [m]\<rparr>) (mk_conns st i))\<rparr>)"

text \<open>The callback: the upgrade is refused with 409 when the role is taken.\<close>

definition mock_callback :: "string \<Rightarrow> mock \<Rightarrow> dial_result" where
  "mock_callback path st =
     (case mock_path path of
        Some (room, role) \<Rightarrow> if mk_peers st (mock_key room role) \<noteq> None then DialHttp 409 else DialOk
      | None \<Rightarrow> DialOk)"

definition mock_enter :: "nat \<Rightarrow> string \<Rightarrow> mock \<Rightarrow> mock" where
  "mock_enter i path st =
     (case mock_path path of
        None \<Rightarrow> st
      | Some (room, role) \<Rightarrow>
          (let me = mock_key room role;
               them = mock_key room (if role = ''send'' then ''recv'' else ''send'');
               st = st\<lparr>mk_peers := (mk_peers st)(me \<mapsto> i),
                       mk_conns := (mk_conns st)(i \<mapsto> \<lparr>mc_me = me, mc_them = them, mc_queue = [], mc_written = []\<rparr>)\<rparr> in
           if mk_peers st them \<noteq> None
           then mock_send_to them (WsText PEER_JOINED) (mock_send_to me (WsText PEER_JOINED) st)
           else st))"

definition mock_exit :: "nat \<Rightarrow> mock \<Rightarrow> mock" where
  "mock_exit i st =
     (case mk_conns st i of
        None \<Rightarrow> st
      | Some c \<Rightarrow>
          mock_send_to (mc_them c) (WsText PEER_LEFT)
            (st\<lparr>mk_peers := (mk_peers st)(mc_me c := None), mk_conns := (mk_conns st)(i := None)\<rparr>))"

definition mock_socket :: "nat \<Rightarrow> ws_item \<Rightarrow> mock \<Rightarrow> mock" where
  "mock_socket i item st =
     (case mk_conns st i of
        None \<Rightarrow> st
      | Some c \<Rightarrow>
          (case item of
             Some (Inr (WsText t)) \<Rightarrow>
               if t = PING then mock_send_to (mc_me c) (WsText PONG) st
               else mock_send_to (mc_them c) (WsText t) st
           | Some (Inr (WsBinary b)) \<Rightarrow> mock_send_to (mc_them c) (WsBinary b) st
           | Some (Inr WsClose) \<Rightarrow> mock_exit i st
           | Some (Inl _) \<Rightarrow> mock_exit i st
           | None \<Rightarrow> mock_exit i st
           | Some (Inr WsOther) \<Rightarrow> st))"

text \<open>\<open>written\<close>: whether the socket takes the message.\<close>

definition mock_flush :: "nat \<Rightarrow> bool \<Rightarrow> mock \<Rightarrow> mock" where
  "mock_flush i written st =
     (case mk_conns st i of
        None \<Rightarrow> st
      | Some c \<Rightarrow>
          (case mc_queue c of
             m # q \<Rightarrow>
               if written
               then st\<lparr>mk_conns := (mk_conns st)
                      (i \<mapsto> c\<lparr>mc_queue := q, mc_written := mc_written c @ [m]\<rparr>)\<rparr>
               else mock_exit i st
           | [] \<Rightarrow> if mk_peers st (mc_me c) = Some i then st else mock_exit i st))"

text \<open>What a client's upgrade request amounts to when nobody else joins in between.\<close>

definition mock_connect :: "nat \<Rightarrow> string \<Rightarrow> mock \<Rightarrow> dial_result \<times> mock" where
  "mock_connect i path st =
     (case mock_callback path st of
        DialOk \<Rightarrow> (DialOk, mock_enter i path st)
      | e \<Rightarrow> (e, st))"

section \<open>The in-process relay keeps the contract\<close>

definition mock_view :: "string \<Rightarrow> mock \<Rightarrow> seats" where
  "mock_view nm st r =
     (case mk_peers st (mock_key nm (role_query r)) of
        None \<Rightarrow> None
      | Some i \<Rightarrow> map_option (\<lambda>c. (i, mc_written c @ mc_queue c)) (mk_conns st i))"

definition mock_ok :: "string \<Rightarrow> mock \<Rightarrow> bool" where
  "mock_ok nm st \<longleftrightarrow> CHR ''?'' \<notin> set nm \<and>
     (\<forall>k i. mk_peers st k = Some i \<longrightarrow> (\<exists>c. mk_conns st i = Some c \<and> mc_me c = k)) \<and>
     (\<forall>i c. mk_conns st i = Some c \<longrightarrow> mk_peers st (mc_me c) = Some i \<and>
        (\<exists>nm r. mc_me c = mock_key nm (role_query r) \<and> mc_them c = mock_key nm (role_query (other r))))"

definition mock_join :: "string \<Rightarrow> nat \<Rightarrow> role \<Rightarrow> mock \<Rightarrow> mock" where
  "mock_join nm i r st = snd (mock_connect i (''/v1/room/'' @ nm @ ''?role='' @ role_query r) st)"

definition mock_message :: "nat \<Rightarrow> ws_msg \<Rightarrow> mock \<Rightarrow> mock" where
  "mock_message i m = mock_socket i (Some (Inr m))"

definition mock_leave :: "nat \<Rightarrow> mock \<Rightarrow> mock" where
  "mock_leave i = mock_socket i None"

lemma length_role_query [simp]: "length (role_query r) = 4"
  by (cases r) (simp_all add: role_query_def)

lemma role_query_inj [simp]: "role_query r = role_query r' \<longleftrightarrow> r = r'"
  by (cases r; cases r') (simp_all add: role_query_def)

lemma mock_key_inj [simp]: "mock_key a (role_query r) = mock_key b (role_query r') \<longleftrightarrow> a = b \<and> r = r'"
proof -
  have "length (''/'' @ role_query r) = length (''/'' @ role_query r')" by simp
  from append_eq_append_conv [OF disjI2 [OF this], of a b] show ?thesis by (simp add: mock_key_def)
qed

lemma other_query: "(if role_query r = ''send'' then ''recv'' else ''send'') = role_query (other r)"
  by (cases r) (simp_all add: role_query_def)

lemma split_once_str_here:
  "c \<notin> set a \<Longrightarrow> split_once_str (c # p) (a @ c # p @ b) = Some (a, b)"
  by (induction a) auto

lemma mock_path_dialed:
  "CHR ''?'' \<notin> set nm \<Longrightarrow> mock_path (''/v1/room/'' @ nm @ ''?role='' @ q) = Some (nm, q)"
  unfolding mock_path_def strip_pre_append Option.bind.bind_lunit
  using split_once_str_here [of "CHR ''?''" nm "''role=''" q] by simp

lemma mock_ok_peer:
  "mock_ok nm st \<Longrightarrow> mk_peers st k = Some i \<Longrightarrow> \<exists>c. mk_conns st i = Some c \<and> mc_me c = k"
  by (simp add: mock_ok_def)

lemma mock_ok_conn:
  "mock_ok nm st \<Longrightarrow> mk_conns st i = Some c \<Longrightarrow> mk_peers st (mc_me c) = Some i"
  by (simp add: mock_ok_def)

lemma mock_seat:
  assumes "mock_ok nm st" and "mock_view nm st r = Some (i, q)"
  shows "\<exists>c. mk_conns st i = Some c \<and> mc_me c = mock_key nm (role_query r) \<and>
    mc_them c = mock_key nm (role_query (other r)) \<and> mk_peers st (mc_me c) = Some i"
proof -
  obtain c where c: "mk_peers st (mock_key nm (role_query r)) = Some i" "mk_conns st i = Some c"
    using assms(2) by (auto simp: mock_view_def split: option.splits)
  then have me: "mc_me c = mock_key nm (role_query r)" using mock_ok_peer [OF assms(1) c(1)] by auto
  obtain nm' r' where "mc_me c = mock_key nm' (role_query r')" "mc_them c = mock_key nm' (role_query (other r'))"
    using assms(1) c(2) unfolding mock_ok_def by blast
  then show ?thesis using me c by simp
qed

lemma mock_view_None:
  "mock_ok nm st \<Longrightarrow> mock_view nm st r = None \<longleftrightarrow> mk_peers st (mock_key nm (role_query r)) = None"
  by (auto simp: mock_view_def split: option.splits dest: mock_ok_peer)

lemma mock_send_to_sel [simp]:
  "mk_peers (mock_send_to k m st) = mk_peers st" "dom (mk_conns (mock_send_to k m st)) = dom (mk_conns st)"
  by (auto simp: mock_send_to_def split: option.split)

lemma mock_send_to_conn:
  "mk_conns (mock_send_to k m st) i = (if mk_peers st k = Some i
     then map_option (\<lambda>c. c\<lparr>mc_queue := mc_queue c @ [m]\<rparr>) (mk_conns st i) else mk_conns st i)"
  by (auto simp: mock_send_to_def split: option.split)

lemma mock_ok_send [simp]:
  assumes ok: "mock_ok nm st"
  shows "mock_ok nm (mock_send_to k m st)"
proof -
  have "\<exists>c. mk_conns (mock_send_to k m st) i = Some c \<and> mc_me c = l" if "mk_peers st l = Some i" for l i
    using mock_ok_peer [OF ok that] by (auto simp: mock_send_to_conn)
  then show ?thesis using ok by (auto simp: mock_ok_def mock_send_to_conn split: if_splits)
qed

lemma mock_view_send:
  assumes "mock_ok nm st"
  shows "mock_view nm (mock_send_to (mock_key nm (role_query r)) m st) = tell r m (mock_view nm st)"
proof
  fix r'
  have inj: "mk_peers st (mock_key nm (role_query r')) = Some i \<Longrightarrow>
      mk_peers st (mock_key nm (role_query r)) = Some i \<Longrightarrow> r' = r" for i
    using mock_ok_peer [OF assms, of "mock_key nm (role_query r)" i]
      mock_ok_peer [OF assms, of "mock_key nm (role_query r')" i] by auto
  show "mock_view nm (mock_send_to (mock_key nm (role_query r)) m st) r' = tell r m (mock_view nm st) r'"
    using inj by (auto simp: mock_view_def tell_def mock_send_to_conn option.map_comp comp_def
        split: option.split)
qed

lemma mock_join_ok:
  assumes ok: "mock_ok nm st" and free: "mock_view nm st r = None" and new: "i \<notin> dom (mk_conns st)"
  shows "mock_ok nm (mock_join nm i r st)" and "mock_view nm (mock_join nm i r st) = seat_join i r (mock_view nm st)"
    and "dom (mk_conns (mock_join nm i r st)) = insert i (dom (mk_conns st))"
proof -
  let ?me = "mock_key nm (role_query r)" and ?them = "mock_key nm (role_query (other r))"
  define st1 where "st1 = st\<lparr>mk_peers := (mk_peers st)(?me \<mapsto> i),
      mk_conns := (mk_conns st)(i \<mapsto> \<lparr>mc_me = ?me, mc_them = ?them, mc_queue = [], mc_written = []\<rparr>)\<rparr>"
  have none: "mk_peers st ?me = None" using mock_view_None [OF ok] free by simp
  have path: "mock_path (''/v1/room/'' @ nm @ ''?role='' @ role_query r) = Some (nm, role_query r)"
    using ok by (intro mock_path_dialed) (simp add: mock_ok_def)
  have j: "mock_join nm i r st =
      (if mk_peers st1 ?them \<noteq> None
       then mock_send_to ?them (WsText PEER_JOINED) (mock_send_to ?me (WsText PEER_JOINED) st1) else st1)"
    unfolding mock_join_def mock_connect_def mock_callback_def mock_enter_def path st1_def
    by (simp add: none other_query Let_def)
  have gone: "mk_peers st k \<noteq> Some i" for k using mock_ok_peer [OF ok, of k i] new by auto
  have other_key: "mk_conns st l = Some c \<Longrightarrow> mc_me c \<noteq> ?me" for l c
    using mock_ok_conn [OF ok, of l c] none by auto
  have ok1: "mock_ok nm st1"
    using ok gone other_key unfolding mock_ok_def st1_def by auto
  have v1: "mock_view nm st1 = (mock_view nm st)(r \<mapsto> (i, []))"
    using gone by (auto simp: st1_def mock_view_def fun_eq_iff split: option.splits)
  have t: "mk_peers st1 ?them = None \<longleftrightarrow> mock_view nm st1 (other r) = None"
    using mock_view_None [OF ok1] by simp
  have d: "dom (mk_conns st1) = insert i (dom (mk_conns st))" by (auto simp: st1_def)
  show "mock_ok nm (mock_join nm i r st)" by (simp add: j ok1)
  show "dom (mk_conns (mock_join nm i r st)) = insert i (dom (mk_conns st))" by (simp add: j d)
  show "mock_view nm (mock_join nm i r st) = seat_join i r (mock_view nm st)"
    by (auto simp: j t mock_view_send ok1 seat_join_def Let_def v1)
qed

lemma mock_message_ok:
  assumes ok: "mock_ok nm st" and seat: "mock_view nm st r = Some (i, q)" and data: "is_data m"
  shows "mock_ok nm (mock_message i m st)" and "mock_view nm (mock_message i m st) = seat_message r m (mock_view nm st)"
    and "dom (mk_conns (mock_message i m st)) = dom (mk_conns st)"
proof -
  obtain c where c: "mk_conns st i = Some c" "mc_me c = mock_key nm (role_query r)"
    "mc_them c = mock_key nm (role_query (other r))" using mock_seat [OF ok seat] by blast
  have "mock_message i m st =
      (if m = WsText PING then mock_send_to (mc_me c) (WsText PONG) st else mock_send_to (mc_them c) m st)"
    using data by (cases m) (auto simp: mock_message_def mock_socket_def c(1))
  then show "mock_ok nm (mock_message i m st)" "dom (mk_conns (mock_message i m st)) = dom (mk_conns st)"
    "mock_view nm (mock_message i m st) = seat_message r m (mock_view nm st)"
    using ok by (simp_all add: c mock_view_send seat_message_def)
qed

lemma mock_leave_ok:
  assumes ok: "mock_ok nm st" and seat: "mock_view nm st r = Some (i, q)"
  shows "mock_ok nm (mock_leave i st)" and "mock_view nm (mock_leave i st) = seat_leave r (mock_view nm st)"
    and "dom (mk_conns (mock_leave i st)) \<subseteq> dom (mk_conns st)"
proof -
  let ?me = "mock_key nm (role_query r)"
  obtain c where c: "mk_conns st i = Some c" "mc_me c = ?me"
    "mc_them c = mock_key nm (role_query (other r))" "mk_peers st ?me = Some i"
    using mock_seat [OF ok seat] by auto
  define st1 where "st1 = st\<lparr>mk_peers := (mk_peers st)(?me := None), mk_conns := (mk_conns st)(i := None)\<rparr>"
  have l: "mock_leave i st = mock_send_to (mock_key nm (role_query (other r))) (WsText PEER_LEFT) st1"
    by (simp add: mock_leave_def mock_socket_def mock_exit_def c st1_def)
  have only: "mk_peers st k = Some i \<Longrightarrow> k = ?me" for k using mock_ok_peer [OF ok, of k i] c by auto
  have other_key: "mk_conns st l = Some c \<Longrightarrow> l \<noteq> i \<Longrightarrow> mc_me c \<noteq> ?me" for l c
    using mock_ok_conn [OF ok, of l c] c(4) by auto
  have ok1: "mock_ok nm st1"
    using ok only other_key unfolding mock_ok_def st1_def by auto
  have v1: "mock_view nm st1 = (mock_view nm st)(r := None)"
    using only mock_key_inj by (fastforce simp: st1_def mock_view_def fun_eq_iff split: option.splits)
  show "mock_ok nm (mock_leave i st)" by (simp add: l ok1)
  show "mock_view nm (mock_leave i st) = seat_leave r (mock_view nm st)"
    by (simp add: l mock_view_send ok1 v1 seat_leave_def)
  show "dom (mk_conns (mock_leave i st)) \<subseteq> dom (mk_conns st)" by (auto simp: l st1_def)
qed

interpretation mock: relay_room "mock_view nm" "mock_ok nm" "\<lambda>st. dom (mk_conns st)" "mock_join nm"
  mock_message mock_leave for nm
proof
  show "mock_ok nm (mock_join nm i r s) \<and> mock_view nm (mock_join nm i r s) = seat_join i r (mock_view nm s) \<and>
      dom (mk_conns (mock_join nm i r s)) \<subseteq> insert i (dom (mk_conns s))"
    if "mock_ok nm s" "mock_view nm s r = None" "i \<notin> dom (mk_conns s)" for s r i
    using mock_join_ok [OF that] by simp
  show "mock_ok nm (mock_message i m s) \<and> mock_view nm (mock_message i m s) = seat_message r m (mock_view nm s) \<and>
      dom (mk_conns (mock_message i m s)) \<subseteq> dom (mk_conns s)"
    if "mock_ok nm s" "mock_view nm s r = Some (i, q)" "is_data m" for s r i q m
    using mock_message_ok [OF that] by simp
  show "mock_ok nm (mock_leave i s) \<and> mock_view nm (mock_leave i s) = seat_leave r (mock_view nm s) \<and>
      dom (mk_conns (mock_leave i s)) \<subseteq> dom (mk_conns s)"
    if "mock_ok nm s" "mock_view nm s r = Some (i, q)" for s r i q
    using mock_leave_ok [OF that] by simp
qed


section \<open>Consequences\<close>

text \<open>
  A join on a taken seat: the old socket is closed; once its client answered, the seat is the new
  socket's, the peer has heard of the new partner and of no departure.
\<close>

lemma tag_of_role: "tag_of i ss = Some r \<Longrightarrow> r \<in> so_role ` set ss"
  by (induction ss) (auto split: if_splits)

lemma room_two:
  assumes "room_ok G st" and "room_view st r = Some (i, q)" and "room_view st (other r) = Some (p, qp)"
  shows "\<exists>a b. rm_sockets st = [a, b] \<and>
    (so_role a = r \<and> so_role b = other r \<or> so_role a = other r \<and> so_role b = r)"
proof -
  have "length (rm_sockets st) = card (set (map so_role (rm_sockets st)))"
    using assms(1) by (metis distinct_card length_map room_ok_def)
  moreover have "set (map so_role (rm_sockets st)) = {r, other r}"
  proof
    have "x = r \<or> x = other r" for x by (cases x; cases r) auto
    then show "set (map so_role (rm_sockets st)) \<subseteq> {r, other r}" by blast
    show "{r, other r} \<subseteq> set (map so_role (rm_sockets st))"
      using room_view_tag [OF assms(1,2)] room_view_tag [OF assms(1,3)] tag_of_role by fastforce
  qed
  ultimately have two: "length (rm_sockets st) = 2" and roles: "set (map so_role (rm_sockets st)) = {r, other r}" by auto
  obtain a b where ab: "rm_sockets st = [a, b]"
    using two by (cases "rm_sockets st"; cases "tl (rm_sockets st)") auto
  then have "{so_role a, so_role b} = {r, other r}" using roles by simp
  then show ?thesis using ab by (simp add: doubleton_eq_iff)
qed

lemma takeover_settles:
  fixes now later :: nat
  assumes ok: "room_ok G st" and seat: "room_view st r = Some (i, q)"
    and peer: "room_view st (other r) = Some (p, qp)" and new: "j \<notin> room_known st"
  defines "st' \<equiv> webSocketClose G later i (room_join G now j r st)"
  shows "room_view st' r = Some (j, [WsText PEER_JOINED])"
    and "room_view st' (other r) = Some (p, qp @ [WsText PEER_JOINED])" and "room_ok G st'"
proof -
  obtain a b where ab: "rm_sockets st = [a, b]"
    and roles: "so_role a = r \<and> so_role b = other r \<or> so_role a = other r \<and> so_role b = r"
    using room_two [OF ok seat peer] by blast
  have o: "so_closed a = None" "so_closed b = None" "so_id a \<noteq> so_id b"
    and G: "\<And>s. so_closed s = None \<Longrightarrow> G s"
    using ok ab by (auto simp: room_ok_def lists_open_def)
  have j: "so_id a \<noteq> j" "so_id b \<noteq> j" using new ab by (auto simp: room_known_def)
  define old peer' fresh where "old = (if so_role a = r then a else b)\<lparr>so_closed := Some (1012, ''replaced by a new connection'')\<rparr>"
    and "peer' = (if so_role a = r then b else a)\<lparr>so_sent := qp @ [WsText PEER_JOINED]\<rparr>"
    and "fresh = \<lparr>so_id = j, so_role = r, so_closed = None, so_sent = [WsText PEER_JOINED]\<rparr>"
  note join = room_join_def room_fetch_def getWebSockets_def peerOf_def socket_close_def socket_send_def
    on_socket_def Let_def
  have ids: "so_id old = i" "so_id peer' = p" "so_role old = r" "so_role peer' = other r"
    "so_closed peer' = None" "so_sent peer' = qp @ [WsText PEER_JOINED]" "i \<noteq> p" "p \<noteq> j" "i \<noteq> j"
    using roles seat peer ab o j by (auto simp: room_view_def old_def peer'_def)
  have joined: "rm_sockets (room_join G now j r st) =
      (if so_role a = r then [old, peer', fresh] else [peer', old, fresh])"
    using roles
  proof
    assume r: "so_role a = r \<and> so_role b = other r"
    then have "so_id a = i" "so_id b = p" "so_sent b = qp" using seat peer ab by (auto simp: room_view_def)
    then show ?thesis using r o j G
      by (simp add: join ab old_def peer'_def fresh_def del: role_param.simps)
  next
    assume r: "so_role a = other r \<and> so_role b = r"
    then have "so_id b = i" "so_id a = p" "so_sent a = qp" using seat peer ab by (auto simp: room_view_def)
    then show ?thesis using r o j G
      by (simp add: join ab old_def peer'_def fresh_def del: role_param.simps)
  qed
  have f: "so_id fresh = j" "so_role fresh = r" "G fresh" "so_closed fresh = None" "so_sent fresh = [WsText PEER_JOINED]"
    using G by (simp_all add: fresh_def)
  have "departed G later i (room_join G now j r st) = room_join G now j r st"
    using ids f by (simp add: departed_def joined getWebSockets_def)
  then have socks: "rm_sockets st' = [peer', fresh]"
    using ids f by (simp add: st'_def webSocketClose_def joined)
  show "room_view st' r = Some (j, [WsText PEER_JOINED])"
    "room_view st' (other r) = Some (p, qp @ [WsText PEER_JOINED])" "room_ok G st'"
    using ok ids f by (simp_all add: room_view_def room_ok_def socks)
qed

text \<open>
  Until then a runtime that goes on listing the closed socket has it in front of the new one, and
  what the peer sends is lost.
\<close>

lemma takeover_gap:
  assumes ok: "room_ok (\<lambda>_. True) st" and seat: "room_view st r = Some (i, q)"
    and peer: "room_view st (other r) = Some (p, qp)" and new: "j \<notin> room_known st" and m: "m \<noteq> WsText PING"
  shows "room_receive (\<lambda>_. True) p m (room_join (\<lambda>_. True) now j r st) = room_join (\<lambda>_. True) now j r st"
proof -
  obtain a b where ab: "rm_sockets st = [a, b]"
    and roles: "so_role a = r \<and> so_role b = other r \<or> so_role a = other r \<and> so_role b = r"
    using room_two [OF ok seat peer] by blast
  have o: "so_closed a = None" "so_closed b = None" "so_id a \<noteq> so_id b"
    using ok ab by (auto simp: room_ok_def)
  have j: "so_id a \<noteq> j" "so_id b \<noteq> j" using new ab by (auto simp: room_known_def)
  note d = room_receive_def webSocketMessage_def room_join_def room_fetch_def getWebSockets_def peerOf_def
    socket_close_def socket_send_def on_socket_def Let_def
  show ?thesis using roles
  proof
    assume r: "so_role a = r \<and> so_role b = other r"
    then have "so_id a = i" "so_id b = p" using seat peer ab by (auto simp: room_view_def)
    then show ?thesis using r o j m by (simp add: d ab del: role_param.simps)
  next
    assume r: "so_role a = other r \<and> so_role b = r"
    then have "so_id b = i" "so_id a = p" using seat peer ab by (auto simp: room_view_def)
    then show ?thesis using r o j m by (simp add: d ab del: role_param.simps)
  qed
qed

text \<open>The client that finds its role taken in the in-process relay sees the busy marker.\<close>

lemma mock_busy:
  assumes "mock_ok nm st" and "mock_view nm st r \<noteq> None"
  shows "mock_connect i (''/v1/room/'' @ nm @ ''?role='' @ role_query r) st = (DialHttp 409, st)"
proof -
  have "mock_path (''/v1/room/'' @ nm @ ''?role='' @ role_query r) = Some (nm, role_query r)"
    using assms by (intro mock_path_dialed) (simp add: mock_ok_def)
  then show ?thesis using assms mock_view_None [OF assms(1), of r]
    by (auto simp: mock_connect_def mock_callback_def)
qed

text \<open>Writing a queued message to its socket changes nothing a peer can tell.\<close>

lemma mock_flush_view:
  assumes "mock_ok nm st"
  shows "mock_view nm (mock_flush i True st) = mock_view nm st" and "mock_ok nm (mock_flush i True st)"
proof -
  have "mock_view nm (mock_flush i True st) = mock_view nm st \<and> mock_ok nm (mock_flush i True st)"
  proof (cases "mk_conns st i")
    case None
    then show ?thesis using assms by (simp add: mock_flush_def)
  next
    case (Some c)
    note p = mock_ok_conn [OF assms Some]
    show ?thesis
    proof (cases "mc_queue c")
      case Nil
      then show ?thesis using Some p assms by (simp add: mock_flush_def)
    next
      case (Cons m q)
      let ?c = "c\<lparr>mc_queue := q, mc_written := mc_written c @ [m]\<rparr>"
      have f: "mock_flush i True st = st\<lparr>mk_conns := (mk_conns st)(i \<mapsto> ?c)\<rparr>"
        using Some Cons by (simp add: mock_flush_def)
      have "mock_view nm (mock_flush i True st) r = mock_view nm st r" for r
        using Some Cons by (auto simp: f mock_view_def split: option.split)
      moreover have "mock_ok nm (mock_flush i True st)"
        using assms Some mock_ok_peer [OF assms, of _ i] unfolding f mock_ok_def by auto
      ultimately show ?thesis by (simp add: fun_eq_iff)
    qed
  qed
  then show "mock_view nm (mock_flush i True st) = mock_view nm st" "mock_ok nm (mock_flush i True st)" by auto
qed

text \<open>A wrong token reaches no room, and each request touches at most the room it names.\<close>

lemma worker_fetch_other:
  "worker_fetch G tok now i req rooms = (code, rooms') \<Longrightarrow> rooms' nm \<noteq> rooms nm \<Longrightarrow>
   wq_pathname req = ''/v1/room/'' @ nm \<and> room_name_ok nm \<and>
   (\<forall>t. tok = Some t \<and> t \<noteq> [] \<longrightarrow> wq_authorization req = Some (''Bearer '' @ t))"
  by (auto simp: worker_fetch_def strip_pre_Some split: if_splits option.splits prod.splits)

end
