(* ===== verification/B2P_RelayNet.thy ===== *)
theory B2P_RelayNet
  imports B2P_Room
begin

text \<open>
  Two clients and the room between them: the I/O tasks of both peers (src/src/transport/relay.rs)
  with the relay of \<open>B2P_Room\<close>, over connections that do not fail. Each direction is a first-in
  first-out queue of frames, and a peer that is told its partner left has everything the partner
  queued before it closed. The room is a parameter: what it does with a message or a departure.
\<close>

record 's relay_system =
  sy_room :: 's
  sy_io :: "role \<Rightarrow> io_state"
  sy_end :: "role \<Rightarrow> string option"
    \<comment> \<open>the reason the I/O task ended with\<close>
  sy_up :: "role \<Rightarrow> ws_msg list"
    \<comment> \<open>written by the client, not yet read by the room\<close>
  sy_seen :: "role \<Rightarrow> nat"
    \<comment> \<open>how many of the messages sent to it the client has read\<close>
  sy_queued :: "role \<Rightarrow> bytes list"
  sy_delivered :: "role \<Rightarrow> bytes list"

fun app_frames :: "io_out list \<Rightarrow> bytes list" where
  "app_frames [] = []"
| "app_frames (ToApp f # os) = f # app_frames os"
| "app_frames (_ # os) = app_frames os"

fun ws_outs :: "io_out list \<Rightarrow> ws_msg list" where
  "ws_outs [] = []"
| "ws_outs (ToWs m # os) = m # ws_outs os"
| "ws_outs (_ # os) = ws_outs os"

definition inbox :: "seats \<Rightarrow> role \<Rightarrow> ws_msg list" where
  "inbox v r = (case v r of None \<Rightarrow> [] | Some (_, q) \<Rightarrow> q)"

text \<open>The I/O task is at its \<^verbatim>\<open>select!\<close>: nothing to flush, not closing.\<close>

definition selecting :: "io_state \<Rightarrow> bool" where
  "selecting io \<longleftrightarrow> io_pending io = [] \<and> \<not> io_closing io"

fun taken :: "out_msg option \<Rightarrow> out_msg list \<Rightarrow> bytes list" where
  "taken (Some (OutFrame f)) q = f # fst (take_queued q)"
| "taken _ q = []"

text \<open>What a turn of the task of role \<open>r\<close> leaves behind: its state or its end, and what it wrote.\<close>

definition turn :: "role \<Rightarrow> io_out list \<times> (string + io_state) \<Rightarrow> 's relay_system \<Rightarrow> 's relay_system" where
  "turn r res s =
     (let s = s\<lparr>sy_up := (sy_up s)(r := sy_up s r @ ws_outs (fst res)),
                sy_delivered := (sy_delivered s)(r := sy_delivered s r @ app_frames (fst res))\<rparr> in
      case snd res of
        Inr io \<Rightarrow> s\<lparr>sy_io := (sy_io s)(r := io)\<rparr>
      | Inl reason \<Rightarrow> s\<lparr>sy_end := (sy_end s)(r \<mapsto> reason)\<rparr>)"

inductive relay_step ::
  "json_parser \<Rightarrow> ('s \<Rightarrow> seats) \<Rightarrow> (role \<Rightarrow> ws_msg \<Rightarrow> 's \<Rightarrow> 's) \<Rightarrow> (role \<Rightarrow> 's \<Rightarrow> 's) \<Rightarrow>
   's relay_system \<Rightarrow> 's relay_system \<Rightarrow> bool" for P view fwd gone where
  app: "sy_end s r = None \<Longrightarrow> selecting (sy_io s r) \<Longrightarrow>
    list_all (\<lambda>f. length f \<le> MAX_LOGICAL_FRAME) (taken x q) \<Longrightarrow>
    relay_step P view fwd gone s
      (turn r (io_iter P (sy_io s r) (AppOut x q)) (s\<lparr>sy_queued := (sy_queued s)(r := sy_queued s r @ taken x q)\<rparr>))"
| tick: "sy_end s r = None \<Longrightarrow> ev = Flushed None \<or> ev = PingDue True \<Longrightarrow>
    relay_step P view fwd gone s (turn r (io_iter P (sy_io s r) ev) s)"
| read: "sy_end s r = None \<Longrightarrow> selecting (sy_io s r) \<Longrightarrow>
    sy_seen s r < length (inbox (view (sy_room s)) r) \<Longrightarrow> m = inbox (view (sy_room s)) r ! sy_seen s r \<Longrightarrow>
    relay_step P view fwd gone s
      (turn r (io_iter P (sy_io s r) (WsItem (Some (Inr m)) None True))
        (s\<lparr>sy_seen := (sy_seen s)(r := Suc (sy_seen s r))\<rparr>))"
| forward: "sy_up s r = m # ms \<Longrightarrow> is_data m \<Longrightarrow> view (sy_room s) r \<noteq> None \<Longrightarrow>
    relay_step P view fwd gone s (s\<lparr>sy_room := fwd r m (sy_room s), sy_up := (sy_up s)(r := ms)\<rparr>)"
| depart: "sy_up s r = WsClose # ms \<Longrightarrow> view (sy_room s) r \<noteq> None \<Longrightarrow>
    relay_step P view fwd gone s (s\<lparr>sy_room := gone r (sy_room s), sy_up := (sy_up s)(r := [])\<rparr>)"
| drop: "sy_end s r \<noteq> None \<Longrightarrow> sy_up s r = [] \<Longrightarrow> view (sy_room s) r \<noteq> None \<Longrightarrow>
    relay_step P view fwd gone s (s\<lparr>sy_room := gone r (sy_room s)\<rparr>)"

text \<open>Both peers have joined and read their \<^verbatim>\<open>peer-joined\<close>.\<close>

definition relay_begin :: "('s \<Rightarrow> seats) \<Rightarrow> 's \<Rightarrow> 's relay_system" where
  "relay_begin view rm =
     \<lparr>sy_room = rm, sy_io = (\<lambda>_. io_start), sy_end = (\<lambda>_. None), sy_up = (\<lambda>_. []),
      sy_seen = (\<lambda>r. length (inbox (view rm) r)), sy_queued = (\<lambda>_. []), sy_delivered = (\<lambda>_. [])\<rparr>"

text \<open>The parser reads the texts the relay and the clients send.\<close>

definition reads_controls :: "json_parser \<Rightarrow> bool" where
  "reads_controls P \<longleftrightarrow>
     P PONG = Some (JObj [(''t'', JStr ''pong'')]) \<and>
     P PEER_JOINED = Some (JObj [(''t'', JStr ''peer-joined'')]) \<and>
     P PEER_LEFT = Some (JObj [(''t'', JStr ''peer-left'')]) \<and>
     (\<forall>n. P (ack_text n) = Some (JObj [(''t'', JStr ''ack''), (''n'', JNum (Some n))]))"

lemma reads_controls_parse:
  assumes "reads_controls P"
  shows "parse_control P PONG = Some Pong" "parse_control P PEER_JOINED = Some PeerJoined"
    "parse_control P PEER_LEFT = Some PeerLeft" "parse_control P (ack_text n) = Some (Ack n)"
  using assms by (simp_all add: reads_controls_def parse_control_def json_defs)

section \<open>Turns of the I/O task\<close>

definition closed_text :: string where "closed_text = ''closed''"
definition left_text :: string where "left_text = ''the other side disconnected''"

lemma app_frames_simps [simp]:
  "app_frames (map ToApp fs) = fs" "app_frames (xs @ ys) = app_frames xs @ app_frames ys"
proof -
  show "app_frames (map ToApp fs) = fs" by (induction fs) auto
  show "app_frames (xs @ ys) = app_frames xs @ app_frames ys"
    by (induction xs rule: app_frames.induct) auto
qed

lemma ws_outs_simps [simp]:
  "ws_outs (map ToApp fs) = []" "ws_outs (xs @ ys) = ws_outs xs @ ws_outs ys"
proof -
  show "ws_outs (map ToApp fs) = []" by (induction fs) auto
  show "ws_outs (xs @ ys) = ws_outs xs @ ws_outs ys" by (induction xs rule: ws_outs.induct) auto
qed

lemma pack_frames_empty [simp]: "pack_frames [] = (None, [])"
  by (simp add: pack_frames_def)

lemma pack_frames_none: "pack_frames pend = (None, rest) \<Longrightarrow> pend = []"
  using pack_frames_None [of pend] by simp

lemma io_iter_app:
  assumes "selecting io"
  obtains io' where "io_iter P io (AppOut x q) = ([], Inr io')" "io_pending io' = io_pending io @ taken x q"
    "io_debatch io' = io_debatch io"
proof (cases x)
  case None
  then show ?thesis using assms that by (auto simp: io_iter_def selecting_def)
next
  case (Some m)
  then show ?thesis using assms that
    by (cases m; cases "take_queued q") (auto simp: io_iter_def selecting_def)
qed

lemma io_iter_tick:
  assumes "ev = Flushed None \<or> ev = PingDue True"
  obtains "io_iter P io ev = ([], Inr io)"
  | payload rest where "pack_frames (io_pending io) = (Some payload, rest)"
      "io_iter P io ev = ([ToWs (WsBinary payload)], Inr (io\<lparr>io_pending := rest\<rparr>))"
  | "io_iter P io ev = ([ToWs (WsText PING)], Inr io)"
  | "io_pending io = []" "io_iter P io ev = ([ToWs WsClose], Inl closed_text)"
proof (cases "pack_frames (io_pending io)")
  case (Pair p rest)
  then show thesis
    using that assms pack_frames_none
    by (cases p; cases "io_closing io") (auto simp: io_iter_def closed_text_def)
qed

lemma io_iter_binary:
  assumes "selecting io" and "debatch_push (io_debatch io) b = (Inr frames, d)"
  obtains outs io' where "io_iter P io (WsItem (Some (Inr (WsBinary b))) None True) = (outs, Inr io')"
    "app_frames outs = frames" "ws_outs outs = [] \<or> (\<exists>n. ws_outs outs = [WsText (ack_text n)])"
    "io_debatch io' = d" "io_pending io' = io_pending io"
proof -
  obtain c gone where h: "hand_over frames None (io_consumed io) = (frames, c, gone)"
    using hand_over_all [of frames "io_consumed io"] by (metis prod.exhaust fst_conv)
  have e: "io_iter P io (WsItem (Some (Inr (WsBinary b))) None True) = io_binary io b None True"
    using assms(1) by (simp add: io_iter_def selecting_def)
  show thesis
    using that e by (cases "ACK_EVERY \<le> c - io_acked_out io") (auto simp: io_binary_def assms(2) h Let_def)
qed

lemma io_iter_text:
  assumes "selecting io"
  shows "io_iter P io (WsItem (Some (Inr (WsText t))) None True) =
    (case parse_control P t of
       Some (Ack n) \<Rightarrow> ([SetAcked n], Inr io)
     | Some PeerLeft \<Rightarrow> ([], Inl left_text)
     | _ \<Rightarrow> ([], Inr io))"
  using assms by (auto simp: io_iter_def selecting_def left_text_def split: option.split control.split)

section \<open>The invariant\<close>

fun bins :: "ws_msg list \<Rightarrow> bytes list" where
  "bins [] = []"
| "bins (WsBinary b # ms) = b # bins ms"
| "bins (_ # ms) = bins ms"

lemma bins_append [simp]: "bins (xs @ ys) = bins xs @ bins ys"
  by (induction xs rule: bins.induct) auto

definition unread :: "seats relay_system \<Rightarrow> role \<Rightarrow> ws_msg list" where
  "unread s r = drop (sy_seen s r) (inbox (sy_room s) r)"

definition dir_link :: "seats relay_system \<Rightarrow> role \<Rightarrow> link" where
  "dir_link s r = \<lparr>lk_queued = sy_queued s r, lk_pending = io_pending (sy_io s r),
     lk_wire = bins (unread s (other r)) @ bins (sy_up s r),
     lk_debatch = io_debatch (sy_io s (other r)), lk_delivered = sy_delivered s (other r)\<rparr>"

definition client_msg :: "ws_msg \<Rightarrow> bool" where
  "client_msg m \<longleftrightarrow> (\<exists>b. m = WsBinary b) \<or> m = WsText PING \<or> (\<exists>n. m = WsText (ack_text n))"

definition room_msg :: "ws_msg \<Rightarrow> bool" where
  "room_msg m \<longleftrightarrow> (\<exists>b. m = WsBinary b) \<or> m = WsText PONG \<or> m = WsText PEER_JOINED \<or>
     m = WsText PEER_LEFT \<or> (\<exists>n. m = WsText (ack_text n))"

definition up_ok :: "ws_msg list \<Rightarrow> string option \<Rightarrow> bool" where
  "up_ok up ended \<longleftrightarrow> list_all client_msg up \<or>
     (\<exists>ds. up = ds @ [WsClose] \<and> list_all client_msg ds \<and> ended = Some closed_text)"

definition left_last :: "ws_msg list \<Rightarrow> bool \<Rightarrow> bool" where
  "left_last ms alone \<longleftrightarrow> (WsText PEER_LEFT \<in> set ms \<longrightarrow>
     alone \<and> bins (dropWhile (\<lambda>m. m \<noteq> WsText PEER_LEFT) ms) = [])"

text \<open>What holds of the side \<open>r\<close>: its writes, its reads, and the queue towards it.\<close>

definition side :: "seats relay_system \<Rightarrow> role \<Rightarrow> bool" where
  "side s r \<longleftrightarrow>
     up_ok (sy_up s r) (sy_end s r) \<and>
     (sy_room s r = None \<longrightarrow> sy_end s r \<noteq> None \<and> sy_up s r = []) \<and>
     (sy_end s r = Some closed_text \<longrightarrow> io_pending (sy_io s r) = []) \<and>
     (sy_end s r = None \<longrightarrow> sy_seen s r \<le> length (inbox (sy_room s) r) \<and> list_all room_msg (unread s r) \<and>
        left_last (unread s r) (sy_room s (other r) = None) \<and> link_inv (dir_link s (other r))) \<and>
     (sy_end s r \<noteq> None \<longrightarrow> (sy_end s r = Some closed_text \<or> sy_end s r = Some left_text) \<and>
        prefix (sy_delivered s r) (sy_queued s (other r))) \<and>
     (sy_end s r = Some left_text \<longrightarrow>
        sy_delivered s r = sy_queued s (other r) \<and> sy_end s (other r) = Some closed_text)"


lemma left_last_simps [simp]:
  "left_last [] alone"
  "left_last (WsText PEER_LEFT # ms) alone \<longleftrightarrow> alone \<and> bins ms = []"
  "m \<noteq> WsText PEER_LEFT \<Longrightarrow> left_last (m # ms) alone = left_last ms alone"
  by (auto simp: left_last_def)

lemma left_last_append:
  "left_last ms alone \<Longrightarrow> bins [m] = [] \<or> \<not> alone \<Longrightarrow> m \<noteq> WsText PEER_LEFT \<Longrightarrow> left_last (ms @ [m]) alone"
  by (auto simp: left_last_def dropWhile_append)

lemma left_last_left: "left_last ms alone \<Longrightarrow> left_last (ms @ [WsText PEER_LEFT]) True"
  by (auto simp: left_last_def dropWhile_append)

lemma tell_simps [simp]:
  "tell r m v x = None \<longleftrightarrow> v x = None"
  "inbox (tell r m v) x = inbox v x @ (if x = r \<and> v r \<noteq> None then [m] else [])"
  by (auto simp: tell_def inbox_def split: option.splits)

lemma seat_leave_none [simp]: "seat_leave r v x = None \<longleftrightarrow> x = r \<or> v x = None"
  by (auto simp: seat_leave_def)

lemma up_ok_write:
  "up_ok up None \<Longrightarrow> client_msg m \<Longrightarrow> up_ok (up @ [m]) e" "up_ok up None \<Longrightarrow> up_ok (up @ [WsClose]) (Some closed_text)"
  "up_ok up None \<Longrightarrow> up_ok up e"
  by (auto simp: up_ok_def)

lemma texts_differ [simp]:
  "PONG \<noteq> PEER_LEFT" "PEER_JOINED \<noteq> PEER_LEFT" "ack_text n \<noteq> PEER_LEFT" "PEER_LEFT \<noteq> ack_text n"
  "PING \<noteq> PEER_LEFT" "ack_text n \<noteq> PING"
  by (simp_all add: room_texts ack_text_def)

lemma closed_left [simp]: "closed_text \<noteq> left_text" "left_text \<noteq> closed_text"
  by (simp_all add: closed_text_def left_text_def)

lemma link_inv_steps: "link_step\<^sup>*\<^sup>* a b \<Longrightarrow> link_inv a \<Longrightarrow> link_inv b"
  by (induction rule: rtranclp_induct) (auto intro: link_inv_step)

text \<open>A step of the side \<open>r\<close> concerns that side and its partner.\<close>

lemma two_roles: "P r \<Longrightarrow> P (other r) \<Longrightarrow> P x"
  by (cases x; cases r) simp_all

lemma side_app:
  fixes s :: "seats relay_system"
  assumes inv: "\<And>r. side s r" and live: "sy_end s r = None" and sel: "selecting (sy_io s r)"
    and len: "list_all (\<lambda>f. length f \<le> MAX_LOGICAL_FRAME) (taken x q)"
  shows "side (turn r (io_iter P (sy_io s r) (AppOut x q))
    (s\<lparr>sy_queued := (sy_queued s)(r := sy_queued s r @ taken x q)\<rparr>)) y" (is "side ?t y")
proof -
  obtain io' where io: "io_iter P (sy_io s r) (AppOut x q) = ([], Inr io')"
    "io_pending io' = io_pending (sy_io s r) @ taken x q" "io_debatch io' = io_debatch (sy_io s r)"
    using io_iter_app [OF sel] .
  let ?u = "s\<lparr>sy_queued := (sy_queued s)(r := sy_queued s r @ taken x q), sy_io := (sy_io s)(r := io')\<rparr>"
  have t: "?t = ?u" by (simp add: turn_def io)
  have d1: "dir_link ?u (other r) = dir_link s (other r)"
    by (simp add: dir_link_def unread_def io)
  have "dir_link ?u r = (dir_link s r)\<lparr>lk_pending := lk_pending (dir_link s r) @ taken x q,
      lk_queued := lk_queued (dir_link s r) @ taken x q\<rparr>"
    by (simp add: dir_link_def unread_def io)
  then have d2: "link_inv (dir_link s r) \<Longrightarrow> link_inv (dir_link ?u r)"
    using link_inv_steps [OF queue_many [OF len]] by simp
  have u: "unread ?u = unread s" by (simp add: unread_def fun_eq_iff)
  show ?thesis unfolding t
  proof (rule two_roles [where r = r])
    show "side ?u r" using inv [of r] live d1 unfolding side_def u by simp
    show "side ?u (other r)" using inv [of "other r"] inv [of r] live d2 unfolding side_def u by auto
  qed
qed

lemma side_write_text:
  fixes s :: "seats relay_system"
  assumes inv: "\<And>r. side s r" and live: "sy_end s r = None" and m: "client_msg m" "bins [m] = []"
  shows "side (s\<lparr>sy_up := (sy_up s)(r := sy_up s r @ [m])\<rparr>) y" (is "side ?u y")
proof -
  have d: "dir_link ?u = dir_link s" using m(2) by (auto simp: dir_link_def unread_def fun_eq_iff)
  have u: "unread ?u = unread s" by (simp add: unread_def fun_eq_iff)
  have w: "up_ok (sy_up s r @ [m]) None" using inv [of r] live m(1) up_ok_write(1) unfolding side_def by metis
  show ?thesis
  proof (rule two_roles [where r = r])
    show "side ?u r" using inv [of r] live w unfolding side_def u d by auto
    show "side ?u (other r)" using inv [of "other r"] unfolding side_def u d by simp
  qed
qed

lemma side_tick:
  fixes s :: "seats relay_system"
  assumes inv: "\<And>r. side s r" and live: "sy_end s r = None" and ev: "ev = Flushed None \<or> ev = PingDue True"
  shows "side (turn r (io_iter P (sy_io s r) ev) s) y" (is "side ?t y")
proof (rule io_iter_tick [OF ev, of P "sy_io s r"])
  assume io: "io_iter P (sy_io s r) ev = ([], Inr (sy_io s r))"
  have "?t = s" by (simp add: turn_def io)
  then show ?thesis using inv by simp
next
  fix payload rest
  assume p: "pack_frames (io_pending (sy_io s r)) = (Some payload, rest)"
    and io: "io_iter P (sy_io s r) ev = ([ToWs (WsBinary payload)], Inr ((sy_io s r)\<lparr>io_pending := rest\<rparr>))"
  let ?u = "s\<lparr>sy_up := (sy_up s)(r := sy_up s r @ [WsBinary payload]),
      sy_io := (sy_io s)(r := (sy_io s r)\<lparr>io_pending := rest\<rparr>)\<rparr>"
  have t: "?t = ?u" by (simp add: turn_def io)
  have d1: "dir_link ?u (other r) = dir_link s (other r)" by (simp add: dir_link_def unread_def)
  have "dir_link ?u r = (dir_link s r)\<lparr>lk_pending := rest, lk_wire := lk_wire (dir_link s r) @ [payload]\<rparr>"
    by (simp add: dir_link_def unread_def)
  moreover have "link_step (dir_link s r) ((dir_link s r)\<lparr>lk_pending := rest, lk_wire := lk_wire (dir_link s r) @ [payload]\<rparr>)"
    by (rule link_step.flush) (simp add: dir_link_def p)
  ultimately have d2: "link_inv (dir_link s r) \<Longrightarrow> link_inv (dir_link ?u r)"
    using link_inv_step by metis
  have u: "unread ?u = unread s" by (simp add: unread_def fun_eq_iff)
  have w: "up_ok (sy_up s r @ [WsBinary payload]) None"
    using inv [of r] live up_ok_write(1) unfolding side_def by (metis client_msg_def)
  show ?thesis unfolding t
  proof (rule two_roles [where r = r])
    show "side ?u r" using inv [of r] live d1 w unfolding side_def u by auto
    show "side ?u (other r)" using inv [of "other r"] d2 unfolding side_def u by simp
  qed
next
  assume io: "io_iter P (sy_io s r) ev = ([ToWs (WsText PING)], Inr (sy_io s r))"
  have t: "?t = s\<lparr>sy_up := (sy_up s)(r := sy_up s r @ [WsText PING])\<rparr>" by (simp add: turn_def io)
  show ?thesis unfolding t using inv live by (intro side_write_text) (auto simp: client_msg_def)
next
  assume e: "io_pending (sy_io s r) = []" and io: "io_iter P (sy_io s r) ev = ([ToWs WsClose], Inl closed_text)"
  let ?u = "s\<lparr>sy_up := (sy_up s)(r := sy_up s r @ [WsClose]), sy_end := (sy_end s)(r \<mapsto> closed_text)\<rparr>"
  have t: "?t = ?u" by (simp add: turn_def io)
  have d: "dir_link ?u = dir_link s" by (auto simp: dir_link_def unread_def fun_eq_iff)
  have u: "unread ?u = unread s" by (simp add: unread_def fun_eq_iff)
  have w: "up_ok (sy_up s r @ [WsClose]) (Some closed_text)"
    using inv [of r] live up_ok_write(2) unfolding side_def by metis
  have "link_inv (dir_link s (other r))" using inv [of r] live by (simp add: side_def)
  from link_inv_fifo(1) [OF this] have f: "prefix (sy_delivered s r) (sy_queued s (other r))"
    by (simp add: dir_link_def)
  show ?thesis unfolding t
  proof (rule two_roles [where r = r])
    show "side ?u r" using inv [of r] live e w f unfolding side_def u d by auto
    show "side ?u (other r)" using inv [of "other r"] live unfolding side_def u d by auto
  qed
qed

lemma side_read:
  fixes s :: "seats relay_system"
  assumes inv: "\<And>r. side s r" and P: "reads_controls P" and live: "sy_end s r = None"
    and sel: "selecting (sy_io s r)" and lt: "sy_seen s r < length (inbox (sy_room s) r)"
    and m: "m = inbox (sy_room s) r ! sy_seen s r"
  shows "side (turn r (io_iter P (sy_io s r) (WsItem (Some (Inr m)) None True))
    (s\<lparr>sy_seen := (sy_seen s)(r := Suc (sy_seen s r))\<rparr>)) y" (is "side ?t y")
proof -
  let ?s1 = "s\<lparr>sy_seen := (sy_seen s)(r := Suc (sy_seen s r))\<rparr>"
  have ur: "unread s r = m # unread ?s1 r" by (simp add: unread_def m Cons_nth_drop_Suc [OF lt])
  have uo: "unread ?s1 (other r) = unread s (other r)" by (simp add: unread_def)
  have ms: "room_msg m" and all: "list_all room_msg (unread ?s1 r)"
    and link: "link_inv (dir_link s (other r))" and ll: "left_last (m # unread ?s1 r) (sy_room s (other r) = None)"
    using inv [of r] live unfolding side_def ur by auto
  have skip: "side ?s1 y" if "bins [m] = []" "m \<noteq> WsText PEER_LEFT" for y
  proof -
    have b: "bins (unread ?s1 r) = bins (unread s r)" using that(1) unfolding ur by (cases m) auto
    have d: "dir_link ?s1 (other r) = dir_link s (other r)" "dir_link ?s1 r = dir_link s r"
      by (simp_all add: dir_link_def uo b)
    have l: "left_last (unread ?s1 r) (sy_room s (other r) = None)" using ll that(2) by simp
    show ?thesis
    proof (rule two_roles [where r = r])
      show "side ?s1 r" using inv [of r] live lt all l link unfolding side_def d by simp
      show "side ?s1 (other r)" using inv [of "other r"] unfolding side_def other_neq d uo by simp
    qed
  qed
  show ?thesis
  proof (cases m)
    case (WsBinary b)
    have wire: "lk_wire (dir_link s (other r)) = b # bins (unread ?s1 r) @ bins (sy_up s (other r))"
      by (simp add: dir_link_def ur WsBinary)
    obtain frames d where push: "debatch_push (io_debatch (sy_io s r)) b = (Inr frames, d)"
      using link_arrive_ok [OF link wire] by (auto simp: dir_link_def)
    obtain outs io' where io: "io_iter P (sy_io s r) (WsItem (Some (Inr (WsBinary b))) None True) = (outs, Inr io')"
      "app_frames outs = frames" "ws_outs outs = [] \<or> (\<exists>n. ws_outs outs = [WsText (ack_text n)])"
      "io_debatch io' = d" "io_pending io' = io_pending (sy_io s r)"
      using io_iter_binary [OF sel push] .
    let ?u = "?s1\<lparr>sy_io := (sy_io s)(r := io'), sy_delivered := (sy_delivered s)(r := sy_delivered s r @ frames)\<rparr>"
    have t: "?t = ?u\<lparr>sy_up := (sy_up s)(r := sy_up s r @ ws_outs outs)\<rparr>"
      unfolding WsBinary turn_def io(1) by (simp add: io(2))
    have u: "unread ?u = unread ?s1" by (simp add: unread_def fun_eq_iff)
    have d1: "dir_link ?u r = dir_link s r" by (simp add: dir_link_def u uo io)
    have "dir_link ?u (other r) = (dir_link s (other r))\<lparr>lk_wire := bins (unread ?s1 r) @ bins (sy_up s (other r)),
        lk_debatch := d, lk_delivered := lk_delivered (dir_link s (other r)) @ frames\<rparr>"
      by (simp add: dir_link_def u io)
    moreover have "debatch_push (lk_debatch (dir_link s (other r))) b = (Inr frames, d)"
      using push by (simp add: dir_link_def)
    ultimately have d2: "link_inv (dir_link ?u (other r))"
      using link_inv_step [OF link_step.arrive [OF wire] link] by simp
    have l: "left_last (unread ?s1 r) (sy_room s (other r) = None)" using ll WsBinary by simp
    have su: "side ?u y" for y
    proof (rule two_roles [where r = r])
      show "side ?u r" using inv [of r] live lt all l d2 unfolding side_def u by simp
      show "side ?u (other r)" using inv [of "other r"] io(5) unfolding side_def u uo other_neq d1 by simp
    qed
    show ?thesis
    proof (cases "ws_outs outs = []")
      case True
      then show ?thesis using su unfolding t by simp
    next
      case False
      then obtain n where n: "ws_outs outs = [WsText (ack_text n)]" using io(3) by blast
      have "side (?u\<lparr>sy_up := (sy_up ?u)(r := sy_up ?u r @ [WsText (ack_text n)])\<rparr>) y"
        by (rule side_write_text [OF su]) (auto simp: live client_msg_def)
      then show ?thesis unfolding t n by simp
    qed
  next
    case (WsText x)
    show ?thesis
    proof (cases "x = PEER_LEFT")
      case True
      have gone: "sy_room s (other r) = None" and b: "bins (unread ?s1 r) = []" using ll WsText True by simp_all
      have up: "sy_up s (other r) = []" and ended: "sy_end s (other r) \<noteq> None"
        using inv [of "other r"] gone by (auto simp: side_def)
      have cl: "sy_end s (other r) = Some closed_text"
        using inv [of "other r"] ended live by (auto simp: side_def)
      have "io_pending (sy_io s (other r)) = []" using inv [of "other r"] cl by (simp add: side_def)
      then have del: "sy_delivered s r = sy_queued s (other r)"
        using link_inv_fifo(2) [OF link] b up by (simp add: dir_link_def ur WsText)
      let ?u = "?s1\<lparr>sy_end := (sy_end s)(r \<mapsto> left_text)\<rparr>"
      have t: "?t = ?u" unfolding WsText True turn_def io_iter_text [OF sel] reads_controls_parse(3) [OF P] by simp
      have u: "unread ?u = unread ?s1" by (simp add: unread_def fun_eq_iff)
      show ?thesis unfolding t
      proof (rule two_roles [where r = r])
        show "side ?u r" using inv [of r] live del cl gone unfolding side_def up_ok_def by auto
        show "side ?u (other r)" using inv [of "other r"] cl live unfolding side_def by auto
      qed
    next
      case False
      have "?t = ?s1"
        using ms False reads_controls_parse [OF P] unfolding WsText turn_def io_iter_text [OF sel]
        by (auto simp: room_msg_def)
      then show ?thesis using skip WsText False by simp
    qed
  qed (use ms in \<open>auto simp: room_msg_def\<close>)
qed

lemma up_ok_tail: "up_ok (m # ms) e \<Longrightarrow> is_data m \<Longrightarrow> client_msg m \<and> up_ok ms e"
  by (auto simp: up_ok_def Cons_eq_append_conv)

lemma drop_inbox_append: "n \<le> length q \<Longrightarrow> drop n (q @ ms) = drop n q @ ms"
  by simp

lemma side_forward:
  fixes s :: "seats relay_system"
  assumes inv: "\<And>r. side s r" and up: "sy_up s r = m # ms" and data: "is_data m" and seat: "sy_room s r \<noteq> None"
  shows "side (s\<lparr>sy_room := seat_message r m (sy_room s), sy_up := (sy_up s)(r := ms)\<rparr>) y" (is "side ?u y")
proof -
  have m: "client_msg m" and ms: "up_ok ms (sy_end s r)"
    using inv [of r] up_ok_tail [OF _ data] up unfolding side_def by metis+
  define to where "to = (if m = WsText PING then r else other r)"
  define x where "x = (if m = WsText PING then WsText PONG else m)"
  have room: "sy_room ?u = tell to x (sy_room s)" by (simp add: seat_message_def to_def x_def)
  have none: "sy_room ?u z = None \<longleftrightarrow> sy_room s z = None" for z unfolding room by simp
  have xm: "room_msg x" "x \<noteq> WsText PEER_LEFT" using m by (auto simp: x_def room_msg_def client_msg_def)
  have xb: "bins [x] = [] \<or> to = other r" by (simp add: x_def to_def)
  have in_to: "inbox (sy_room ?u) z = inbox (sy_room s) z @ (if z = to \<and> sy_room s to \<noteq> None then [x] else [])" for z
    unfolding room by simp
  have live_seat: "sy_end s z = None \<Longrightarrow> sy_room s z \<noteq> None" for z using inv [of z] by (auto simp: side_def)
  have un: "unread ?u z = unread s z @ (if z = to then [x] else [])" if "sy_end s z = None" for z
    using inv [of z] that live_seat [OF that] unfolding unread_def in_to by (auto simp: side_def)
  have link: "dir_link ?u (other z) = dir_link s (other z)" if "sy_end s z = None" for z
    using un [OF that] up bins_append [of "[m]" ms] by (auto simp: dir_link_def to_def x_def split: if_splits)
  have ll: "left_last (unread ?u z) (sy_room s (other z) = None)" if "sy_end s z = None" for z
  proof -
    have "left_last (unread s z) (sy_room s (other z) = None)" using inv [of z] that by (simp add: side_def)
    moreover have "bins [x] = [] \<or> sy_room s (other z) \<noteq> None" if "z = to" using xb seat that by auto
    ultimately show ?thesis using un [OF that] left_last_append xm(2) by auto
  qed
  have reads: "sy_seen ?u z \<le> length (inbox (sy_room ?u) z) \<and> list_all room_msg (unread ?u z) \<and>
      left_last (unread ?u z) (sy_room ?u (other z) = None) \<and> link_inv (dir_link ?u (other z))"
    if "sy_end s z = None" for z
    using inv [of z] that ll [OF that] xm(1) unfolding none link [OF that] un [OF that] in_to
    by (auto simp: side_def)
  have ups: "up_ok (sy_up ?u z) (sy_end s z)" "sy_room s z = None \<Longrightarrow> sy_up ?u z = []" for z
    using inv [of z] ms seat by (cases "z = r"; auto simp: side_def)+
  have "side ?u z" for z
    using inv [of z] reads [of z] ups [of z] unfolding side_def none
    by (cases "sy_end s z") (simp_all del: fun_upd_apply)
  then show ?thesis .
qed

lemma side_gone:
  fixes s :: "seats relay_system"
  assumes inv: "\<And>r. side s r" and ended: "sy_end s r \<noteq> None" and bins: "bins (sy_up s r) = []"
  shows "side (s\<lparr>sy_room := seat_leave r (sy_room s), sy_up := (sy_up s)(r := [])\<rparr>) y" (is "side ?u y")
proof -
  have room: "sy_room ?u = tell (other r) (WsText PEER_LEFT) ((sy_room s)(r := None))" by (simp add: seat_leave_def)
  show ?thesis
  proof (rule two_roles [where r = r])
    show "side ?u r" using inv [of r] ended by (auto simp: side_def up_ok_def)
    have ib: "inbox (sy_room ?u) (other r) = inbox (sy_room s) (other r) @
        (if sy_room s (other r) = None then [] else [WsText PEER_LEFT])"
      unfolding room by (auto simp: tell_def inbox_def split: option.split)
    have un: "unread ?u (other r) = unread s (other r) @ [WsText PEER_LEFT]" if "sy_end s (other r) = None"
      using inv [of "other r"] that unfolding unread_def ib by (auto simp: side_def)
    have link: "dir_link ?u r = dir_link s r" if "sy_end s (other r) = None"
      using un [OF that] bins by (simp add: dir_link_def)
    show "side ?u (other r)"
      using inv [of "other r"] un link left_last_left unfolding side_def ib
      by (auto simp: room_msg_def)
  qed
qed

lemma side_step:
  assumes P: "reads_controls P" and "relay_step P (\<lambda>v. v) seat_message seat_leave s t" and inv: "\<And>r. side s r"
  shows "side t y"
  using assms(2)
proof cases
  case (app r x q)
  show ?thesis unfolding app(1) by (rule side_app [OF inv app(2-4)])
next
  case (tick r ev)
  show ?thesis unfolding tick(1) by (rule side_tick [OF inv tick(2,3)])
next
  case (read r m)
  show ?thesis unfolding read(1) by (rule side_read [OF inv P read(2-5)])
next
  case (forward r m ms)
  show ?thesis unfolding forward(1) by (rule side_forward [OF inv forward(2-4)])
next
  case (depart r ms)
  have "up_ok (WsClose # ms) (sy_end s r)" using inv [of r] depart(2) by (simp add: side_def)
  then have "sy_end s r \<noteq> None" "ms = []"
    by (auto simp: up_ok_def client_msg_def Cons_eq_append_conv)
  then show ?thesis unfolding depart(1) using depart(2) by (intro side_gone [OF inv]) auto
next
  case (drop r)
  have "t = s\<lparr>sy_room := seat_leave r (sy_room s), sy_up := (sy_up s)(r := [])\<rparr>"
    using drop(1) fun_upd_triv [of "sy_up s" r] unfolding drop(3) by simp
  then show ?thesis using side_gone [OF inv drop(2)] drop(3) by simp
qed

lemma side_begin:
  assumes "\<And>r. v r \<noteq> None"
  shows "side (relay_begin (\<lambda>v. v) v) y"
proof -
  have "dir_link (relay_begin (\<lambda>v. v) v) r = link_start" for r
    by (simp add: dir_link_def relay_begin_def unread_def link_start_def io_start_def)
  then show ?thesis
    using assms link_inv_start
    by (simp add: side_def up_ok_def) (simp add: relay_begin_def unread_def left_last_def)
qed

section \<open>Every room that keeps the contract\<close>

definition seat_fwd :: "('s \<Rightarrow> seats) \<Rightarrow> (nat \<Rightarrow> ws_msg \<Rightarrow> 's \<Rightarrow> 's) \<Rightarrow> role \<Rightarrow> ws_msg \<Rightarrow> 's \<Rightarrow> 's" where
  "seat_fwd view message r m s = (case view s r of None \<Rightarrow> s | Some (i, _) \<Rightarrow> message i m s)"

definition seat_gone :: "('s \<Rightarrow> seats) \<Rightarrow> (nat \<Rightarrow> 's \<Rightarrow> 's) \<Rightarrow> role \<Rightarrow> 's \<Rightarrow> 's" where
  "seat_gone view leave r s = (case view s r of None \<Rightarrow> s | Some (i, _) \<Rightarrow> leave i s)"

definition on_seats :: "('s \<Rightarrow> seats) \<Rightarrow> 's relay_system \<Rightarrow> seats relay_system" where
  "on_seats view s = \<lparr>sy_room = view (sy_room s), sy_io = sy_io s, sy_end = sy_end s, sy_up = sy_up s,
     sy_seen = sy_seen s, sy_queued = sy_queued s, sy_delivered = sy_delivered s\<rparr>"

lemma on_seats_sel [simp]:
  "sy_room (on_seats view s) = view (sy_room s)" "sy_io (on_seats view s) = sy_io s"
  "sy_end (on_seats view s) = sy_end s" "sy_up (on_seats view s) = sy_up s" "sy_seen (on_seats view s) = sy_seen s"
  "sy_queued (on_seats view s) = sy_queued s" "sy_delivered (on_seats view s) = sy_delivered s"
  by (simp_all add: on_seats_def)

lemma on_seats_turn: "on_seats view (turn r res s) = turn r res (on_seats view s)"
  by (cases "snd res") (simp_all add: turn_def on_seats_def Let_def)

lemma turn_room [simp]: "sy_room (turn r res s) = sy_room s"
  by (cases "snd res") (simp_all add: turn_def Let_def)

lemma on_seats_begin: "on_seats view (relay_begin view rm) = relay_begin (\<lambda>v. v) (view rm)"
  by (simp add: on_seats_def relay_begin_def)

context relay_room
begin

lemma step_refines:
  assumes ok: "ok (sy_room s)" and "relay_step P view (seat_fwd view message) (seat_gone view leave) s t"
  shows "ok (sy_room t) \<and> relay_step P (\<lambda>v. v) seat_message seat_leave (on_seats view s) (on_seats view t)"
  using assms(2)
proof cases
  case (app r x q)
  let ?u = "(on_seats view s)\<lparr>sy_queued := (sy_queued s)(r := sy_queued s r @ taken x q)\<rparr>"
  have "relay_step P (\<lambda>v. v) seat_message seat_leave (on_seats view s)
      (turn r (io_iter P (sy_io s r) (AppOut x q)) ?u)"
    using relay_step.app [of "on_seats view s" r x q P "\<lambda>v. v" seat_message seat_leave] app(2-4) by simp
  then show ?thesis using ok unfolding app(1) on_seats_turn by (simp add: on_seats_def)
next
  case (tick r ev)
  then show ?thesis
    using ok relay_step.tick [of "on_seats view s" r ev P "\<lambda>v. v" seat_message seat_leave]
    by (simp add: on_seats_turn)
next
  case (read r m)
  let ?u = "(on_seats view s)\<lparr>sy_seen := (sy_seen s)(r := Suc (sy_seen s r))\<rparr>"
  have "relay_step P (\<lambda>v. v) seat_message seat_leave (on_seats view s)
      (turn r (io_iter P (sy_io s r) (WsItem (Some (Inr m)) None True)) ?u)"
    using relay_step.read [of "on_seats view s" r "\<lambda>v. v" m P seat_message seat_leave] read(2-5) by simp
  then show ?thesis using ok unfolding read(1) on_seats_turn by (simp add: on_seats_def)
next
  case (forward r m ms)
  obtain i q where i: "view (sy_room s) r = Some (i, q)" using forward(4) by auto
  show ?thesis
    using forwards [OF ok i forward(3)]
      relay_step.forward [of "on_seats view s" r m ms "\<lambda>v. v" P seat_message seat_leave] forward
    by (simp add: seat_fwd_def i on_seats_def)
next
  case (depart r ms)
  obtain i q where i: "view (sy_room s) r = Some (i, q)" using depart(3) by auto
  show ?thesis
    using leaves [OF ok i]
      relay_step.depart [of "on_seats view s" r ms "\<lambda>v. v" P seat_message seat_leave] depart
    by (simp add: seat_gone_def i on_seats_def)
next
  case (drop r)
  obtain i q where i: "view (sy_room s) r = Some (i, q)" using drop(4) by auto
  show ?thesis
    using leaves [OF ok i]
      relay_step.drop [of "on_seats view s" r "\<lambda>v. v" P seat_message seat_leave] drop
    by (simp add: seat_gone_def i on_seats_def)
qed

lemma reach_side:
  assumes P: "reads_controls P" and rm: "ok rm" "\<And>r. view rm r \<noteq> None"
    and "(relay_step P view (seat_fwd view message) (seat_gone view leave))\<^sup>*\<^sup>* (relay_begin view rm) s"
  shows "side (on_seats view s) r"
proof -
  from assms(4) have "ok (sy_room s) \<and> (\<forall>r. side (on_seats view s) r)"
  proof (induction rule: rtranclp_induct)
    case base
    then show ?case using rm(1) side_begin [of "view rm"] rm(2) by (simp add: on_seats_begin) (simp add: relay_begin_def)
  next
    case (step s t)
    then show ?case using step_refines [OF _ step(2)] side_step [OF P] by blast
  qed
  then show ?thesis by simp
qed

lemma relay_fifo:
  assumes "reads_controls P" and "ok rm" and "\<And>r. view rm r \<noteq> None"
    and "(relay_step P view (seat_fwd view message) (seat_gone view leave))\<^sup>*\<^sup>* (relay_begin view rm) s"
  shows "prefix (sy_delivered s r) (sy_queued s (other r))"
    and "sy_end s r = None \<Longrightarrow> io_pending (sy_io s (other r)) = [] \<Longrightarrow> bins (sy_up s (other r)) = [] \<Longrightarrow>
      bins (drop (sy_seen s r) (inbox (view (sy_room s)) r)) = [] \<Longrightarrow> sy_delivered s r = sy_queued s (other r)"
    and "sy_end s r \<in> {None, Some closed_text, Some left_text}"
proof -
  note side = reach_side [OF assms, of r]
  have link: "sy_end s r = None \<Longrightarrow> link_inv (dir_link (on_seats view s) (other r))"
    using side by (simp add: side_def)
  show "prefix (sy_delivered s r) (sy_queued s (other r))"
    using side link_inv_fifo(1) [OF link]
    by (cases "sy_end s r = None") (simp_all add: side_def dir_link_def)
  show "sy_delivered s r = sy_queued s (other r)"
    if "sy_end s r = None" "io_pending (sy_io s (other r)) = []" "bins (sy_up s (other r)) = []"
      "bins (drop (sy_seen s r) (inbox (view (sy_room s)) r)) = []"
    using link_inv_fifo(2) [OF link [OF that(1)]] that by (simp add: dir_link_def unread_def)
  show "sy_end s r \<in> {None, Some closed_text, Some left_text}"
    using side by (auto simp: side_def)
qed

lemma relay_goodbye:
  assumes "reads_controls P" and "ok rm" and "\<And>r. view rm r \<noteq> None"
    and "(relay_step P view (seat_fwd view message) (seat_gone view leave))\<^sup>*\<^sup>* (relay_begin view rm) s"
    and "sy_end s r = Some left_text"
  shows "sy_delivered s r = sy_queued s (other r) \<and> sy_end s (other r) = Some closed_text"
  using reach_side [OF assms(1-4), of r] assms(5) by (simp add: side_def)

end

section \<open>Running a schedule\<close>

datatype action =
    DoApp role "out_msg option" "out_msg list"
  | DoTick role io_event
  | DoRead role
  | DoForward role

fun relay_act ::
  "json_parser \<Rightarrow> ('s \<Rightarrow> seats) \<Rightarrow> (role \<Rightarrow> ws_msg \<Rightarrow> 's \<Rightarrow> 's) \<Rightarrow> (role \<Rightarrow> 's \<Rightarrow> 's) \<Rightarrow>
   action \<Rightarrow> 's relay_system \<Rightarrow> 's relay_system option" where
  "relay_act P view fwd gone (DoApp r x q) s =
     (if sy_end s r = None \<and> selecting (sy_io s r) \<and> list_all (\<lambda>f. length f \<le> MAX_LOGICAL_FRAME) (taken x q)
      then Some (turn r (io_iter P (sy_io s r) (AppOut x q))
             (s\<lparr>sy_queued := (sy_queued s)(r := sy_queued s r @ taken x q)\<rparr>))
      else None)"
| "relay_act P view fwd gone (DoTick r ev) s =
     (if sy_end s r = None \<and> (ev = Flushed None \<or> ev = PingDue True)
      then Some (turn r (io_iter P (sy_io s r) ev) s) else None)"
| "relay_act P view fwd gone (DoRead r) s =
     (if sy_end s r = None \<and> selecting (sy_io s r) \<and> sy_seen s r < length (inbox (view (sy_room s)) r)
      then Some (turn r (io_iter P (sy_io s r)
               (WsItem (Some (Inr (inbox (view (sy_room s)) r ! sy_seen s r))) None True))
             (s\<lparr>sy_seen := (sy_seen s)(r := Suc (sy_seen s r))\<rparr>))
      else None)"
| "relay_act P view fwd gone (DoForward r) s =
     (if view (sy_room s) r = None then None
      else
        (case sy_up s r of
           [] \<Rightarrow> if sy_end s r \<noteq> None then Some (s\<lparr>sy_room := gone r (sy_room s)\<rparr>) else None
         | m # ms \<Rightarrow>
             if is_data m then Some (s\<lparr>sy_room := fwd r m (sy_room s), sy_up := (sy_up s)(r := ms)\<rparr>)
             else if m = WsClose then Some (s\<lparr>sy_room := gone r (sy_room s), sy_up := (sy_up s)(r := [])\<rparr>)
             else None))"

fun relay_run ::
  "json_parser \<Rightarrow> ('s \<Rightarrow> seats) \<Rightarrow> (role \<Rightarrow> ws_msg \<Rightarrow> 's \<Rightarrow> 's) \<Rightarrow> (role \<Rightarrow> 's \<Rightarrow> 's) \<Rightarrow>
   action list \<Rightarrow> 's relay_system \<Rightarrow> 's relay_system option" where
  "relay_run P view fwd gone [] s = Some s"
| "relay_run P view fwd gone (a # as) s =
     Option.bind (relay_act P view fwd gone a s) (relay_run P view fwd gone as)"

lemma relay_act_step: "relay_act P view fwd gone a s = Some t \<Longrightarrow> relay_step P view fwd gone s t"
proof (cases a)
  case (DoApp r x q)
  then show "relay_act P view fwd gone a s = Some t \<Longrightarrow> ?thesis"
    using relay_step.app [of s r x q P view fwd gone] by (auto split: if_splits)
next
  case (DoTick r ev)
  then show "relay_act P view fwd gone a s = Some t \<Longrightarrow> ?thesis"
    using relay_step.tick [of s r ev P view fwd gone] by (auto split: if_splits)
next
  case (DoRead r)
  then show "relay_act P view fwd gone a s = Some t \<Longrightarrow> ?thesis"
    using relay_step.read [of s r view _ P fwd gone, OF _ _ _ refl] by (auto split: if_splits)
next
  case (DoForward r)
  then show "relay_act P view fwd gone a s = Some t \<Longrightarrow> ?thesis"
    by (auto split: if_splits list.splits intro: relay_step.intros)
qed

lemma relay_run_reach:
  "relay_run P view fwd gone as s = Some t \<Longrightarrow> (relay_step P view fwd gone)\<^sup>*\<^sup>* s t"
  by (induction as arbitrary: s)
    (auto simp: bind_eq_Some_conv intro: converse_rtranclp_into_rtranclp dest: relay_act_step)

abbreviation worker_step ::
  "json_parser \<Rightarrow> (socket \<Rightarrow> bool) \<Rightarrow> nat \<Rightarrow> room relay_system \<Rightarrow> room relay_system \<Rightarrow> bool" where
  "worker_step P G now \<equiv>
     relay_step P room_view (seat_fwd room_view (room_receive G)) (seat_gone room_view (webSocketClose G now))"

abbreviation worker_run ::
  "json_parser \<Rightarrow> (socket \<Rightarrow> bool) \<Rightarrow> nat \<Rightarrow> action list \<Rightarrow> room relay_system \<Rightarrow> room relay_system option" where
  "worker_run P G now \<equiv>
     relay_run P room_view (seat_fwd room_view (room_receive G)) (seat_gone room_view (webSocketClose G now))"

end
