(* ===== verification/B2P_RelayDemo.thy ===== *)
theory B2P_RelayDemo
  imports B2P_RelayNet
begin

text \<open>
  A concrete run of two clients in a room of the Worker, with a parser of the control texts: one
  frame is sent, the sender closes, and the receiver gets the frame and then the farewell. The
  hypotheses of the theorems about the relay are met by it.
\<close>

definition demo_controls :: json_parser where
  "demo_controls t =
     (if t = PONG then Some (JObj [(''t'', JStr ''pong'')])
      else if t = PEER_JOINED then Some (JObj [(''t'', JStr ''peer-joined'')])
      else if t = PEER_LEFT then Some (JObj [(''t'', JStr ''peer-left'')])
      else map_option (\<lambda>n. JObj [(''t'', JStr ''ack''), (''n'', JNum (Some (of_nat (digits_val 0 (butlast n)))))])
             (strip_pre ''{\"t\":\"ack\",\"n\":'' t))"

lemma demo_controls_ok: "reads_controls demo_controls"
proof -
  have "ack_text n \<noteq> PONG \<and> ack_text n \<noteq> PEER_JOINED" for n by (simp add: ack_text_def room_texts)
  moreover have "strip_pre ''{\"t\":\"ack\",\"n\":'' (ack_text n) = Some (show_u64 n @ ''}'')" for n
    unfolding ack_text_def by (rule strip_pre_append)
  moreover have "of_nat (digits_val 0 (show_u64 n)) = n" for n using show_nat_digits [of "unat n"] by simp
  ultimately have "demo_controls (ack_text n) = Some (JObj [(''t'', JStr ''ack''), (''n'', JNum (Some n))])" for n
    by (simp add: demo_controls_def)
  moreover have "PEER_JOINED \<noteq> PONG" "PEER_LEFT \<noteq> PONG" "PEER_LEFT \<noteq> PEER_JOINED" by (simp_all add: room_texts)
  ultimately show ?thesis by (simp add: reads_controls_def demo_controls_def)
qed


definition demo_room :: room where
  "demo_room = room_join (\<lambda>_. True) 0 1 Sender (room_join (\<lambda>_. True) 0 0 Receiver room_new)"

lemma demo_room_eq:
  "demo_room = \<lparr>rm_sockets =
     [\<lparr>so_id = 0, so_role = Receiver, so_closed = None, so_sent = [WsText PEER_JOINED]\<rparr>,
      \<lparr>so_id = 1, so_role = Sender, so_closed = None, so_sent = [WsText PEER_JOINED]\<rparr>], rm_alarm = None\<rparr>"
  by (simp add: demo_room_def room_join_def room_fetch_def room_new_def getWebSockets_def peerOf_def
      socket_send_def on_socket_def Let_def del: role_param.simps)

lemma demo_room_view:
  "room_view demo_room = (\<lambda>r. Some (case r of Receiver \<Rightarrow> 0 | Sender \<Rightarrow> 1, [WsText PEER_JOINED]))"
proof
  fix r
  show "room_view demo_room r = Some (case r of Receiver \<Rightarrow> 0 | Sender \<Rightarrow> 1, [WsText PEER_JOINED])"
    by (cases r) (simp_all add: demo_room_eq room_view_def)
qed

lemma demo_room_ok: "room_ok (\<lambda>_. True) demo_room" "room_view demo_room r \<noteq> None"
  by (simp_all add: demo_room_view) (simp add: demo_room_eq room_ok_def lists_open_def)

definition demo_schedule :: "action list" where
  "demo_schedule =
     [DoApp Sender (Some (OutFrame [1, 2])) [OutClose], DoTick Sender (Flushed None), DoForward Sender,
      DoTick Sender (PingDue True), DoForward Sender, DoRead Receiver, DoRead Receiver]"

definition demo_payload :: bytes where
  "demo_payload = [2, 0, 0, 0, 1, 2]"

lemma u32_le_2: "u32_le_bytes 2 = [2, 0, 0, 0]"
proof -
  have four: "(4 :: nat) = Suc (Suc (Suc (Suc 0)))" by simp
  show ?thesis unfolding u32_le_bytes_def four by simp
qed

lemma demo_pack: "pack_frames [[1, 2]] = (Some demo_payload, [])"
  by (simp add: pack_frames_def Let_def MAX_WS_PAYLOAD_def demo_payload_def u32_le_2)

lemma demo_push: "debatch_push \<lparr>db_partial = []\<rparr> demo_payload = (Inr [[1, 2]], \<lparr>db_partial = []\<rparr>)"
proof -
  have "list_all (\<lambda>f. length f \<le> MAX_LOGICAL_FRAME) (logical (db_partial \<lparr>db_partial = []\<rparr>) [[1, 2 :: u8]])"
    by (simp add: MAX_LOGICAL_FRAME_def)
  from push_pack_frames [OF demo_pack this] show ?thesis by auto
qed

definition demo_room1 :: room where
  "demo_room1 = \<lparr>rm_sockets =
     [\<lparr>so_id = 0, so_role = Receiver, so_closed = None, so_sent = [WsText PEER_JOINED, WsBinary demo_payload]\<rparr>,
      \<lparr>so_id = 1, so_role = Sender, so_closed = None, so_sent = [WsText PEER_JOINED]\<rparr>], rm_alarm = None\<rparr>"

definition demo_room2 :: room where
  "demo_room2 = \<lparr>rm_sockets =
     [\<lparr>so_id = 0, so_role = Receiver, so_closed = None,
       so_sent = [WsText PEER_JOINED, WsBinary demo_payload, WsText PEER_LEFT]\<rparr>],
     rm_alarm = Some EXPIRE_UNPAIRED_MS\<rparr>"

lemma demo_rooms:
  "seat_fwd room_view (room_receive (\<lambda>_. True)) Sender (WsBinary demo_payload) demo_room = demo_room1"
  "seat_gone room_view (webSocketClose (\<lambda>_. True) 0) Sender demo_room1 = demo_room2"
  "room_view demo_room Sender \<noteq> None" "room_view demo_room1 Sender \<noteq> None"
  "inbox (room_view demo_room) r = [WsText PEER_JOINED]"
  "inbox (room_view demo_room2) Receiver = [WsText PEER_JOINED, WsBinary demo_payload, WsText PEER_LEFT]"
proof -
  note defs = seat_fwd_def seat_gone_def room_receive_def webSocketMessage_def webSocketClose_def departed_def
    getWebSockets_def peerOf_def socket_send_def on_socket_def room_view_def inbox_def Let_def
    demo_room_eq demo_room1_def demo_room2_def
  show "seat_fwd room_view (room_receive (\<lambda>_. True)) Sender (WsBinary demo_payload) demo_room = demo_room1"
    "seat_gone room_view (webSocketClose (\<lambda>_. True) 0) Sender demo_room1 = demo_room2"
    "room_view demo_room Sender \<noteq> None" "room_view demo_room1 Sender \<noteq> None"
    "inbox (room_view demo_room2) Receiver = [WsText PEER_JOINED, WsBinary demo_payload, WsText PEER_LEFT]"
    by (simp_all add: defs)
  show "inbox (room_view demo_room) r = [WsText PEER_JOINED]" by (simp add: demo_room_view inbox_def)
qed

definition demo_io :: "nat \<Rightarrow> io_state" where
  "demo_io n =
     (if n = 2 then io_start\<lparr>io_pending := [[1, 2]], io_closing := True\<rparr>
      else if n = 3 then io_start\<lparr>io_closing := True\<rparr>
      else io_start\<lparr>io_consumed := 2\<rparr>)"

lemma demo_turns:
  assumes "reads_controls P"
  shows "selecting io_start" "selecting (demo_io 4)"
    "io_iter P io_start (AppOut (Some (OutFrame [1, 2])) [OutClose]) = ([], Inr (demo_io 2))"
    "io_iter P (demo_io 2) (Flushed None) = ([ToWs (WsBinary demo_payload)], Inr (demo_io 3))"
    "io_iter P (demo_io 3) (PingDue True) = ([ToWs WsClose], Inl closed_text)"
    "io_iter P io_start (WsItem (Some (Inr (WsBinary demo_payload))) None True) = ([ToApp [1, 2]], Inr (demo_io 4))"
    "io_iter P (demo_io 4) (WsItem (Some (Inr (WsText PEER_LEFT))) None True) = ([], Inl left_text)"
proof -
  show s: "selecting io_start" "selecting (demo_io 4)" by (simp_all add: selecting_def demo_io_def io_start_def)
  show "io_iter P io_start (AppOut (Some (OutFrame [1, 2])) [OutClose]) = ([], Inr (demo_io 2))"
    "io_iter P (demo_io 2) (Flushed None) = ([ToWs (WsBinary demo_payload)], Inr (demo_io 3))"
    "io_iter P (demo_io 3) (PingDue True) = ([ToWs WsClose], Inl closed_text)"
    by (simp_all add: io_iter_def demo_io_def io_start_def demo_pack closed_text_def)
  show "io_iter P io_start (WsItem (Some (Inr (WsBinary demo_payload))) None True) = ([ToApp [1, 2]], Inr (demo_io 4))"
    by (simp add: io_iter_def io_start_def io_binary_def demo_push Let_def ACK_EVERY_def demo_io_def)
  show "io_iter P (demo_io 4) (WsItem (Some (Inr (WsText PEER_LEFT))) None True) = ([], Inl left_text)"
    using s reads_controls_parse(3) [OF assms] by (simp add: io_iter_text)
qed

lemma turn_simps:
  "turn r (outs, Inr io) s = s\<lparr>sy_up := (sy_up s)(r := sy_up s r @ ws_outs outs),
     sy_delivered := (sy_delivered s)(r := sy_delivered s r @ app_frames outs), sy_io := (sy_io s)(r := io)\<rparr>"
  "turn r (outs, Inl reason) s = s\<lparr>sy_up := (sy_up s)(r := sy_up s r @ ws_outs outs),
     sy_delivered := (sy_delivered s)(r := sy_delivered s r @ app_frames outs), sy_end := (sy_end s)(r \<mapsto> reason)\<rparr>"
  by (simp_all add: turn_def)

lemma demo_run:
  assumes P: "reads_controls P"
  obtains s where "worker_run P (\<lambda>_. True) 0 demo_schedule (relay_begin room_view demo_room) = Some s"
   "sy_delivered s Receiver = [[1, 2]]" "sy_queued s Sender = [[1, 2]]" "sy_end s Receiver = Some left_text"
proof -
  have "\<exists>s. worker_run P (\<lambda>_. True) 0 demo_schedule (relay_begin room_view demo_room) = Some s \<and>
   sy_delivered s Receiver = [[1, 2]] \<and> sy_queued s Sender = [[1, 2]] \<and> sy_end s Receiver = Some left_text"
    by (simp add: demo_schedule_def relay_begin_def demo_turns [OF P] turn_simps demo_rooms MAX_LOGICAL_FRAME_def)
  then show thesis using that by blast
qed
end
