(* ===== verification/B2P_Pubsub.thy ===== *)
theory B2P_Pubsub
  imports B2P_Handshake
begin

text \<open>
  The handshake of the direct path between two peers on one rendezvous topic: both publish to and
  read from a log that everybody on the topic shares. The rendezvous is the in-memory one of
  src/src/handshake.rs (\<^verbatim>\<open>MemRendezvous\<close>), which stands for ntfy with \<^verbatim>\<open>since\<close>: a subscriber gets the
  history first and then what is published, possibly twice. Under every schedule, with other
  traffic on the service, both peers of one code end with the same key.
\<close>

section \<open>The rendezvous\<close>

text \<open>
  \<open>mr_live r\<close>: the queue of the broadcast receiver of the peer in role \<open>r\<close>, once it has one. A full
  queue loses its oldest entries.
\<close>

record mem_rv =
  mr_log :: "(string \<times> bytes) list"
  mr_live :: "role \<Rightarrow> (string \<times> bytes) list option"

definition MEM_CAPACITY :: nat where
  "MEM_CAPACITY = 256"

definition mem_new :: mem_rv where
  "mem_new = \<lparr>mr_log = [], mr_live = (\<lambda>_. None)\<rparr>"

definition mem_push :: "(string \<times> bytes) list \<Rightarrow> string \<times> bytes \<Rightarrow> (string \<times> bytes) list" where
  "mem_push q e = drop (Suc (length q) - MEM_CAPACITY) (q @ [e])"

text \<open>Publishing: first the log, then the broadcast.\<close>

definition mem_record :: "string \<times> bytes \<Rightarrow> mem_rv \<Rightarrow> mem_rv" where
  "mem_record e m = m\<lparr>mr_log := mr_log m @ [e]\<rparr>"

definition mem_broadcast :: "string \<times> bytes \<Rightarrow> mem_rv \<Rightarrow> mem_rv" where
  "mem_broadcast e m = m\<lparr>mr_live := (\<lambda>r. map_option (\<lambda>q. mem_push q e) (mr_live m r))\<rparr>"

definition mem_publish :: "string \<Rightarrow> bytes \<Rightarrow> mem_rv \<Rightarrow> mem_rv" where
  "mem_publish topic frame m = mem_broadcast (topic, frame) (mem_record (topic, frame) m)"

text \<open>Subscribing: first a receiver, then the history.\<close>

definition mem_attach :: "role \<Rightarrow> mem_rv \<Rightarrow> mem_rv" where
  "mem_attach r m = m\<lparr>mr_live := (mr_live m)(r \<mapsto> [])\<rparr>"

definition mem_history :: "string \<Rightarrow> mem_rv \<Rightarrow> bytes list" where
  "mem_history topic m = map snd (filter (\<lambda>(t, _). t = topic) (mr_log m))"

text \<open>The live part of the stream: the next frame of the topic, and what is left of the queue.\<close>

fun live_next :: "string \<Rightarrow> (string \<times> bytes) list \<Rightarrow> (bytes \<times> (string \<times> bytes) list) option" where
  "live_next topic [] = None"
| "live_next topic ((t, f) # q) = (if t = topic then Some (f, q) else live_next topic q)"

section \<open>Two peers on a topic\<close>

text \<open>
  \<open>bs_hist r\<close>: the unread history, \<open>None\<close> before the peer has it. \<open>bs_out r\<close>: the frame the peer is
  publishing is in the log but not broadcast yet. \<open>bs_noise\<close>: how many frames others still publish.
\<close>

record 'a bus =
  bs_mem :: mem_rv
  bs_proc :: "role \<Rightarrow> 'a proc"
  bs_hist :: "role \<Rightarrow> bytes list option"
  bs_out :: "role \<Rightarrow> bool"
  bs_noise :: nat

definition foreign :: "bytes \<Rightarrow> bool" where
  "foreign f \<longleftrightarrow> (\<forall>r. \<not> tagged KIND_PAKE (role_byte r) f \<and> \<not> tagged KIND_CONFIRM (role_byte r) f)"

inductive bus_step :: "string \<Rightarrow> 'a bus \<Rightarrow> 'a bus \<Rightarrow> bool" for topic where
  attach: "mr_live (bs_mem s) r = None \<Longrightarrow>
    bus_step topic s (s\<lparr>bs_mem := mem_attach r (bs_mem s)\<rparr>)"
| snapshot: "mr_live (bs_mem s) r \<noteq> None \<Longrightarrow> bs_hist s r = None \<Longrightarrow>
    bus_step topic s (s\<lparr>bs_hist := (bs_hist s)(r \<mapsto> mem_history topic (bs_mem s))\<rparr>)"
| record_frame: "bs_hist s r \<noteq> None \<Longrightarrow> bs_proc s r = Send f k \<Longrightarrow> \<not> bs_out s r \<Longrightarrow>
    bus_step topic s (s\<lparr>bs_mem := mem_record (topic, f) (bs_mem s), bs_out := (bs_out s)(r := True)\<rparr>)"
| broadcast: "bs_proc s r = Send f k \<Longrightarrow> bs_out s r \<Longrightarrow>
    bus_step topic s (s\<lparr>bs_mem := mem_broadcast (topic, f) (bs_mem s), bs_out := (bs_out s)(r := False),
      bs_proc := (bs_proc s)(r := k None)\<rparr>)"
| read_history: "bs_hist s r = Some (f # fs) \<Longrightarrow> bs_proc s r = Recv k \<Longrightarrow>
    bus_step topic s (s\<lparr>bs_hist := (bs_hist s)(r \<mapsto> fs), bs_proc := (bs_proc s)(r := k (Inr f))\<rparr>)"
| read_live: "bs_hist s r = Some [] \<Longrightarrow> bs_proc s r = Recv k \<Longrightarrow> mr_live (bs_mem s) r = Some q \<Longrightarrow>
    live_next topic q = Some (f, q') \<Longrightarrow>
    bus_step topic s (s\<lparr>bs_mem := (bs_mem s)\<lparr>mr_live := (mr_live (bs_mem s))(r \<mapsto> q')\<rparr>,
      bs_proc := (bs_proc s)(r := k (Inr f))\<rparr>)"
| skip_live: "bs_hist s r = Some [] \<Longrightarrow> bs_proc s r = Recv k \<Longrightarrow> mr_live (bs_mem s) r = Some (e # q) \<Longrightarrow>
    live_next topic (e # q) = None \<Longrightarrow>
    bus_step topic s (s\<lparr>bs_mem := (bs_mem s)\<lparr>mr_live := (mr_live (bs_mem s))(r \<mapsto> [])\<rparr>\<rparr>)"
| others: "bs_noise s = Suc n \<Longrightarrow> t \<noteq> topic \<or> foreign f \<Longrightarrow>
    bus_step topic s (s\<lparr>bs_mem := mem_publish t f (bs_mem s), bs_noise := n\<rparr>)"

section \<open>A conversation of two frames each\<close>

text \<open>
  \<open>talk\<close>: the process of role \<open>r\<close> at stage \<open>n\<close> with budget \<open>b\<close>, when it reads only frames of the
  conversation or foreign ones: say the first frame, wait for the other's first, say the second,
  wait for the other's second, return.
\<close>

definition heard :: "(role \<Rightarrow> bytes) \<Rightarrow> (role \<Rightarrow> bytes) \<Rightarrow> bytes \<Rightarrow> bool" where
  "heard M1 M2 f \<longleftrightarrow> (\<exists>r. f = M1 r \<or> f = M2 r) \<or> foreign f"

definition talk :: "(role \<Rightarrow> nat \<Rightarrow> nat \<Rightarrow> 'a proc) \<Rightarrow> (role \<Rightarrow> bytes) \<Rightarrow> (role \<Rightarrow> bytes) \<Rightarrow> 'a \<Rightarrow> bool" where
  "talk P M1 M2 v \<longleftrightarrow>
     (\<forall>r b. \<exists>k. P r 0 b = Send (M1 r) k \<and> k None = P r 1 b) \<and>
     (\<forall>r b. \<exists>k. P r 1 (Suc b) = Recv k \<and>
        (\<forall>f. heard M1 M2 f \<longrightarrow> k (Inr f) = (if f = M1 (other r) then P r 2 b else P r 1 b))) \<and>
     (\<forall>r b. \<exists>k. P r 2 b = Send (M2 r) k \<and> k None = P r 3 b) \<and>
     (\<forall>r b. \<exists>k. P r 3 (Suc b) = Recv k \<and>
        (\<forall>f. heard M1 M2 f \<longrightarrow> k (Inr f) = (if f = M2 (other r) then P r 4 b else P r 3 b))) \<and>
     (\<forall>r b. P r 4 b = Ret v) \<and>
     (\<forall>r r'. M1 r \<noteq> M2 r') \<and> inj M1 \<and> inj M2 \<and> (\<forall>r. \<not> foreign (M1 r) \<and> \<not> foreign (M2 r))"

text \<open>\<open>ahead a b xs\<close>: wherever \<open>b\<close> is in \<open>xs\<close>, \<open>a\<close> is before it.\<close>

fun ahead :: "'a \<Rightarrow> 'a \<Rightarrow> 'a list \<Rightarrow> bool" where
  "ahead a b [] = True"
| "ahead a b (x # xs) \<longleftrightarrow> x = a \<or> (x \<noteq> b \<and> ahead a b xs)"

lemma ahead_in: "a \<noteq> b \<Longrightarrow> ahead a b xs \<Longrightarrow> b \<in> set xs \<Longrightarrow> a \<in> set xs"
  by (induction xs) auto

lemma ahead_append:
  "ahead a b xs \<Longrightarrow> a \<in> set xs \<or> ahead a b ys \<Longrightarrow> ahead a b (xs @ ys)"
  by (induction xs) auto

lemma ahead_notin: "b \<notin> set xs \<Longrightarrow> ahead a b xs"
  by (induction xs) auto

definition live_frames :: "string \<Rightarrow> (string \<times> bytes) list \<Rightarrow> bytes list" where
  "live_frames topic q = map snd (filter (\<lambda>(t, _). t = topic) q)"

lemma live_next_frames:
  "live_next topic q = Some (f, q') \<Longrightarrow> live_frames topic q = f # live_frames topic q' \<and> length q' < length q"
  by (induction topic q rule: live_next.induct) (auto simp: live_frames_def split: if_splits)

lemma live_next_None: "live_next topic q = None \<longleftrightarrow> live_frames topic q = []"
  by (induction topic q rule: live_next.induct) (auto simp: live_frames_def)

section \<open>The invariant\<close>

fun frames_left :: "nat \<Rightarrow> nat" where
  "frames_left n = (if n = 0 then 2 else if n \<le> 2 then 1 else 0)"

definition live_of :: "'a bus \<Rightarrow> role \<Rightarrow> (string \<times> bytes) list" where
  "live_of s r = (case mr_live (bs_mem s) r of None \<Rightarrow> [] | Some q \<Rightarrow> q)"

definition bus_unread :: "string \<Rightarrow> 'a bus \<Rightarrow> role \<Rightarrow> bytes list" where
  "bus_unread topic s r = (case bs_hist s r of None \<Rightarrow> [] | Some h \<Rightarrow> h) @ live_frames topic (live_of s r)"

definition coming :: "(role \<Rightarrow> nat) \<Rightarrow> 'a bus \<Rightarrow> nat" where
  "coming ph s = frames_left (ph Sender) + frames_left (ph Receiver) + bs_noise s"

definition shape ::
  "(role \<Rightarrow> nat \<Rightarrow> nat \<Rightarrow> 'a proc) \<Rightarrow> (role \<Rightarrow> nat) \<Rightarrow> (role \<Rightarrow> nat) \<Rightarrow> 'a bus \<Rightarrow> bool" where
  "shape P ph bud s \<longleftrightarrow> (\<forall>r. bs_proc s r = P r (ph r) (bud r) \<and> ph r \<le> 4 \<and>
     (bs_hist s r = None \<longrightarrow> ph r = 0 \<and> \<not> bs_out s r) \<and> (bs_out s r \<longrightarrow> ph r = 0 \<or> ph r = 2) \<and>
     (bs_hist s r \<noteq> None \<longrightarrow> mr_live (bs_mem s) r \<noteq> None))"

definition logged ::
  "string \<Rightarrow> (role \<Rightarrow> bytes) \<Rightarrow> (role \<Rightarrow> bytes) \<Rightarrow> (role \<Rightarrow> nat) \<Rightarrow> 'a bus \<Rightarrow> bool" where
  "logged topic M1 M2 ph s \<longleftrightarrow>
     (\<forall>f \<in> set (mem_history topic (bs_mem s)). heard M1 M2 f) \<and>
     (\<forall>r. (1 \<le> ph r \<or> bs_out s r \<longrightarrow> M1 r \<in> set (mem_history topic (bs_mem s))) \<and>
        (3 \<le> ph r \<or> ph r = 2 \<and> bs_out s r \<longrightarrow> M2 r \<in> set (mem_history topic (bs_mem s))) \<and>
        (M2 r \<in> set (mem_history topic (bs_mem s)) \<longrightarrow> 2 \<le> ph r) \<and>
        ahead (M1 r) (M2 r) (mem_history topic (bs_mem s)) \<and>
        set (bus_unread topic s r) \<subseteq> set (mem_history topic (bs_mem s)))"

definition hears ::
  "string \<Rightarrow> (role \<Rightarrow> bytes) \<Rightarrow> (role \<Rightarrow> bytes) \<Rightarrow> (role \<Rightarrow> nat) \<Rightarrow> 'a bus \<Rightarrow> bool" where
  "hears topic M1 M2 ph s \<longleftrightarrow> (\<forall>r. bs_hist s r \<noteq> None \<longrightarrow>
     (ph r \<le> 1 \<longrightarrow> ahead (M1 (other r)) (M2 (other r)) (bus_unread topic s r) \<and>
        (1 \<le> ph (other r) \<longrightarrow> M1 (other r) \<in> set (bus_unread topic s r))) \<and>
     (ph r \<le> 3 \<and> 3 \<le> ph (other r) \<longrightarrow> M2 (other r) \<in> set (bus_unread topic s r)))"

definition counts :: "nat \<Rightarrow> nat \<Rightarrow> (role \<Rightarrow> nat) \<Rightarrow> (role \<Rightarrow> nat) \<Rightarrow> 'a bus \<Rightarrow> bool" where
  "counts T D ph bud s \<longleftrightarrow>
     length (mr_log (bs_mem s)) + coming ph s \<le> T + of_bool (bs_out s Sender) + of_bool (bs_out s Receiver) \<and>
     coming ph s \<le> D \<and>
     (\<forall>r. length (live_of s r) + coming ph s \<le> D \<and>
        (case bs_hist s r of
           None \<Rightarrow> T + D + 2 \<le> bud r
         | Some h \<Rightarrow> length h + length (live_of s r) + coming ph s \<le> bud r))"

definition bus_inv ::
  "(role \<Rightarrow> nat \<Rightarrow> nat \<Rightarrow> 'a proc) \<Rightarrow> (role \<Rightarrow> bytes) \<Rightarrow> (role \<Rightarrow> bytes) \<Rightarrow> string \<Rightarrow> nat \<Rightarrow> nat \<Rightarrow>
   (role \<Rightarrow> nat) \<Rightarrow> (role \<Rightarrow> nat) \<Rightarrow> 'a bus \<Rightarrow> bool" where
  "bus_inv P M1 M2 topic T D ph bud s \<longleftrightarrow>
     shape P ph bud s \<and> logged topic M1 M2 ph s \<and> hears topic M1 M2 ph s \<and> counts T D ph bud s"

text \<open>The work that is left.\<close>

definition role_work :: "nat \<Rightarrow> (role \<Rightarrow> nat) \<Rightarrow> 'a bus \<Rightarrow> role \<Rightarrow> nat" where
  "role_work T ph s r =
     of_bool (mr_live (bs_mem s) r = None) +
     (case bs_hist s r of None \<Rightarrow> T + 3 | Some h \<Rightarrow> length h) + length (live_of s r) +
     4 * frames_left (ph r) + of_bool (\<not> bs_out s r)"

definition work :: "nat \<Rightarrow> (role \<Rightarrow> nat) \<Rightarrow> 'a bus \<Rightarrow> nat" where
  "work T ph s = role_work T ph s Sender + role_work T ph s Receiver + 3 * bs_noise s"

lemmas bus_defs = shape_def logged_def hears_def counts_def

lemma stages: "(n :: nat) \<le> 4 \<Longrightarrow> n = 0 \<or> n = 1 \<or> n = 2 \<or> n = 3 \<or> n = 4"
  by auto

lemma inv_attach:
  assumes inv: "bus_inv P M1 M2 topic T D ph bud s" and new: "mr_live (bs_mem s) r = None"
  shows "bus_inv P M1 M2 topic T D ph bud (s\<lparr>bs_mem := mem_attach r (bs_mem s)\<rparr>)" (is "bus_inv _ _ _ _ _ _ _ _ ?t")
    and "work T ph (s\<lparr>bs_mem := mem_attach r (bs_mem s)\<rparr>) < work T ph s"
proof -
  have l: "live_of ?t = live_of s" using new by (auto simp: live_of_def mem_attach_def fun_eq_iff)
  have u: "bus_unread topic ?t = bus_unread topic s" by (simp add: bus_unread_def l fun_eq_iff)
  have h: "mem_history topic (bs_mem ?t) = mem_history topic (bs_mem s)" by (simp add: mem_history_def mem_attach_def)
  have c: "coming ph ?t = coming ph s" by (simp add: coming_def)
  show "bus_inv P M1 M2 topic T D ph bud ?t"
    using inv unfolding bus_inv_def bus_defs l u h c by (auto simp: mem_attach_def)
  show "work T ph ?t < work T ph s"
    using new unfolding work_def role_work_def l by (cases r) (simp_all add: mem_attach_def)
qed

lemma inv_snapshot:
  assumes inv: "bus_inv P M1 M2 topic T D ph bud s" and live: "mr_live (bs_mem s) r \<noteq> None"
    and new: "bs_hist s r = None"
  shows "bus_inv P M1 M2 topic T D ph bud (s\<lparr>bs_hist := (bs_hist s)(r \<mapsto> mem_history topic (bs_mem s))\<rparr>)"
      (is "bus_inv _ _ _ _ _ _ _ _ ?t")
    and "work T ph (s\<lparr>bs_hist := (bs_hist s)(r \<mapsto> mem_history topic (bs_mem s))\<rparr>) < work T ph s"
proof -
  let ?h = "mem_history topic (bs_mem s)"
  have l: "live_of ?t = live_of s" by (simp add: live_of_def fun_eq_iff)
  have c: "coming ph ?t = coming ph s" by (simp add: coming_def)
  have len: "length ?h \<le> length (mr_log (bs_mem s))" by (simp add: mem_history_def)
  have logT: "length (mr_log (bs_mem s)) + coming ph s \<le> T + 2"
    using inv by (auto simp: bus_inv_def counts_def of_bool_def split: if_splits)
  have ph0: "ph r = 0" using inv new by (simp add: bus_inv_def shape_def)
  have sub: "set (live_frames topic (live_of s r)) \<subseteq> set ?h"
    using inv new by (auto simp: bus_inv_def logged_def bus_unread_def)
  have u: "bus_unread topic ?t x = (if x = r then ?h @ live_frames topic (live_of s r) else bus_unread topic s x)" for x
    by (simp add: bus_unread_def l)
  have shape: "shape P ph bud ?t" using inv live by (auto simp: bus_inv_def shape_def)
  have logged: "logged topic M1 M2 ph ?t"
    using inv sub unfolding bus_inv_def logged_def u by auto
  have hears: "hears topic M1 M2 ph ?t"
  proof -
    have "ahead (M1 (other r)) (M2 (other r)) (?h @ live_frames topic (live_of s r))"
    proof (rule ahead_append)
      show "ahead (M1 (other r)) (M2 (other r)) ?h" using inv by (auto simp: bus_inv_def logged_def)
      show "M1 (other r) \<in> set ?h \<or> ahead (M1 (other r)) (M2 (other r)) (live_frames topic (live_of s r))"
        using inv sub by (auto simp: bus_inv_def logged_def intro!: ahead_notin)
    qed
    then show ?thesis using inv unfolding bus_inv_def hears_def logged_def u by auto
  qed
  have "length (live_of s r) + coming ph s \<le> D" "T + D + 2 \<le> bud r"
    using inv new unfolding bus_inv_def counts_def by (metis option.case(1))+
  then have "length ?h + length (live_of s r) + coming ph s \<le> bud r" using len logT by linarith
  then have counts: "counts T D ph bud ?t"
    using inv unfolding bus_inv_def counts_def l c by simp
  show "bus_inv P M1 M2 topic T D ph bud ?t"
    using shape logged hears counts by (simp add: bus_inv_def)
  show "work T ph ?t < work T ph s"
    using new len logT unfolding work_def role_work_def l by (cases r) simp_all
qed

text \<open>Where a process that sends or receives can be, and that its budget is not used up.\<close>

lemma talk_facts:
  assumes "talk P M1 M2 v"
  shows "\<exists>k. P r 0 b = Send (M1 r) k \<and> k None = P r 1 b"
    and "\<exists>k. P r 1 (Suc b) = Recv k \<and>
      (\<forall>f. heard M1 M2 f \<longrightarrow> k (Inr f) = (if f = M1 (other r) then P r 2 b else P r 1 b))"
    and "\<exists>k. P r 2 b = Send (M2 r) k \<and> k None = P r 3 b"
    and "\<exists>k. P r 3 (Suc b) = Recv k \<and>
      (\<forall>f. heard M1 M2 f \<longrightarrow> k (Inr f) = (if f = M2 (other r) then P r 4 b else P r 3 b))"
    and "P r 4 b = Ret v"
    and "M1 r \<noteq> M2 r'" "inj M1" "inj M2" "\<not> foreign (M1 r)" "\<not> foreign (M2 r)"
proof -
  note t = assms [unfolded talk_def]
  show "\<exists>k. P r 0 b = Send (M1 r) k \<and> k None = P r 1 b" using t by blast
  show "\<exists>k. P r 1 (Suc b) = Recv k \<and>
      (\<forall>f. heard M1 M2 f \<longrightarrow> k (Inr f) = (if f = M1 (other r) then P r 2 b else P r 1 b))" using t by blast
  show "\<exists>k. P r 2 b = Send (M2 r) k \<and> k None = P r 3 b" using t by blast
  show "\<exists>k. P r 3 (Suc b) = Recv k \<and>
      (\<forall>f. heard M1 M2 f \<longrightarrow> k (Inr f) = (if f = M2 (other r) then P r 4 b else P r 3 b))" using t by blast
qed (use assms in \<open>simp_all add: talk_def\<close>)

lemma unread_length: "length (bus_unread topic s r) \<le> (case bs_hist s r of None \<Rightarrow> 0 | Some h \<Rightarrow> length h) + length (live_of s r)"
  by (simp add: bus_unread_def live_frames_def split: option.split)

lemma waiting_budget:
  assumes inv: "bus_inv P M1 M2 topic T D ph bud s" and ph: "ph r = 1 \<or> ph r = 3"
  obtains b where "bud r = Suc b"
proof -
  have hist: "bs_hist s r \<noteq> None" using inv ph by (auto simp: bus_inv_def shape_def)
  then obtain h where h: "bs_hist s r = Some h" by auto
  have le: "length h + length (live_of s r) + coming ph s \<le> bud r"
    using inv h unfolding bus_inv_def counts_def by (metis option.case(2))
  have "bud r \<noteq> 0"
  proof
    assume "bud r = 0"
    with le have z: "coming ph s = 0" and e: "bus_unread topic s r = []"
      using unread_length [of topic s r] h by auto
    have "ph x \<ge> 3" for x
      using z by (cases x) (auto simp: coming_def split: if_splits)
    then have "3 \<le> ph r" "3 \<le> ph (other r)" by simp_all
    then have "ph r = 3" "3 \<le> ph (other r)" using ph by auto
    then have "M2 (other r) \<in> set (bus_unread topic s r)" using inv hist by (auto simp: bus_inv_def hears_def)
    then show False using e by simp
  qed
  then show thesis using that by (cases "bud r") auto
qed

lemma sending_at:
  assumes inv: "bus_inv P M1 M2 topic T D ph bud s" and talk: "talk P M1 M2 v" and p: "bs_proc s r = Send f k"
  obtains "ph r = 0" "f = M1 r" "k None = P r 1 (bud r)" | "ph r = 2" "f = M2 r" "k None = P r 3 (bud r)"
proof -
  have at: "P r (ph r) (bud r) = Send f k" and le: "ph r \<le> 4" using inv p by (auto simp: bus_inv_def shape_def)
  from stages [OF le] consider "ph r = 0" | "ph r = 1 \<or> ph r = 3" | "ph r = 2" | "ph r = 4" by metis
  then show thesis
  proof cases
    case 1
    obtain k' where "P r 0 (bud r) = Send (M1 r) k'" "k' None = P r 1 (bud r)"
      using talk_facts(1) [OF talk] by blast
    then show ?thesis using at 1 that(1) by simp
  next
    case 2
    then obtain b where "bud r = Suc b" using waiting_budget [OF inv] by blast
    moreover obtain k1 k2 where "P r 1 (Suc b) = Recv k1" "P r 3 (Suc b) = Recv k2"
      using talk_facts(2,4) [OF talk] by metis
    ultimately show ?thesis using 2 at by auto
  next
    case 3
    obtain k' where "P r 2 (bud r) = Send (M2 r) k'" "k' None = P r 3 (bud r)"
      using talk_facts(3) [OF talk] by blast
    then show ?thesis using at 3 that(2) by simp
  next
    case 4
    then show ?thesis using at talk_facts(5) [OF talk, of r "bud r"] by simp
  qed
qed

lemma reading_at:
  assumes inv: "bus_inv P M1 M2 topic T D ph bud s" and talk: "talk P M1 M2 v" and p: "bs_proc s r = Recv k"
    and f: "heard M1 M2 f"
  obtains b where "bud r = Suc b" "ph r = 1" "k (Inr f) = (if f = M1 (other r) then P r 2 b else P r 1 b)"
  | b where "bud r = Suc b" "ph r = 3" "k (Inr f) = (if f = M2 (other r) then P r 4 b else P r 3 b)"
proof -
  have at: "P r (ph r) (bud r) = Recv k" and le: "ph r \<le> 4" using inv p by (auto simp: bus_inv_def shape_def)
  from stages [OF le] consider "ph r = 0" | "ph r = 1 \<or> ph r = 3" | "ph r = 2" | "ph r = 4" by metis
  then show thesis
  proof cases
    case 1
    obtain k' where "P r 0 (bud r) = Send (M1 r) k'" using talk_facts(1) [OF talk] by blast
    then show ?thesis using at 1 by simp
  next
    case 2
    then obtain b where b: "bud r = Suc b" using waiting_budget [OF inv] by blast
    from 2 show ?thesis
    proof
      assume "ph r = 1"
      moreover obtain k' where "P r 1 (Suc b) = Recv k'" "k' (Inr f) = (if f = M1 (other r) then P r 2 b else P r 1 b)"
        using talk_facts(2) [OF talk] f by blast
      ultimately show ?thesis using at b that(1) by simp
    next
      assume "ph r = 3"
      moreover obtain k' where "P r 3 (Suc b) = Recv k'" "k' (Inr f) = (if f = M2 (other r) then P r 4 b else P r 3 b)"
        using talk_facts(4) [OF talk] f by blast
      ultimately show ?thesis using at b that(2) by simp
    qed
  next
    case 3
    obtain k' where "P r 2 (bud r) = Send (M2 r) k'" using talk_facts(3) [OF talk] by blast
    then show ?thesis using at 3 by simp
  next
    case 4
    then show ?thesis using at talk_facts(5) [OF talk, of r "bud r"] by simp
  qed
qed

lemma inv_record:
  assumes inv: "bus_inv P M1 M2 topic T D ph bud s" and talk: "talk P M1 M2 v"
    and hist: "bs_hist s r \<noteq> None" and send: "bs_proc s r = Send f k" and out: "\<not> bs_out s r"
  shows "bus_inv P M1 M2 topic T D ph bud
      (s\<lparr>bs_mem := mem_record (topic, f) (bs_mem s), bs_out := (bs_out s)(r := True)\<rparr>)"
      (is "bus_inv _ _ _ _ _ _ _ _ ?t")
    and "work T ph (s\<lparr>bs_mem := mem_record (topic, f) (bs_mem s), bs_out := (bs_out s)(r := True)\<rparr>) < work T ph s"
proof -
  let ?h = "mem_history topic (bs_mem s)"
  have l: "live_of ?t = live_of s" by (simp add: live_of_def mem_record_def fun_eq_iff)
  have u: "bus_unread topic ?t = bus_unread topic s" by (simp add: bus_unread_def l fun_eq_iff)
  have c: "coming ph ?t = coming ph s" by (simp add: coming_def)
  have h: "mem_history topic (bs_mem ?t) = ?h @ [f]" by (simp add: mem_history_def mem_record_def)
  have at: "ph r = 0 \<and> f = M1 r \<or> ph r = 2 \<and> f = M2 r" using sending_at [OF inv talk send] by metis
  have ne: "M1 x \<noteq> M2 y" "M2 x \<noteq> M1 y" "M1 x = M1 y \<longleftrightarrow> x = y" "M2 x = M2 y \<longleftrightarrow> x = y" for x y
    using talk_facts(6-8) [OF talk] by (auto simp: inj_eq) (metis talk_facts(6) [OF talk])
  have shape: "shape P ph bud ?t"
    using inv hist at unfolding bus_inv_def shape_def by (auto simp: mem_record_def)
  have m1: "1 \<le> ph x \<or> bs_out s x \<Longrightarrow> M1 x \<in> set ?h" and m2: "3 \<le> ph x \<or> ph x = 2 \<and> bs_out s x \<Longrightarrow> M2 x \<in> set ?h"
    and m3: "M2 x \<in> set ?h \<Longrightarrow> 2 \<le> ph x" and ah: "ahead (M1 x) (M2 x) ?h"
    and sub: "set (bus_unread topic s x) \<subseteq> set ?h" for x
    using inv by (auto simp: bus_inv_def logged_def)
  have "ahead (M1 x) (M2 x) (?h @ [f])" for x
  proof (rule ahead_append [OF ah])
    show "M1 x \<in> set ?h \<or> ahead (M1 x) (M2 x) [f]" using at ne m1 [of r] by auto
  qed
  moreover have "heard M1 M2 f" using at by (auto simp: heard_def)
  ultimately have logged: "logged topic M1 M2 ph ?t"
    using inv at ne m1 m2 m3 subsetD [OF sub] unfolding bus_inv_def logged_def u h by auto
  have hears: "hears topic M1 M2 ph ?t" using inv unfolding bus_inv_def hears_def u by auto
  have counts: "counts T D ph bud ?t"
    using inv out unfolding bus_inv_def counts_def l c by (cases r) (auto simp: mem_record_def)
  show "bus_inv P M1 M2 topic T D ph bud ?t" using shape logged hears counts by (simp add: bus_inv_def)
  show "work T ph ?t < work T ph s"
    using out unfolding work_def role_work_def l by (cases r) (simp_all add: mem_record_def)
qed

lemma counts_less:
  assumes "counts T D ph bud s" and "bs_hist t = bs_hist s" and "coming ph' t \<le> coming ph s"
    and live: "\<And>x. length (live_of t x) + coming ph' t \<le> length (live_of s x) + coming ph s"
    and log: "length (mr_log (bs_mem t)) + coming ph' t + of_bool (bs_out s Sender) + of_bool (bs_out s Receiver) \<le>
        length (mr_log (bs_mem s)) + coming ph s + of_bool (bs_out t Sender) + of_bool (bs_out t Receiver)"
  shows "counts T D ph' bud t"
proof -
  have "length (live_of t x) + coming ph' t \<le> D \<and> (case bs_hist t x of None \<Rightarrow> T + D + 2 \<le> bud x
      | Some h \<Rightarrow> length h + length (live_of t x) + coming ph' t \<le> bud x)" for x
  proof -
    have "length (live_of s x) + coming ph s \<le> D \<and> (case bs_hist s x of None \<Rightarrow> T + D + 2 \<le> bud x
      | Some h \<Rightarrow> length h + length (live_of s x) + coming ph s \<le> bud x)" using assms(1) by (simp add: counts_def)
    then show ?thesis using live [of x] by (cases "bs_hist s x") (simp_all add: assms(2))
  qed
  moreover have "length (mr_log (bs_mem s)) + coming ph s \<le> T + of_bool (bs_out s Sender) + of_bool (bs_out s Receiver)"
    "coming ph s \<le> D" using assms(1) by (simp_all add: counts_def)
  ultimately show ?thesis using log assms(3) unfolding counts_def by auto
qed

lemma push_room:
  assumes "length q < MEM_CAPACITY"
  shows "mem_push q e = q @ [e]"
  using assms by (simp add: mem_push_def)

lemma live_broadcast:
  assumes "\<And>x. length (live_of s x) < MEM_CAPACITY" and "mr_live (bs_mem t) = mr_live (mem_broadcast e (bs_mem s))"
  shows "live_of t x = live_of s x @ (if mr_live (bs_mem s) x = None then [] else [e])"
  using assms(1) [of x] push_room
  by (auto simp: live_of_def assms(2) mem_broadcast_def split: option.splits)

lemma inv_broadcast:
  assumes inv: "bus_inv P M1 M2 topic T D ph bud s" and talk: "talk P M1 M2 v" and D: "D \<le> MEM_CAPACITY"
    and send: "bs_proc s r = Send f k" and out: "bs_out s r"
  defines "t \<equiv> s\<lparr>bs_mem := mem_broadcast (topic, f) (bs_mem s), bs_out := (bs_out s)(r := False),
      bs_proc := (bs_proc s)(r := k None)\<rparr>"
  shows "bus_inv P M1 M2 topic T D (ph(r := Suc (ph r))) bud t" and "work T (ph(r := Suc (ph r))) t < work T ph s"
proof -
  let ?ph = "ph(r := Suc (ph r))"
  let ?h = "mem_history topic (bs_mem s)"
  have at: "ph r = 0 \<and> f = M1 r \<and> k None = P r 1 (bud r) \<or> ph r = 2 \<and> f = M2 r \<and> k None = P r 3 (bud r)"
    using sending_at [OF inv talk send] by metis
  have ne: "M1 x \<noteq> M2 y" "M2 x \<noteq> M1 y" "M1 x = M1 y \<longleftrightarrow> x = y" "M2 x = M2 y \<longleftrightarrow> x = y" for x y
    using talk_facts(6-8) [OF talk] by (auto simp: inj_eq) (metis talk_facts(6) [OF talk])
  have c: "coming ph s = Suc (coming ?ph t)"
    using at by (cases r) (auto simp: coming_def t_def)
  have lD: "length (live_of s x) + coming ph s \<le> D" for x using inv by (simp add: bus_inv_def counts_def)
  have l: "live_of t x = live_of s x @ (if mr_live (bs_mem s) x = None then [] else [(topic, f)])" for x
  proof (rule live_broadcast)
    show "length (live_of s y) < MEM_CAPACITY" for y using lD [of y] c D by linarith
  qed (simp add: t_def)
  have live: "bs_hist s x \<noteq> None \<Longrightarrow> mr_live (bs_mem s) x \<noteq> None" for x using inv by (auto simp: bus_inv_def shape_def)
  have u: "bus_unread topic t x = bus_unread topic s x @ (if mr_live (bs_mem s) x = None then [] else [f])" for x
    by (simp add: bus_unread_def l live_frames_def) (simp add: t_def)
  have h: "mem_history topic (bs_mem t) = ?h" by (simp add: mem_history_def t_def mem_broadcast_def)
  have sel: "bs_hist t = bs_hist s" "bs_noise t = bs_noise s" "mr_live (bs_mem t) x = None \<longleftrightarrow> mr_live (bs_mem s) x = None"
    "mr_log (bs_mem t) = mr_log (bs_mem s)" "bs_out t = (bs_out s)(r := False)" for x
    by (simp_all add: t_def mem_broadcast_def)
  have shape: "shape P ?ph bud t"
    using inv at out unfolding bus_inv_def shape_def sel by (auto simp: t_def)
  have m1: "1 \<le> ph x \<or> bs_out s x \<Longrightarrow> M1 x \<in> set ?h" and m2: "3 \<le> ph x \<or> ph x = 2 \<and> bs_out s x \<Longrightarrow> M2 x \<in> set ?h"
    and m3: "M2 x \<in> set ?h \<Longrightarrow> 2 \<le> ph x" and ah: "ahead (M1 x) (M2 x) ?h"
    and sub: "set (bus_unread topic s x) \<subseteq> set ?h" for x
    using inv by (auto simp: bus_inv_def logged_def)
  have f: "f \<in> set ?h" using at m1 [of r] m2 [of r] out by auto
  have logged: "logged topic M1 M2 ?ph t"
    using inv at out f m1 m2 m3 subsetD [OF sub] unfolding bus_inv_def logged_def h u sel by (auto dest: m3)
  have hears: "hears topic M1 M2 ?ph t" unfolding hears_def
  proof (intro allI impI)
    fix x assume hx: "bs_hist t x \<noteq> None"
    then have lx: "mr_live (bs_mem s) x \<noteq> None" and hs: "bs_hist s x \<noteq> None" using live by (simp_all add: sel)
    have old: "ph x \<le> 1 \<Longrightarrow> ahead (M1 (other x)) (M2 (other x)) (bus_unread topic s x) \<and>
          (1 \<le> ph (other x) \<longrightarrow> M1 (other x) \<in> set (bus_unread topic s x))"
      "ph x \<le> 3 \<Longrightarrow> 3 \<le> ph (other x) \<Longrightarrow> M2 (other x) \<in> set (bus_unread topic s x)"
      using inv hs by (auto simp: bus_inv_def hears_def)
    have "?ph x \<le> 1 \<Longrightarrow> ahead (M1 (other x)) (M2 (other x)) (bus_unread topic s x @ [f])"
      using old(1) at ne by (intro ahead_append) (auto split: if_splits)
    then show "(?ph x \<le> 1 \<longrightarrow> ahead (M1 (other x)) (M2 (other x)) (bus_unread topic t x) \<and>
          (1 \<le> ?ph (other x) \<longrightarrow> M1 (other x) \<in> set (bus_unread topic t x))) \<and>
        (?ph x \<le> 3 \<and> 3 \<le> ?ph (other x) \<longrightarrow> M2 (other x) \<in> set (bus_unread topic t x))"
      using old at lx by (auto simp: u split: if_splits)
  qed
  have counts: "counts T D ?ph bud t"
  proof (rule counts_less)
    show "counts T D ph bud s" using inv by (simp add: bus_inv_def)
    show "length (live_of t x) + coming ?ph t \<le> length (live_of s x) + coming ph s" for x using c by (simp add: l)
    show "length (mr_log (bs_mem t)) + coming ?ph t + of_bool (bs_out s Sender) + of_bool (bs_out s Receiver) \<le>
        length (mr_log (bs_mem s)) + coming ph s + of_bool (bs_out t Sender) + of_bool (bs_out t Receiver)"
      using c out by (cases r) (auto simp: sel)
  qed (use c sel in auto)
  show "bus_inv P M1 M2 topic T D ?ph bud t" using shape logged hears counts by (simp add: bus_inv_def)
  have ll: "length (live_of t x) \<le> Suc (length (live_of s x))" for x by (simp add: l)
  show "work T ?ph t < work T ph s"
    using at out ll [of Sender] ll [of Receiver] unfolding work_def role_work_def sel
    by (cases r) auto
qed

text \<open>Reading a frame, from the history or from the live queue.\<close>

definition stored :: "'a bus \<Rightarrow> role \<Rightarrow> nat" where
  "stored s r = (case bs_hist s r of None \<Rightarrow> 0 | Some h \<Rightarrow> length h) + length (live_of s r)"

lemma inv_read:
  assumes inv: "bus_inv P M1 M2 topic T D ph bud s" and talk: "talk P M1 M2 v"
    and p: "bs_proc s r = Recv k" and hist: "bs_hist s r \<noteq> None"
    and ur: "bus_unread topic s r = f # bus_unread topic t r"
    and rest: "\<And>x. x \<noteq> r \<Longrightarrow> bs_hist t x = bs_hist s x \<and> mr_live (bs_mem t) x = mr_live (bs_mem s) x"
    and same: "bs_proc t = (bs_proc s)(r := k (Inr f))" "mr_log (bs_mem t) = mr_log (bs_mem s)"
      "bs_out t = bs_out s" "bs_noise t = bs_noise s"
    and some: "bs_hist t r \<noteq> None" "mr_live (bs_mem t) r \<noteq> None"
    and less: "stored t r < stored s r" "length (live_of t r) \<le> length (live_of s r)"
  shows "\<exists>ph' bud'. bus_inv P M1 M2 topic T D ph' bud' t \<and> work T ph' t < work T ph s"
proof -
  let ?h = "mem_history topic (bs_mem s)"
  have h: "mem_history topic (bs_mem t) = ?h" by (simp add: mem_history_def same)
  have live: "live_of t x = live_of s x" if "x \<noteq> r" for x using rest [OF that] by (simp add: live_of_def)
  have un: "bus_unread topic t x = bus_unread topic s x" if "x \<noteq> r" for x
    using rest [OF that] live [OF that] by (simp add: bus_unread_def)
  have fh: "f \<in> set ?h" and uh: "set (bus_unread topic t r) \<subseteq> set ?h"
    using inv ur unfolding bus_inv_def logged_def by (metis insert_subset list.simps(15))+
  have "heard M1 M2 f" using inv fh by (auto simp: bus_inv_def logged_def)
  note at = reading_at [OF inv talk p this]
  have ne: "M1 x \<noteq> M2 y" for x y using talk_facts(6) [OF talk] .
  obtain b n where b: "bud r = Suc b" and step: "k (Inr f) = P r n b"
    and n: "ph r = 1 \<and> n = (if f = M1 (other r) then 2 else 1) \<or> ph r = 3 \<and> n = (if f = M2 (other r) then 4 else 3)"
    using at by metis
  let ?ph = "ph(r := n)" and ?bud = "bud(r := b)"
  have no: "\<not> bs_out s r" using inv n by (auto simp: bus_inv_def shape_def)
  have lf: "frames_left (?ph x) = frames_left (ph x)" for x using n by (auto split: if_splits)
  have c: "coming ?ph t = coming ph s" unfolding coming_def lf same ..
  have shape: "shape P ?ph ?bud t"
    using inv n rest some step unfolding bus_inv_def shape_def same by (auto split: if_splits)
  have logged: "logged topic M1 M2 ?ph t"
    using inv n uh un no unfolding bus_inv_def logged_def h same by (auto split: if_splits)
  have hears: "hears topic M1 M2 ?ph t" unfolding hears_def
  proof (intro allI impI)
    fix x assume hx: "bs_hist t x \<noteq> None"
    then have hs: "bs_hist s x \<noteq> None" using rest [of x] hist by (cases "x = r") auto
    have old: "ph x \<le> 1 \<Longrightarrow> ahead (M1 (other x)) (M2 (other x)) (bus_unread topic s x) \<and>
          (1 \<le> ph (other x) \<longrightarrow> M1 (other x) \<in> set (bus_unread topic s x))"
      "ph x \<le> 3 \<Longrightarrow> 3 \<le> ph (other x) \<Longrightarrow> M2 (other x) \<in> set (bus_unread topic s x)"
      using inv hs by (auto simp: bus_inv_def hears_def)
    show "(?ph x \<le> 1 \<longrightarrow> ahead (M1 (other x)) (M2 (other x)) (bus_unread topic t x) \<and>
          (1 \<le> ?ph (other x) \<longrightarrow> M1 (other x) \<in> set (bus_unread topic t x))) \<and>
        (?ph x \<le> 3 \<and> 3 \<le> ?ph (other x) \<longrightarrow> M2 (other x) \<in> set (bus_unread topic t x))"
    proof (cases "x = r")
      case True
      then show ?thesis using old n ur ne by (auto split: if_splits)
    next
      case False
      then have "other x = r" by (cases x; cases r) auto
      then show ?thesis using old n un [OF False] by (auto split: if_splits)
    qed
  qed
  have counts: "counts T D ?ph ?bud t"
  proof -
    have r: "length (live_of s x) + coming ph s \<le> D \<and> (case bs_hist s x of None \<Rightarrow> T + D + 2 \<le> bud x
      | Some h \<Rightarrow> length h + length (live_of s x) + coming ph s \<le> bud x)" for x
      using inv by (simp add: bus_inv_def counts_def)
    have "length (live_of t x) + coming ph s \<le> D \<and> (case bs_hist t x of None \<Rightarrow> T + D + 2 \<le> ?bud x
      | Some h \<Rightarrow> length h + length (live_of t x) + coming ph s \<le> ?bud x)" for x
    proof (cases "x = r")
      case True
      then show ?thesis using r [of r] hist some less b by (auto simp: stored_def split: option.splits)
    next
      case False
      then have "?bud x = bud x" by simp
      then show ?thesis using r [of x] rest [OF False] live [OF False] by (simp only:)
    qed
    then show ?thesis using inv unfolding bus_inv_def counts_def c same by simp
  qed
  have w: "role_work T ?ph t r < role_work T ph s r"
    using less hist some inv unfolding role_work_def lf same stored_def
    by (auto simp: bus_inv_def shape_def)
  have wo: "role_work T ?ph t x = role_work T ph s x" if "x \<noteq> r" for x
    using rest [OF that] live [OF that] unfolding role_work_def lf same by simp
  have "work T ?ph t < work T ph s"
    using w wo unfolding work_def same by (cases r) auto
  then show ?thesis using shape logged hears counts unfolding bus_inv_def by blast
qed

lemma inv_skip:
  assumes inv: "bus_inv P M1 M2 topic T D ph bud s" and live: "mr_live (bs_mem s) r = Some (e # q)"
    and none: "live_next topic (e # q) = None"
  defines "t \<equiv> s\<lparr>bs_mem := (bs_mem s)\<lparr>mr_live := (mr_live (bs_mem s))(r \<mapsto> [])\<rparr>\<rparr>"
  shows "bus_inv P M1 M2 topic T D ph bud t" and "work T ph t < work T ph s"
proof -
  have l: "live_of t x = (if x = r then [] else live_of s x)" for x by (simp add: live_of_def t_def)
  have lr: "live_of s r = e # q" by (simp add: live_of_def live)
  have u: "bus_unread topic t = bus_unread topic s"
    using none [unfolded live_next_None] by (auto simp: bus_unread_def fun_eq_iff l lr live_frames_def) (simp_all add: t_def)
  have h: "mem_history topic (bs_mem t) = mem_history topic (bs_mem s)" by (simp add: mem_history_def t_def)
  have c: "coming ph t = coming ph s" by (simp add: coming_def t_def)
  have "shape P ph bud t" "logged topic M1 M2 ph t" "hears topic M1 M2 ph t"
    using inv live unfolding bus_inv_def bus_defs u h by (auto simp: t_def)
  moreover have "counts T D ph bud t"
  proof (rule counts_less)
    show "counts T D ph bud s" using inv by (simp add: bus_inv_def)
  qed (simp_all add: c l, simp_all add: t_def)
  ultimately show "bus_inv P M1 M2 topic T D ph bud t" by (simp add: bus_inv_def)
  show "work T ph t < work T ph s"
    using live lr unfolding work_def role_work_def l by (cases r) (simp_all add: t_def)
qed

lemma inv_others:
  assumes inv: "bus_inv P M1 M2 topic T D ph bud s" and talk: "talk P M1 M2 v" and D: "D \<le> MEM_CAPACITY"
    and noise: "bs_noise s = Suc n" and f: "t' \<noteq> topic \<or> foreign f"
  defines "t \<equiv> s\<lparr>bs_mem := mem_publish t' f (bs_mem s), bs_noise := n\<rparr>"
  shows "bus_inv P M1 M2 topic T D ph bud t" and "work T ph t < work T ph s"
proof -
  let ?h = "mem_history topic (bs_mem s)"
  let ?new = "if t' = topic then [f] else []"
  have nf: "M1 x \<noteq> f" "M2 x \<noteq> f" if "t' = topic" for x using f that talk_facts(9,10) [OF talk] by auto
  have c: "coming ph s = Suc (coming ph t)" by (simp add: coming_def t_def noise)
  have lD: "length (live_of s x) + coming ph s \<le> D" for x using inv by (simp add: bus_inv_def counts_def)
  have l: "live_of t x = live_of s x @ (if mr_live (bs_mem s) x = None then [] else [(t', f)])" for x
  proof (rule live_broadcast)
    show "length (live_of s y) < MEM_CAPACITY" for y using lD [of y] c D by linarith
  qed (simp add: t_def mem_publish_def mem_broadcast_def mem_record_def)
  have u: "bus_unread topic t x = bus_unread topic s x @ (if mr_live (bs_mem s) x = None then [] else ?new)" for x
    by (simp add: bus_unread_def l live_frames_def) (simp add: t_def)
  have h: "mem_history topic (bs_mem t) = ?h @ ?new"
    by (simp add: mem_history_def t_def mem_publish_def mem_broadcast_def mem_record_def)
  have sel: "bs_hist t = bs_hist s" "bs_proc t = bs_proc s" "mr_live (bs_mem t) x = None \<longleftrightarrow> mr_live (bs_mem s) x = None"
    "mr_log (bs_mem t) = mr_log (bs_mem s) @ [(t', f)]" "bs_out t = bs_out s" for x
    by (simp_all add: t_def mem_publish_def mem_broadcast_def mem_record_def)
  have shape: "shape P ph bud t" using inv unfolding bus_inv_def shape_def sel by simp
  have ah: "ahead (M1 x) (M2 x) xs \<Longrightarrow> ahead (M1 x) (M2 x) (xs @ ?new)" for x xs
    using nf by (intro ahead_append) auto
  have "heard M1 M2 x" if "x \<in> set ?new" for x using that f by (auto simp: heard_def split: if_splits)
  then have logged: "logged topic M1 M2 ph t"
    using inv nf ah unfolding bus_inv_def logged_def h u sel by (auto split: if_splits)
  have hears: "hears topic M1 M2 ph t"
    using inv nf ah unfolding bus_inv_def hears_def u sel by (auto split: if_splits)
  have counts: "counts T D ph bud t"
  proof (rule counts_less)
    show "counts T D ph bud s" using inv by (simp add: bus_inv_def)
  qed (use c in \<open>auto simp: l sel\<close>)
  show "bus_inv P M1 M2 topic T D ph bud t" using shape logged hears counts by (simp add: bus_inv_def)
  have ll: "length (live_of t x) \<le> Suc (length (live_of s x))" for x by (simp add: l)
  show "work T ph t < work T ph s"
    using ll [of Sender] ll [of Receiver] noise unfolding work_def role_work_def sel by (simp add: t_def)
qed

section \<open>Every schedule\<close>

lemma bus_step_inv:
  assumes "bus_step topic s t" and inv: "bus_inv P M1 M2 topic T D ph bud s" and talk: "talk P M1 M2 v"
    and D: "D \<le> MEM_CAPACITY"
  shows "\<exists>ph' bud'. bus_inv P M1 M2 topic T D ph' bud' t \<and> work T ph' t < work T ph s"
  using assms(1)
proof cases
  case (attach r)
  then show ?thesis using inv_attach [OF inv] by blast
next
  case (snapshot r)
  then show ?thesis using inv_snapshot [OF inv] by blast
next
  case (record_frame r f k)
  then show ?thesis using inv_record [OF inv talk] by blast
next
  case (broadcast r f k)
  then show ?thesis using inv_broadcast [OF inv talk D] by blast
next
  case (read_history r f fs k)
  have "mr_live (bs_mem s) r \<noteq> None" using inv read_history by (auto simp: bus_inv_def shape_def)
  then show ?thesis unfolding read_history(1)
    by (intro inv_read [OF inv talk read_history(3), where f = f])
      (simp_all add: read_history(2) bus_unread_def stored_def live_of_def)
next
  case (read_live r k q f q')
  note q = live_next_frames [OF read_live(5)]
  show ?thesis unfolding read_live(1)
    by (intro inv_read [OF inv talk read_live(3), where f = f])
      (use q in \<open>simp_all add: read_live bus_unread_def stored_def live_of_def\<close>)
next
  case (skip_live r k e q)
  then show ?thesis using inv_skip [OF inv] by blast
next
  case (others n t' f)
  then show ?thesis using inv_others [OF inv talk D] by blast
qed

text \<open>While a peer has not returned there is a step.\<close>

lemma bus_progress:
  assumes inv: "bus_inv P M1 M2 topic T D ph bud s" and talk: "talk P M1 M2 v" and stuck: "\<And>t. \<not> bus_step topic s t"
  shows "bs_proc s r = Ret v"
proof -
  have live: "mr_live (bs_mem s) x \<noteq> None" for x using stuck bus_step.attach by blast
  have hist: "bs_hist s x \<noteq> None" for x using stuck bus_step.snapshot live by blast
  have no_send: "bs_proc s x \<noteq> Send f k" for x f k
    using stuck bus_step.record_frame [OF hist] bus_step.broadcast by metis
  have at: "bs_proc s x = P x (ph x) (bud x)" and le: "ph x \<le> 4" for x using inv by (auto simp: bus_inv_def shape_def)
  have stage: "ph x = 1 \<or> ph x = 3 \<or> ph x = 4" for x
    using stages [OF le [of x]] talk_facts(1,3) [OF talk] no_send [of x] unfolding at by metis
  have empty: "bus_unread topic s x = []" if wait: "ph x = 1 \<or> ph x = 3" for x
  proof -
    obtain b where "bud x = Suc b" using waiting_budget [OF inv wait] .
    then obtain k where k: "bs_proc s x = Recv k" using wait talk_facts(2,4) [OF talk] unfolding at by metis
    have h: "bs_hist s x = Some []"
      using hist [of x] stuck bus_step.read_history [OF _ k] by (metis list.exhaust not_None_eq)
    obtain q where q: "mr_live (bs_mem s) x = Some q" using live by blast
    have "live_next topic q = None"
      using stuck bus_step.read_live [OF h k q] by (metis not_None_eq prod.exhaust)
    then show ?thesis using h q by (simp add: bus_unread_def live_of_def live_next_None)
  qed
  have hears: "ph x \<le> 1 \<longrightarrow> 1 \<le> ph (other x) \<longrightarrow> M1 (other x) \<in> set (bus_unread topic s x)"
    "ph x \<le> 3 \<and> 3 \<le> ph (other x) \<longrightarrow> M2 (other x) \<in> set (bus_unread topic s x)" for x
    using inv hist by (auto simp: bus_inv_def hears_def)
  have "ph x \<noteq> 1" for x using hears(1) [of x] stage [of "other x"] empty [of x] by auto
  then have three: "ph x = 3 \<or> ph x = 4" for x using stage by metis
  have "ph x \<noteq> 3" for x using hears(2) [of x] three [of "other x"] empty [of x] by auto
  then have "ph r = 4" using three by metis
  then show ?thesis using at talk_facts(5) [OF talk] by simp
qed

definition bus_start :: "(role \<Rightarrow> 'a proc) \<Rightarrow> (string \<times> bytes) list \<Rightarrow> nat \<Rightarrow> 'a bus" where
  "bus_start p log noise =
     \<lparr>bs_mem = mem_new\<lparr>mr_log := log\<rparr>, bs_proc = p, bs_hist = (\<lambda>_. None), bs_out = (\<lambda>_. False), bs_noise = noise\<rparr>"

lemma bus_start_inv:
  assumes "\<And>f. (topic, f) \<in> set log \<Longrightarrow> foreign f" and "talk P M1 M2 v"
    and "\<And>r. length log + 2 * noise + 10 \<le> bud r"
  shows "bus_inv P M1 M2 topic (length log + noise + 4) (noise + 4) (\<lambda>_. 0) bud
    (bus_start (\<lambda>r. P r 0 (bud r)) log noise)"
proof -
  let ?s = "bus_start (\<lambda>r. P r 0 (bud r)) log noise"
  have h: "mem_history topic (bs_mem ?s) = map snd (filter (\<lambda>(t, _). t = topic) log)"
    by (simp add: mem_history_def bus_start_def)
  have fo: "foreign f" if "f \<in> set (mem_history topic (bs_mem ?s))" for f
    using that assms(1) unfolding h by auto
  have l: "live_of ?s r = []" for r by (simp add: live_of_def bus_start_def mem_new_def)
  have u: "bus_unread topic ?s r = []" for r by (simp add: bus_unread_def l live_frames_def) (simp add: bus_start_def)
  have n2: "M2 r \<notin> set (mem_history topic (bs_mem ?s))" for r using fo talk_facts(10) [OF assms(2)] by blast
  have "shape P (\<lambda>_. 0) bud ?s" by (simp add: shape_def bus_start_def)
  moreover have "logged topic M1 M2 (\<lambda>_. 0) ?s"
    using fo n2 unfolding logged_def u by (auto simp: heard_def bus_start_def intro: ahead_notin)
  moreover have "hears topic M1 M2 (\<lambda>_. 0) ?s" by (simp add: hears_def bus_start_def)
  moreover have "counts (length log + noise + 4) (noise + 4) (\<lambda>_. 0) bud ?s"
  proof -
    have "length log + noise + 4 + (noise + 4) + 2 \<le> bud r" for r using assms(3) [of r] by simp
    then show ?thesis unfolding counts_def l by (auto simp: coming_def bus_start_def mem_new_def)
  qed
  ultimately show ?thesis by (simp add: bus_inv_def)
qed

lemma bus_every_schedule:
  assumes log: "\<And>f. (topic, f) \<in> set log \<Longrightarrow> foreign f" and talk: "talk P M1 M2 v"
    and bud: "\<And>r. length log + 2 * noise + 10 \<le> bud r" and cap: "noise + 4 \<le> MEM_CAPACITY"
  shows "\<exists>N. \<forall>n t. (bus_step topic ^^ n) (bus_start (\<lambda>r. P r 0 (bud r)) log noise) t \<longrightarrow>
    n \<le> N \<and> ((\<forall>u. \<not> bus_step topic t u) \<longrightarrow> (\<forall>r. bs_proc t r = Ret v))"
proof -
  let ?s = "bus_start (\<lambda>r. P r 0 (bud r)) log noise"
  let ?T = "length log + noise + 4" and ?D = "noise + 4"
  have reach: "\<exists>ph bud'. bus_inv P M1 M2 topic ?T ?D ph bud' t \<and> n + work ?T ph t \<le> work ?T (\<lambda>_. 0) ?s"
    if "(bus_step topic ^^ n) ?s t" for n t
    using that
  proof (induction n arbitrary: t)
    case 0
    have "bus_inv P M1 M2 topic ?T ?D (\<lambda>_. 0) bud ?s" by (rule bus_start_inv [OF log talk bud])
    then show ?case using 0 by (intro exI [of _ "\<lambda>_. 0"] exI [of _ bud]) simp
  next
    case (Suc n)
    then obtain u where u: "(bus_step topic ^^ n) ?s u" "bus_step topic u t" by auto
    from Suc.IH [OF u(1)] obtain ph b where ih: "bus_inv P M1 M2 topic ?T ?D ph b u"
      "n + work ?T ph u \<le> work ?T (\<lambda>_. 0) ?s" by blast
    from bus_step_inv [OF u(2) ih(1) talk cap] show ?case using ih(2) by fastforce
  qed
  show ?thesis
  proof (intro exI allI impI conjI)
    fix n t
    assume "(bus_step topic ^^ n) ?s t"
    from reach [OF this] obtain ph b where i: "bus_inv P M1 M2 topic ?T ?D ph b t"
      "n + work ?T ph t \<le> work ?T (\<lambda>_. 0) ?s" by blast
    then show "n \<le> work ?T (\<lambda>_. 0) ?s" by simp
    show "bs_proc t r = Ret v" if "\<forall>u. \<not> bus_step topic t u" for r
      using bus_progress [OF i(1) talk] that by blast
  qed
qed

section \<open>The handshake is such a conversation\<close>

definition hs_first :: "spake_lib \<Rightarrow> string \<Rightarrow> bytes \<Rightarrow> (role \<Rightarrow> bytes) \<Rightarrow> role \<Rightarrow> bytes" where
  "hs_first S topic pw rnd r = encode_frame KIND_PAKE r (snd (pake_start S (rnd r) pw topic))"

definition hs_second :: "'x crypto_lib_scheme \<Rightarrow> session_key \<Rightarrow> role \<Rightarrow> bytes" where
  "hs_second L key r = encode_frame KIND_CONFIRM r (confirmation L key r)"

definition hs_last :: "'x crypto_lib_scheme \<Rightarrow> session_key \<Rightarrow> role \<Rightarrow> nat \<Rightarrow> session_key res proc" where
  "hs_last L key r b =
     wait_for (rendezvous_timeout r) b KIND_CONFIRM (role_byte (other r)) Inl (\<lambda>_ peer_conf.
       if \<not> verify_confirmation L key (other r) peer_conf then Ret (Inl (Msg code_mismatch_text))
       else Ret (Inr key))"

definition hs_at ::
  "'x crypto_lib_scheme \<Rightarrow> spake_lib \<Rightarrow> string \<Rightarrow> bytes \<Rightarrow> (role \<Rightarrow> bytes) \<Rightarrow> session_key \<Rightarrow> role \<Rightarrow> nat \<Rightarrow> nat \<Rightarrow>
   session_key res proc" where
  "hs_at L S topic pw rnd key r n b =
     (if n = 0 then handshake_with_timeout L S (rnd r) (Inr ()) topic pw r b
      else if n = 1 then
        wait_for (rendezvous_timeout r) b KIND_PAKE (role_byte (other r)) Inl (\<lambda>b m.
          case pake_finish S (fst (pake_start S (rnd r) pw topic)) m of
            Inl e \<Rightarrow> Ret (Inl e)
          | Inr key \<Rightarrow> send_or Inl (hs_second L key r) (hs_last L key r b))
      else if n = 2 then send_or Inl (hs_second L key r) (hs_last L key r b)
      else if n = 3 then hs_last L key r b
      else Ret (Inr key))"

lemma wait_for_reads:
  "\<exists>k. wait_for late (Suc n) kd rl fail cont = Recv k \<and>
     (\<forall>f. k (Inr f) = (if tagged kd rl f then cont n (drop 2 f) else wait_for late n kd rl fail cont))"
proof -
  let ?k = "\<lambda>r. case r of Inl e \<Rightarrow> Ret (fail stream_ended) | Inr frame \<Rightarrow>
      (case decode_frame frame of
         Some (k, r, payload) \<Rightarrow>
           (if k = kd \<and> r = rl then cont n payload else wait_for late n kd rl fail cont)
       | None \<Rightarrow> wait_for late n kd rl fail cont)"
  have "?k (Inr f) = (if tagged kd rl f then cont n (drop 2 f) else wait_for late n kd rl fail cont)" for f
  proof (cases "decode_frame f")
    case None
    then have "\<not> tagged kd rl f" by (auto simp: tagged_def decode_frame_def split: if_splits)
    then show ?thesis using None by simp
  next
    case (Some x)
    then obtain k r p where d: "decode_frame f = Some (k, r, p)" by (cases x) auto
    then have "f = k # r # p" by (simp add: decode_frame_Some)
    then show ?thesis using d by (auto simp: tagged_def)
  qed
  moreover have "wait_for late (Suc n) kd rl fail cont = Recv ?k" by (simp add: recv_or_def)
  ultimately show ?thesis by blast
qed

lemma tagged_frame [simp]: "tagged kd (role_byte r) (encode_frame k r' p) \<longleftrightarrow> k = kd \<and> r' = r"
  by (auto simp: tagged_def encode_frame_def)

lemma handshake_talk:
  assumes fin: "\<And>r. pake_finish S (fst (pake_start S (rnd r) pw topic)) (snd (pake_start S (rnd (other r)) pw topic)) = Inr key"
  shows "talk (hs_at L S topic pw rnd key) (hs_first S topic pw rnd) (hs_second L key) (Inr key)"
proof -
  let ?P = "hs_at L S topic pw rnd key" and ?M1 = "hs_first S topic pw rnd" and ?M2 = "hs_second L key"
  have kinds: "KIND_PAKE \<noteq> KIND_CONFIRM" by (simp add: KIND_defs)
  have t1: "heard ?M1 ?M2 f \<Longrightarrow> tagged KIND_PAKE (role_byte x) f \<longleftrightarrow> f = ?M1 x" for f x
    using kinds by (auto simp: heard_def foreign_def hs_first_def hs_second_def)
  have t2: "heard ?M1 ?M2 f \<Longrightarrow> tagged KIND_CONFIRM (role_byte x) f \<longleftrightarrow> f = ?M2 x" for f x
    using kinds by (auto simp: heard_def foreign_def hs_first_def hs_second_def)
  have say1: "\<exists>k. ?P r 0 b = Send (?M1 r) k \<and> k None = ?P r 1 b" for r b
    unfolding hs_at_def hs_first_def hs_second_def hs_last_def handshake_with_timeout_def handshake_inner_def
    by (simp add: send_or_def split_beta)
  have hear1: "\<exists>k. ?P r 1 (Suc b) = Recv k \<and>
      (\<forall>f. heard ?M1 ?M2 f \<longrightarrow> k (Inr f) = (if f = ?M1 (other r) then ?P r 2 b else ?P r 1 b))" for r b
  proof -
    let ?cont = "\<lambda>b m. case pake_finish S (fst (pake_start S (rnd r) pw topic)) m of Inl e \<Rightarrow> Ret (Inl e)
        | Inr key \<Rightarrow> send_or Inl (hs_second L key r) (hs_last L key r b)"
    obtain k where k: "?P r 1 (Suc b) = Recv k"
      "\<And>f. k (Inr f) = (if tagged KIND_PAKE (role_byte (other r)) f then ?cont b (drop 2 f) else ?P r 1 b)"
      using wait_for_reads [of "rendezvous_timeout r" b KIND_PAKE "role_byte (other r)" Inl ?cont]
      by (auto simp: hs_at_def simp del: wait_for.simps)
    have "drop 2 (?M1 (other r)) = snd (pake_start S (rnd (other r)) pw topic)" by (simp add: hs_first_def encode_frame_def)
    then have "?cont b (drop 2 (?M1 (other r))) = ?P r 2 b" using fin [of r] by (simp add: hs_at_def)
    then show ?thesis using k t1 by (intro exI [of _ k]) auto
  qed
  have say2: "\<exists>k. ?P r 2 b = Send (?M2 r) k \<and> k None = ?P r 3 b" for r b
    by (simp add: hs_at_def send_or_def)
  have hear2: "\<exists>k. ?P r 3 (Suc b) = Recv k \<and>
      (\<forall>f. heard ?M1 ?M2 f \<longrightarrow> k (Inr f) = (if f = ?M2 (other r) then ?P r 4 b else ?P r 3 b))" for r b
  proof -
    let ?cont = "\<lambda>_ peer_conf. if \<not> verify_confirmation L key (other r) peer_conf
        then Ret (Inl (Msg code_mismatch_text)) else Ret (Inr key)"
    obtain k where k: "?P r 3 (Suc b) = Recv k"
      "\<And>f. k (Inr f) = (if tagged KIND_CONFIRM (role_byte (other r)) f then ?cont b (drop 2 f) else ?P r 3 b)"
      using wait_for_reads [of "rendezvous_timeout r" b KIND_CONFIRM "role_byte (other r)" Inl ?cont]
      by (auto simp: hs_at_def hs_last_def simp del: wait_for.simps)
    have "?cont b (drop 2 (?M2 (other r))) = ?P r 4 b"
      by (simp add: hs_at_def hs_second_def encode_frame_def verify_confirmation_def)
    then show ?thesis using k t2 by (intro exI [of _ k]) auto
  qed
  have rest: "?P r 4 b = Ret (Inr key)" "?M1 r \<noteq> ?M2 r'" "\<not> foreign (?M1 r)" "\<not> foreign (?M2 r)" for r r' b
    using kinds by (auto simp: hs_at_def hs_first_def hs_second_def encode_frame_def foreign_def tagged_def)
  have inj: "inj ?M1" "inj ?M2" by (auto simp: inj_def hs_first_def hs_second_def encode_frame_def)
  show ?thesis unfolding talk_def using say1 hear1 say2 hear2 rest inj by blast
qed

lemma rendezvous_agreement:
  assumes sp: "spake_correct S" and log: "\<And>f. (topic, f) \<in> set log \<Longrightarrow> foreign f"
    and bud: "\<And>r. length log + 2 * noise + 10 \<le> bud r" and cap: "noise + 4 \<le> MEM_CAPACITY"
  shows "\<exists>key N. length key = 32 \<and> (\<forall>n t. (bus_step topic ^^ n) (bus_start (\<lambda>r.
      handshake_with_timeout L S (rnd r) (Inr ()) topic pw r (bud r)) log noise) t \<longrightarrow>
    n \<le> N \<and> ((\<forall>u. \<not> bus_step topic t u) \<longrightarrow> (\<forall>r. bs_proc t r = Ret (Inr key))))"
proof -
  obtain key where key: "length key = 32"
    "pake_finish S (fst (pake_start S (rnd Sender) pw topic)) (snd (pake_start S (rnd Receiver) pw topic)) = Inr key"
    "pake_finish S (fst (pake_start S (rnd Receiver) pw topic)) (snd (pake_start S (rnd Sender) pw topic)) = Inr key"
    using spake_agree [OF sp] by blast
  have fin: "pake_finish S (fst (pake_start S (rnd r) pw topic)) (snd (pake_start S (rnd (other r)) pw topic)) = Inr key" for r
    using key by (cases r) simp_all
  have "\<exists>N. \<forall>n t. (bus_step topic ^^ n) (bus_start (\<lambda>r. hs_at L S topic pw rnd key r 0 (bud r)) log noise) t \<longrightarrow>
    n \<le> N \<and> ((\<forall>u. \<not> bus_step topic t u) \<longrightarrow> (\<forall>r. bs_proc t r = Ret (Inr key)))"
    by (rule bus_every_schedule [OF log handshake_talk bud cap]) (use fin in auto)
  moreover have "hs_at L S topic pw rnd key r 0 b = handshake_with_timeout L S (rnd r) (Inr ()) topic pw r b" for r b
    by (simp add: hs_at_def)
  ultimately show ?thesis using key(1) by auto
qed

end
