(* ===== verification/B2P_Serve.thy ===== *)
theory B2P_Serve
  imports B2P_Server
begin

text \<open>
  The tunnel server under concurrent requests (src/src/server.rs): each request in flight is a task
  that stops where the source awaits. The handlers that work on the transfer hold its lock from
  their first to their last effect and are one step; \<^verbatim>\<open>handle_manifest\<close> waits for the user's answer
  and for the lock, and the middleware counts a failure before it fires the token. \<open>handle_manifest\<close>
  of \<open>B2P_Server\<close> is its uninterrupted run (\<open>handle_manifest_stages\<close>).
\<close>

section \<open>The stages of \<^verbatim>\<open>handle_manifest\<close>\<close>

definition manifest_refusal :: "'x proto_lib_scheme \<Rightarrow> http_response" where
  "manifest_refusal L =
     json_response (js_manifest_ack L \<lparr>ma_accepted = False, ma_complete = False, ma_have = []\<rparr>)"

definition manifest_decode :: "'x proto_lib_scheme \<Rightarrow> app \<Rightarrow> bytes \<Rightarrow> http_response + manifest" where
  "manifest_decode L app body =
     (case open_json L (un_manifest L) (ap_key app) DManifest [] body of
        Inl _ \<Rightarrow> Inl (status 400)
      | Inr m \<Rightarrow> if m_version m \<noteq> PROTOCOL_VERSION then Inl (manifest_refusal L) else Inr m)"

definition manifest_dest_exists :: "app \<Rightarrow> manifest \<Rightarrow> bool" where
  "manifest_dest_exists app m =
     fs_exists (sc_out_dir (ap_cfg app) @ [server_safe_name (m_name m)]) (ap_disk app)"

definition manifest_auto :: "app \<Rightarrow> manifest \<Rightarrow> bool" where
  "manifest_auto app m =
     (\<not> (manifest_dest_exists app m \<and> m_kind m = KFile \<and> \<not> sc_overwrite (ap_cfg app)))"

text \<open>After the answer: a response, or the store that waits for the lock.\<close>

definition manifest_open ::
  "'x store_lib_scheme \<Rightarrow> manifest \<Rightarrow> bool \<Rightarrow> app \<Rightarrow> (http_response + store) \<times> app" where
  "manifest_open L m accepted app =
     (if \<not> accepted then (Inl (manifest_refusal L), app)
      else if m_kind m = KText
      then (Inl (json_response (js_manifest_ack L \<lparr>ma_accepted = True, ma_complete = True, ma_have = []\<rparr>)),
            (emit (EvDone ''text received'')
              (emit (EvText (case m_text m of Some t \<Rightarrow> t | None \<Rightarrow> [])) app))\<lparr>ap_closing := True\<rparr>)
      else
        (case open_or_create L (sc_out_dir (ap_cfg app)) (server_safe_name (m_name m)) (m_transfer_id m)
                (m_total_size m) (m_chunk_size m) (ap_disk app) of
           (Inl e, f) \<Rightarrow>
             (Inl (status 500), emit (EvFailed (''cannot open store: '' @ display_err e)) (app\<lparr>ap_disk := f\<rparr>))
         | (Inr st, f) \<Rightarrow>
             (Inr st, emit (EvAccepted (server_safe_name (m_name m)) (m_total_size m)) (app\<lparr>ap_disk := f\<rparr>))))"

definition manifest_install ::
  "'x store_lib_scheme \<Rightarrow> manifest \<Rightarrow> store \<Rightarrow> app \<Rightarrow> http_response \<times> app" where
  "manifest_install L m st app =
     (json_response (js_manifest_ack L \<lparr>ma_accepted = True, ma_complete = False, ma_have = store_have st\<rparr>),
      app\<lparr>ap_transfer := Some \<lparr>at_manifest = m, at_store = st\<rparr>\<rparr>)"

definition manifest_rest :: "'x store_lib_scheme \<Rightarrow> manifest \<Rightarrow> bool \<Rightarrow> app \<Rightarrow> handler" where
  "manifest_rest L m accepted app =
     (case manifest_open L m accepted app of
        (Inl r, app) \<Rightarrow> (Inr r, app)
      | (Inr st, app) \<Rightarrow> (case manifest_install L m st app of (r, app) \<Rightarrow> (Inr r, app)))"

lemma handle_manifest_stages:
  "handle_manifest L ask app body =
     (case manifest_decode L app body of
        Inl r \<Rightarrow> (Inr r, app)
      | Inr m \<Rightarrow>
          if sc_auto_accept (ap_cfg app) then manifest_rest L m (manifest_auto app m) app
          else
            (case ask (manifest_summary m (manifest_dest_exists app m)) of
               None \<Rightarrow> (Inr (status 503), app)
             | Some accepted \<Rightarrow> manifest_rest L m accepted app))"
proof (cases "open_json L (un_manifest L) (ap_key app) DManifest [] body")
  case (Inl e)
  then show ?thesis by (simp add: handle_manifest_def manifest_decode_def)
next
  case (Inr m)
  obtain r f where o: "open_or_create L (sc_out_dir (ap_cfg app)) (server_safe_name (m_name m)) (m_transfer_id m)
      (m_total_size m) (m_chunk_size m) (ap_disk app) = (r, f)" by (metis prod.exhaust)
  note stages = handle_manifest_def manifest_decode_def manifest_rest_def manifest_open_def
    manifest_install_def manifest_refusal_def manifest_auto_def manifest_dest_exists_def Let_def
  show ?thesis
    by (cases "sc_auto_accept (ap_cfg app)"; cases r;
        cases "ask (manifest_summary m (manifest_dest_exists app m))")
      (simp_all add: stages [abs_def] Inr o emit_def)
qed

section \<open>Requests in flight\<close>

datatype task =
    Arrived http_request
  | Counted
      \<comment> \<open>a failure that reached the limit, before the token is fired\<close>
  | Asked manifest string
      \<comment> \<open>waiting for the user's answer to the summary\<close>
  | Opened manifest store
      \<comment> \<open>waiting for the lock\<close>
  | Answered "http_response res"

record conc =
  cs_app :: app
  cs_tasks :: "task list"
  cs_done :: "http_response res list"

definition conc_start :: "'x crypto_lib_scheme \<Rightarrow> server_cfg \<Rightarrow> fs \<Rightarrow> conc" where
  "conc_start L cfg f = \<lparr>cs_app = server_start L cfg f, cs_tasks = [], cs_done = []\<rparr>"

definition bad_token :: "'x crypto_lib_scheme \<Rightarrow> app \<Rightarrow> http_request \<Rightarrow> bool" where
  "bad_token L app req \<longleftrightarrow> blake3_hash L (str_bytes (provided_token req)) \<noteq> ap_token_hash app"

definition opened :: "manifest \<Rightarrow> (http_response + store) \<Rightarrow> task" where
  "opened m r = (case r of Inl x \<Rightarrow> Answered (Inr x) | Inr st \<Rightarrow> Opened m st)"

text \<open>The first turn of a request: the middleware, and the handler up to where it first waits.\<close>

definition task_begin :: "'x store_lib_scheme \<Rightarrow> http_request \<Rightarrow> app \<Rightarrow> task \<times> app" where
  "task_begin L req app =
     (if bad_token L app req
      then
        (let fails = ap_auth_failures app + 1 in
         (if MAX_AUTH_FAILURES \<le> fails then Counted else Answered (Inr (status 401)),
          app\<lparr>ap_auth_failures := fails\<rparr>))
      else
        (case rq_route req of
           RManifest b \<Rightarrow>
             if length b > body_limit then (Answered (Inr (status 413)), app)
             else
               (case manifest_decode L app b of
                  Inl r \<Rightarrow> (Answered (Inr r), app)
                | Inr m \<Rightarrow>
                    if sc_auto_accept (ap_cfg app)
                    then (case manifest_open L m (manifest_auto app m) app of (r, app) \<Rightarrow> (opened m r, app))
                    else (Asked m (manifest_summary m (manifest_dest_exists app m)), app))
         | rt \<Rightarrow> (case run_route L (\<lambda>_. None) app rt of (r, app) \<Rightarrow> (Answered r, app))))"

text \<open>The later turns; \<open>answer\<close> is what the user says, \<open>None\<close> when nobody listens.\<close>

fun task_next :: "'x store_lib_scheme \<Rightarrow> bool option \<Rightarrow> task \<Rightarrow> app \<Rightarrow> (task \<times> app) option" where
  "task_next L answer (Arrived req) app = Some (task_begin L req app)"
| "task_next L answer Counted app =
     Some (Answered (Inr (status 401)), (emit (EvFailed too_many_text) app)\<lparr>ap_shutdown := True\<rparr>)"
| "task_next L answer (Asked m summary) app =
     (case answer of
        None \<Rightarrow> Some (Answered (Inr (status 503)), app)
      | Some accepted \<Rightarrow>
          (case manifest_open L m accepted app of (r, app) \<Rightarrow> Some (opened m r, app)))"
| "task_next L answer (Opened m st) app =
     (case manifest_install L m st app of (r, app) \<Rightarrow> Some (Answered (Inr r), app))"
| "task_next L answer (Answered r) app = None"

text \<open>
  \<open>K\<close> bounds the requests in flight. Once the token fired no request is taken, but those in flight
  are served to their end (graceful shutdown).
\<close>

inductive conc_step :: "'x store_lib_scheme \<Rightarrow> nat \<Rightarrow> conc \<Rightarrow> conc \<Rightarrow> bool" for L K where
  admit: "\<not> ap_shutdown (cs_app s) \<Longrightarrow> length (cs_tasks s) < K \<Longrightarrow>
    conc_step L K s (s\<lparr>cs_tasks := cs_tasks s @ [Arrived req]\<rparr>)"
| turn: "i < length (cs_tasks s) \<Longrightarrow> task_next L answer (cs_tasks s ! i) (cs_app s) = Some (t, app) \<Longrightarrow>
    conc_step L K s (s\<lparr>cs_app := app, cs_tasks := (cs_tasks s)[i := t]\<rparr>)"
| reply: "cs_tasks s = before @ Answered r # after \<Longrightarrow>
    conc_step L K s (s\<lparr>cs_tasks := before @ after, cs_done := cs_done s @ [r]\<rparr>)"
| delay_over: "conc_step L K s (s\<lparr>cs_app := sleep_over (cs_app s)\<rparr>)"

text \<open>\<open>serve\<close> is the run in which the request is alone: taken, given its turns, answered.\<close>

lemma turns_alone:
  assumes "task_next L answer t app = Some (t', app')"
  shows "conc_step L K \<lparr>cs_app = app, cs_tasks = [t], cs_done = d\<rparr> \<lparr>cs_app = app', cs_tasks = [t'], cs_done = d\<rparr>"
  using conc_step.turn [of 0 "\<lparr>cs_app = app, cs_tasks = [t], cs_done = d\<rparr>" L answer t' app' K] assms by simp

lemma reply_alone:
  "conc_step L K \<lparr>cs_app = app, cs_tasks = [Answered r], cs_done = d\<rparr> \<lparr>cs_app = app, cs_tasks = [], cs_done = d @ [r]\<rparr>"
  using conc_step.reply [of "\<lparr>cs_app = app, cs_tasks = [Answered r], cs_done = d\<rparr>" "[]" r "[]" L K] by simp

lemma manifest_rest_alone:
  assumes "manifest_rest L m accepted app = (r, app')" and "manifest_open L m accepted app = (x, app1)"
  shows "(conc_step L K)\<^sup>*\<^sup>* \<lparr>cs_app = app1, cs_tasks = [opened m x], cs_done = d\<rparr>
    \<lparr>cs_app = app', cs_tasks = [Answered r], cs_done = d\<rparr>"
proof (cases x)
  case (Inl a)
  then show ?thesis using assms by (simp add: manifest_rest_def opened_def)
next
  case (Inr st)
  then have "task_next L None (opened m x) app1 = Some (Answered r, app')"
    using assms by (auto simp: manifest_rest_def opened_def split: prod.splits)
  then show ?thesis by (auto intro: turns_alone)
qed

lemma task_begin_alone:
  assumes "auth_mw L ask app req = (r, app')" and "task_begin L req app = (t, app1)"
  shows "(conc_step L K)\<^sup>*\<^sup>* \<lparr>cs_app = app1, cs_tasks = [t], cs_done = d\<rparr>
    \<lparr>cs_app = app', cs_tasks = [Answered r], cs_done = d\<rparr>"
proof (cases "bad_token L app req")
  case True
  have "t = Answered r \<and> app1 = app' \<or> task_next L None t app1 = Some (Answered r, app')"
    using assms True by (auto simp: auth_mw_def task_begin_def bad_token_def Let_def emit_def split: if_splits)
  then show ?thesis by (auto intro: turns_alone)
next
  case good: False
  then have run: "run_route L ask app (rq_route req) = (r, app')"
    using assms by (simp add: auth_mw_def bad_token_def)
  show ?thesis
  proof (cases "\<exists>b m. rq_route req = RManifest b \<and> length b \<le> body_limit \<and> manifest_decode L app b = Inr m")
    case False
    then have "t = Answered r \<and> app1 = app'"
      using assms(2) good run
      by (auto simp: task_begin_def run_route_def route_body_def handle_manifest_stages
          split: route.splits if_splits sum.splits prod.splits)
    then show ?thesis by simp
  next
    case True
    then obtain b m where b: "rq_route req = RManifest b" "length b \<le> body_limit" "manifest_decode L app b = Inr m"
      by blast
    show ?thesis
    proof (cases "sc_auto_accept (ap_cfg app)")
      case True
      obtain x a where x: "manifest_open L m (manifest_auto app m) app = (x, a)" by (metis prod.exhaust)
      then have "t = opened m x" "app1 = a" using assms(2) good b True by (simp_all add: task_begin_def)
      moreover have "manifest_rest L m (manifest_auto app m) app = (r, app')"
        using run b True by (simp add: run_route_def route_body_def handle_manifest_stages)
      ultimately show ?thesis using manifest_rest_alone x by blast
    next
      case manual: False
      let ?q = "manifest_summary m (manifest_dest_exists app m)"
      have t: "t = Asked m ?q" "app1 = app" using assms(2) good b manual by (auto simp: task_begin_def)
      show ?thesis
      proof (cases "ask ?q")
        case None
        then have "task_next L None t app1 = Some (Answered r, app')"
          using run b manual t by (simp add: run_route_def route_body_def handle_manifest_stages)
        then show ?thesis by (auto intro: turns_alone)
      next
        case (Some accepted)
        obtain x a where x: "manifest_open L m accepted app = (x, a)" by (metis prod.exhaust)
        have "task_next L (Some accepted) t app1 = Some (opened m x, a)" using t x by simp
        moreover have "manifest_rest L m accepted app = (r, app')"
          using run b manual Some by (simp add: run_route_def route_body_def handle_manifest_stages)
        ultimately show ?thesis
          using manifest_rest_alone [OF _ x] turns_alone by (meson converse_rtranclp_into_rtranclp)
      qed
    qed
  qed
qed

lemma serve_alone:
  assumes "\<not> ap_shutdown app" and "serve L ask app req = (r, app')" and "0 < K"
  shows "(conc_step L K)\<^sup>*\<^sup>* \<lparr>cs_app = app, cs_tasks = [], cs_done = d\<rparr> \<lparr>cs_app = app', cs_tasks = [], cs_done = d @ [r]\<rparr>"
proof -
  obtain t a where t: "task_begin L req app = (t, a)" by (metis prod.exhaust)
  have mw: "auth_mw L ask app req = (r, app')" using assms by (simp add: serve_def)
  let ?s = "\<lambda>a ts d. \<lparr>cs_app = a, cs_tasks = ts, cs_done = d\<rparr>"
  have "conc_step L K (?s app [] d) (?s app [Arrived req] d)"
    using conc_step.admit [of "?s app [] d" K L req] assms by simp
  moreover have "conc_step L K (?s app [Arrived req] d) (?s a [t] d)"
    by (rule turns_alone) (simp add: t)
  moreover note task_begin_alone [OF mw t, of K d] reply_alone [of L K app' r d]
  ultimately show ?thesis by (meson converse_rtranclp_into_rtranclp rtranclp.rtrancl_into_rtrancl)
qed

section \<open>Guesses stay bounded under concurrency\<close>

lemma same_guard_refl [simp]: "same_guard app app" "same_guard app (app\<lparr>ap_closing := c\<rparr>)"
  by (simp_all add: same_guard_def)

fun guessed :: "task \<Rightarrow> bool" where
  "guessed Counted \<longleftrightarrow> True"
| "guessed (Answered r) \<longleftrightarrow> is_401 r"
| "guessed _ \<longleftrightarrow> False"

fun told :: "task \<Rightarrow> bool" where
  "told (Answered r) \<longleftrightarrow> is_401 r"
| "told _ \<longleftrightarrow> False"

lemma told_guessed: "told t \<Longrightarrow> guessed t"
  by (cases t) auto

lemma manifest_open_guard:
  assumes "manifest_open L m accepted app = (r, app')"
  shows "same_guard app app' \<and> \<not> guessed (opened m r)"
  using assms
  by (auto simp: manifest_open_def opened_def same_guard_def is_401_def manifest_refusal_def
      split: if_splits prod.splits sum.splits)

lemma manifest_decode_guard: "manifest_decode L app b = Inl r \<Longrightarrow> \<not> is_401 (Inr r)"
  by (auto simp: manifest_decode_def is_401_def manifest_refusal_def split: sum.splits if_splits)

text \<open>A request with the token is never counted.\<close>

lemma task_begin_good:
  assumes "\<not> bad_token L app req" and "task_begin L req app = (t, app')"
  shows "same_guard app app' \<and> \<not> guessed t"
proof (cases "rq_route req")
  case (RManifest b)
  then show ?thesis
    using assms
    by (auto simp: task_begin_def is_401_def dest: manifest_open_guard manifest_decode_guard
        split: if_splits sum.splits prod.splits)
qed (use assms in \<open>auto simp: task_begin_def dest: run_route_guard split: prod.splits\<close>)

lemma task_next_guard:
  assumes "task_next L answer t app = Some (t', app')" and "t \<noteq> Counted"
    and "\<And>req. t = Arrived req \<Longrightarrow> \<not> bad_token L app req"
  shows "same_guard app app' \<and> \<not> guessed t' \<and> \<not> guessed t"
proof (cases t)
  case (Arrived req)
  then show ?thesis using assms by (auto dest: task_begin_good)
next
  case (Asked m summary)
  then show ?thesis
    using assms by (auto simp: is_401_def dest: manifest_open_guard split: option.splits prod.splits)
next
  case (Opened m st)
  then show ?thesis using assms by (auto simp: is_401_def manifest_install_def same_guard_def)
qed (use assms in auto)

text \<open>Counting over a list of tasks in which one makes a turn.\<close>

definition count :: "('a \<Rightarrow> bool) \<Rightarrow> 'a list \<Rightarrow> nat" where
  "count P xs = length (filter P xs)"

lemma count_simps [simp]:
  "count P [] = 0" "count P (xs @ ys) = count P xs + count P ys"
  "count P (x # xs) = (if P x then 1 else 0) + count P xs"
  by (simp_all add: count_def)

lemma count_le: "count P xs \<le> length xs"
  by (simp add: count_def)

lemma count_mono: "(\<And>x. P x \<Longrightarrow> Q x) \<Longrightarrow> count P xs \<le> count Q xs"
  by (induction xs) auto

lemma count_update:
  assumes "i < length xs"
  shows "count P (xs[i := x]) + (if P (xs ! i) then 1 else 0) = count P xs + (if P x then 1 else 0)"
proof -
  have xs: "xs = take i xs @ xs ! i # drop (Suc i) xs" using assms by (rule id_take_nth_drop)
  have "count P (xs[i := x]) = count P (take i xs) + ((if P x then 1 else 0) + count P (drop (Suc i) xs))"
    using assms by (simp add: upd_conv_take_nth_drop)
  moreover have "count P xs = count P (take i xs) + ((if P (xs ! i) then 1 else 0) + count P (drop (Suc i) xs))"
    using arg_cong [OF xs, of "count P"] by (simp only: count_simps)
  ultimately show ?thesis by simp
qed

lemma count_lt: "i < length xs \<Longrightarrow> \<not> P (xs ! i) \<Longrightarrow> count P xs < length xs"
  unfolding count_def by (rule length_filter_less) auto

text \<open>
  Every failure counted is a task or an answer, and while the server runs fewer than ten answers are
  out; so the counter does not wrap with fewer than \<open>2 ^ 32 - 9\<close> requests in flight.
\<close>

definition guess_inv :: "nat \<Rightarrow> conc \<Rightarrow> bool" where
  "guess_inv K s \<longleftrightarrow>
     unat (ap_auth_failures (cs_app s)) = count is_401 (cs_done s) + count guessed (cs_tasks s) \<and>
     (\<not> ap_shutdown (cs_app s) \<longrightarrow>
        count is_401 (cs_done s) + count told (cs_tasks s) \<le> 9 \<and> length (cs_tasks s) \<le> K) \<and>
     count is_401 (cs_done s) + length (cs_tasks s) \<le> 9 + K"

lemma guess_inv_start: "guess_inv K (conc_start L cfg f)"
  by (simp add: guess_inv_def conc_start_def server_start_def)

lemma guess_inv_turn:
  assumes inv: "guess_inv K s" and K: "K + 10 \<le> 2 ^ 32" and i: "i < length (cs_tasks s)"
    and t: "task_next L answer (cs_tasks s ! i) (cs_app s) = Some (t, app)"
  shows "guess_inv K (s\<lparr>cs_app := app, cs_tasks := (cs_tasks s)[i := t]\<rparr>)"
proof -
  note g = count_update [OF i, of guessed t] and o = count_update [OF i, of told t]
  consider (bad) req where "cs_tasks s ! i = Arrived req" "bad_token L (cs_app s) req"
    | (fire) "cs_tasks s ! i = Counted"
    | (good) "cs_tasks s ! i \<noteq> Counted" "\<And>req. cs_tasks s ! i = Arrived req \<Longrightarrow> \<not> bad_token L (cs_app s) req"
    by blast
  then show ?thesis
  proof cases
    case bad
    let ?n = "count is_401 (cs_done s) + count guessed (cs_tasks s)"
    have lt: "count guessed (cs_tasks s) < length (cs_tasks s)"
      using count_lt [OF i, of guessed] bad(1) by simp
    have u: "unat (ap_auth_failures (cs_app s) + 1) = ?n + 1"
      using inv lt K unat_word_ariths(1) [of "ap_auth_failures (cs_app s)" 1] by (simp add: guess_inv_def)
    have app: "app = cs_app s\<lparr>ap_auth_failures := ap_auth_failures (cs_app s) + 1\<rparr>"
      and new: "t = (if 10 \<le> ?n + 1 then Counted else Answered (Inr (status 401)))"
      using t bad u by (auto simp: task_begin_def Let_def MAX_AUTH_FAILURES_def word_le_nat_alt split: if_splits)
    have g': "count guessed ((cs_tasks s)[i := t]) = count guessed (cs_tasks s) + 1"
      using g bad new by (auto simp: is_401_def)
    have "count told ((cs_tasks s)[i := t]) \<le> count guessed ((cs_tasks s)[i := t])"
      by (rule count_mono) (rule told_guessed)
    then have "count told ((cs_tasks s)[i := t]) \<le> (if 10 \<le> ?n + 1 then count told (cs_tasks s) else 9 - count is_401 (cs_done s))"
      using o bad new g' by auto
    then show ?thesis using inv u g' app by (auto simp: guess_inv_def split: if_splits)
  next
    case fire
    have t': "t = Answered (Inr (status 401))" and sh: "ap_shutdown app"
      and af: "ap_auth_failures app = ap_auth_failures (cs_app s)"
      using t fire by auto
    then show ?thesis using inv g fire by (auto simp: guess_inv_def is_401_def)
  next
    case good
    have "same_guard (cs_app s) app \<and> \<not> guessed t \<and> \<not> guessed (cs_tasks s ! i)"
      using good by (intro task_next_guard [OF t]) auto
    moreover from this have "\<not> told t" "\<not> told (cs_tasks s ! i)" by (auto dest: told_guessed)
    ultimately show ?thesis using inv g o by (simp add: guess_inv_def same_guard_def)
  qed
qed

lemma guess_inv_step:
  assumes "conc_step L K s s'" and "guess_inv K s" and "K + 10 \<le> 2 ^ 32"
  shows "guess_inv K s'"
  using assms
proof (cases rule: conc_step.cases)
  case (turn i answer t app)
  then show ?thesis using guess_inv_turn assms by blast
next
  case (reply before r after)
  then show ?thesis using assms(2) by (auto simp: guess_inv_def)
qed (auto simp: guess_inv_def sleep_over_def)

lemma guess_inv_reachable:
  assumes "(conc_step L K)\<^sup>*\<^sup>* s s'" and "guess_inv K s" and "K + 10 \<le> 2 ^ 32"
  shows "guess_inv K s'"
  using assms by (induction rule: rtranclp_induct) (auto intro: guess_inv_step)

lemma concurrent_guesses_bounded:
  assumes "(conc_step L K)\<^sup>*\<^sup>* (conc_start L cfg f) s" and "K + 10 \<le> 2 ^ 32"
  shows "length (filter is_401 (cs_done s)) \<le> 9 + K"
  using guess_inv_reachable [OF assms(1) guess_inv_start assms(2)]
  by (simp add: guess_inv_def count_def)

end
