(* ===== verification/B2P_Stack.thy ===== *)
theory B2P_Stack
  imports B2P_RelayNet
begin

text \<open>
  The whole relay path: two processes, each over a \<^verbatim>\<open>RelayChannel\<close> (src/src/transport/relay.rs) with its
  queue of outgoing messages and its I/O task, and the room between them. The channel's queue of
  incoming frames is what the task delivered and the process has not taken; it is not bounded here
  (64 frames in the source). A process that returns closes its channel. Connections do not fail and
  the watchdog does not fire.

  Every run of the stack is a run of \<open>net_step\<close>, in which messages go from process to process.
\<close>

section \<open>The stack\<close>

record ('s, 'a) stack =
  sk_sys :: "'s relay_system"
  sk_proc :: "role \<Rightarrow> 'a proc"
  sk_chan :: "role \<Rightarrow> relay_channel"
  sk_out :: "role \<Rightarrow> out_msg list"
    \<comment> \<open>sent by the process, not yet taken by the I/O task\<close>
  sk_got :: "role \<Rightarrow> nat"
    \<comment> \<open>how many of the delivered frames the process has taken\<close>
  sk_closed :: "role \<Rightarrow> bool"

text \<open>The watched values of the channel are those of its task.\<close>

definition chan_now :: "('s, 'a) stack \<Rightarrow> role \<Rightarrow> relay_channel" where
  "chan_now s r = (sk_chan s r)\<lparr>rc_dead := sy_end (sk_sys s) r, rc_open := sy_end (sk_sys s) r = None\<rparr>"

text \<open>What stays in the queue when the task has drained it: it stops at a close.\<close>

fun after_close :: "out_msg list \<Rightarrow> out_msg list" where
  "after_close [] = []"
| "after_close (OutFrame f # q) = after_close q"
| "after_close (OutClose # q) = q"

fun left_over :: "out_msg \<Rightarrow> out_msg list \<Rightarrow> out_msg list" where
  "left_over (OutFrame f) q = after_close q"
| "left_over OutClose q = q"

fun acked_by :: "io_out list \<Rightarrow> u64 \<Rightarrow> u64" where
  "acked_by [] n = n"
| "acked_by (SetAcked k # os) n = acked_by os k"
| "acked_by (_ # os) n = acked_by os n"

definition read_turn :: "json_parser \<Rightarrow> ('s \<Rightarrow> seats) \<Rightarrow> role \<Rightarrow> 's relay_system \<Rightarrow> io_out list" where
  "read_turn P view r s =
     fst (io_iter P (sy_io s r) (WsItem (Some (Inr (inbox (view (sy_room s)) r ! sy_seen s r))) None True))"

datatype move =
    MSend role
  | MRecv role
  | MClose role
  | MTake role
  | MTick role io_event
  | MRead role
  | MForward role

fun stack_act ::
  "json_parser \<Rightarrow> ('s \<Rightarrow> seats) \<Rightarrow> (role \<Rightarrow> ws_msg \<Rightarrow> 's \<Rightarrow> 's) \<Rightarrow> (role \<Rightarrow> 's \<Rightarrow> 's) \<Rightarrow>
   move \<Rightarrow> ('s, 'a) stack \<Rightarrow> ('s, 'a) stack option" where
  "stack_act P view fwd gone (MSend r) s =
     (case sk_proc s r of
        Send m k \<Rightarrow>
          map_option (\<lambda>(res, ch, out).
              s\<lparr>sk_proc := (sk_proc s)(r := k (case res of Inl e \<Rightarrow> Some e | Inr _ \<Rightarrow> None)),
                sk_chan := (sk_chan s)(r := ch),
                sk_out := (sk_out s)(r := sk_out s r @ (case out of Some x \<Rightarrow> [x] | None \<Rightarrow> []))\<rparr>)
            (relay_send (chan_now s r) m
              (case sy_end (sk_sys s) r of None \<Rightarrow> [] | Some reason \<Rightarrow> [AckClosed (Some reason)]))
      | _ \<Rightarrow> None)"
| "stack_act P view fwd gone (MRecv r) s =
     (case sk_proc s r of
        Recv k \<Rightarrow>
          if sk_got s r < length (sy_delivered (sk_sys s) r)
          then Some (s\<lparr>sk_proc := (sk_proc s)(r :=
                         k (relay_recv (chan_now s r) (Some (sy_delivered (sk_sys s) r ! sk_got s r)))),
                       sk_got := (sk_got s)(r := Suc (sk_got s r))\<rparr>)
          else if sy_end (sk_sys s) r \<noteq> None
          then Some (s\<lparr>sk_proc := (sk_proc s)(r := k (relay_recv (chan_now s r) None))\<rparr>)
          else None
      | _ \<Rightarrow> None)"
| "stack_act P view fwd gone (MClose r) s =
     (case sk_proc s r of
        Ret v \<Rightarrow>
          if sk_closed s r then None
          else Some (s\<lparr>sk_closed := (sk_closed s)(r := True),
                       sk_out := (sk_out s)(r := sk_out s r @
                         (case fst (relay_close (chan_now s r) []) of Some x \<Rightarrow> [x] | None \<Rightarrow> []))\<rparr>)
      | _ \<Rightarrow> None)"
| "stack_act P view fwd gone (MTake r) s =
     (case sk_out s r of
        [] \<Rightarrow> None
      | m # q \<Rightarrow>
          map_option (\<lambda>t. s\<lparr>sk_sys := t, sk_out := (sk_out s)(r := left_over m q)\<rparr>)
            (relay_act P view fwd gone (DoApp r (Some m) q) (sk_sys s)))"
| "stack_act P view fwd gone (MTick r ev) s =
     map_option (\<lambda>t. s\<lparr>sk_sys := t\<rparr>) (relay_act P view fwd gone (DoTick r ev) (sk_sys s))"
| "stack_act P view fwd gone (MRead r) s =
     map_option (\<lambda>t. s\<lparr>sk_sys := t, sk_chan := (sk_chan s)(r := (sk_chan s r)\<lparr>rc_acked :=
                         acked_by (read_turn P view r (sk_sys s)) (rc_acked (sk_chan s r))\<rparr>)\<rparr>)
       (relay_act P view fwd gone (DoRead r) (sk_sys s))"
| "stack_act P view fwd gone (MForward r) s =
     map_option (\<lambda>t. s\<lparr>sk_sys := t\<rparr>) (relay_act P view fwd gone (DoForward r) (sk_sys s))"

definition stack_step ::
  "json_parser \<Rightarrow> ('s \<Rightarrow> seats) \<Rightarrow> (role \<Rightarrow> ws_msg \<Rightarrow> 's \<Rightarrow> 's) \<Rightarrow> (role \<Rightarrow> 's \<Rightarrow> 's) \<Rightarrow>
   ('s, 'a) stack \<Rightarrow> ('s, 'a) stack \<Rightarrow> bool" where
  "stack_step P view fwd gone s t \<longleftrightarrow> (\<exists>m. stack_act P view fwd gone m s = Some t)"

definition stack_begin :: "('s \<Rightarrow> seats) \<Rightarrow> 's \<Rightarrow> (role \<Rightarrow> 'a proc) \<Rightarrow> ('s, 'a) stack" where
  "stack_begin view rm procs =
     \<lparr>sk_sys = relay_begin view rm, sk_proc = procs, sk_chan = (\<lambda>_. relay_spawn), sk_out = (\<lambda>_. []),
      sk_got = (\<lambda>_. 0), sk_closed = (\<lambda>_. False)\<rparr>"

section \<open>The same stack over the seats\<close>

text \<open>\<open>seat_stack\<close>: the stack with the room replaced by what it promises.\<close>

definition seat_stack :: "('s \<Rightarrow> seats) \<Rightarrow> ('s, 'a) stack \<Rightarrow> (seats, 'a) stack" where
  "seat_stack view s = \<lparr>sk_sys = on_seats view (sk_sys s), sk_proc = sk_proc s, sk_chan = sk_chan s,
     sk_out = sk_out s, sk_got = sk_got s, sk_closed = sk_closed s\<rparr>"

lemma seat_stack_sel [simp]:
  "sk_sys (seat_stack view s) = on_seats view (sk_sys s)" "sk_proc (seat_stack view s) = sk_proc s"
  "sk_chan (seat_stack view s) = sk_chan s" "sk_out (seat_stack view s) = sk_out s"
  "sk_got (seat_stack view s) = sk_got s" "sk_closed (seat_stack view s) = sk_closed s"
  by (simp_all add: seat_stack_def)

lemma seat_stack_eqI:
  "on_seats view (sk_sys s) = sk_sys t \<Longrightarrow> sk_proc s = sk_proc t \<Longrightarrow> sk_chan s = sk_chan t \<Longrightarrow>
   sk_out s = sk_out t \<Longrightarrow> sk_got s = sk_got t \<Longrightarrow> sk_closed s = sk_closed t \<Longrightarrow> seat_stack view s = t"
  by (simp add: seat_stack_def)

lemma seat_stack_begin: "seat_stack view (stack_begin view rm procs) = stack_begin (\<lambda>v. v) (view rm) procs"
  by (rule seat_stack_eqI) (simp_all add: stack_begin_def on_seats_begin)

lemma chan_now_seats [simp]: "chan_now (seat_stack view s) r = chan_now s r"
  by (simp add: chan_now_def)

lemma read_turn_seats [simp]: "read_turn P (\<lambda>v. v) r (on_seats view s) = read_turn P view r s"
  by (simp add: read_turn_def)

abbreviation seat_act ::
  "json_parser \<Rightarrow> action \<Rightarrow> seats relay_system \<Rightarrow> seats relay_system option" where
  "seat_act P \<equiv> relay_act P (\<lambda>v. v) seat_message seat_leave"

abbreviation seat_move ::
  "json_parser \<Rightarrow> move \<Rightarrow> (seats, 'a) stack \<Rightarrow> (seats, 'a) stack option" where
  "seat_move P \<equiv> stack_act P (\<lambda>v. v) seat_message seat_leave"

lemma on_seats_upd:
  "on_seats view (s\<lparr>sy_seen := x\<rparr>) = (on_seats view s)\<lparr>sy_seen := x\<rparr>"
  "on_seats view (s\<lparr>sy_queued := y\<rparr>) = (on_seats view s)\<lparr>sy_queued := y\<rparr>"
  by (simp_all add: on_seats_def)

context relay_room
begin

lemma act_seats:
  assumes ok: "ok (sy_room s)"
  shows "map_option (on_seats view) (relay_act P view (seat_fwd view message) (seat_gone view leave) a s) =
    seat_act P a (on_seats view s)"
proof (cases a)
  case (DoForward r)
  show ?thesis
  proof (cases "view (sy_room s) r")
    case (Some iq)
    then obtain i q where v: "view (sy_room s) r = Some (i, q)" by (cases iq) auto
    then show ?thesis
      using leaves [OF ok v] forwards [OF ok v]
      by (cases "sy_up s r") (auto simp: DoForward on_seats_def seat_fwd_def seat_gone_def)
  qed (simp add: DoForward)
qed (simp_all add: on_seats_turn on_seats_upd)

lemma act_ok:
  assumes ok: "ok (sy_room s)"
    and act: "relay_act P view (seat_fwd view message) (seat_gone view leave) a s = Some t"
  shows "ok (sy_room t)"
  using step_refines [OF ok relay_act_step [OF act]] by blast

lemma move_seats:
  assumes ok: "ok (sy_room (sk_sys s))"
  shows "map_option (seat_stack view) (stack_act P view (seat_fwd view message) (seat_gone view leave) m s) =
    seat_move P m (seat_stack view s)"
proof -
  have a: "seat_act P a (on_seats view (sk_sys s)) =
      map_option (on_seats view) (relay_act P view (seat_fwd view message) (seat_gone view leave) a (sk_sys s))" for a
    using act_seats [OF ok] by metis
  show ?thesis
    by (cases m) (auto simp: a option.map_comp comp_def seat_stack_def chan_now_def read_turn_def
        simp del: relay_act.simps split: proc.split list.split intro!: map_option_cong)
qed

lemma move_ok:
  assumes ok: "ok (sy_room (sk_sys s))"
    and act: "stack_act P view (seat_fwd view message) (seat_gone view leave) m s = Some t"
  shows "ok (sy_room (sk_sys t))"
  using act act_ok [OF ok]
  by (cases m) (auto simp: ok simp del: relay_act.simps split: proc.splits list.splits if_splits)

end

section \<open>What the turns of the tasks do\<close>

text \<open>Whether draining the queue from \<open>m\<close> on meets a close.\<close>

fun closes :: "out_msg \<Rightarrow> out_msg list \<Rightarrow> bool" where
  "closes (OutFrame f) q = snd (take_queued q)"
| "closes OutClose q = True"

lemma seat_take:
  assumes "seat_act P (DoApp r (Some m) q) s = Some t"
  shows "sy_end s r = None" "selecting (sy_io s r)"
    "t = s\<lparr>sy_queued := (sy_queued s)(r := sy_queued s r @ taken (Some m) q),
      sy_io := (sy_io s)(r := (sy_io s r)\<lparr>io_pending := taken (Some m) q, io_closing := closes m q\<rparr>)\<rparr>"
proof -
  show e: "sy_end s r = None" and sel: "selecting (sy_io s r)" using assms by (auto split: if_splits)
  have "io_iter P (sy_io s r) (AppOut (Some m) q) =
      ([], Inr ((sy_io s r)\<lparr>io_pending := taken (Some m) q, io_closing := closes m q\<rparr>))"
    using sel by (cases m; cases "take_queued q") (simp_all add: io_iter_def selecting_def)
  then show "t = s\<lparr>sy_queued := (sy_queued s)(r := sy_queued s r @ taken (Some m) q),
      sy_io := (sy_io s)(r := (sy_io s r)\<lparr>io_pending := taken (Some m) q, io_closing := closes m q\<rparr>)\<rparr>"
    using assms e sel by (auto simp: turn_def split: if_splits)
qed

lemma seat_tick:
  assumes "seat_act P (DoTick r ev) s = Some t"
  obtains (same) "t = s"
  | (flush) payload rest where "pack_frames (io_pending (sy_io s r)) = (Some payload, rest)"
      "t = s\<lparr>sy_up := (sy_up s)(r := sy_up s r @ [WsBinary payload]),
        sy_io := (sy_io s)(r := (sy_io s r)\<lparr>io_pending := rest\<rparr>)\<rparr>"
  | (ping) "t = s\<lparr>sy_up := (sy_up s)(r := sy_up s r @ [WsText PING])\<rparr>"
  | (bye) "io_pending (sy_io s r) = []" "io_closing (sy_io s r)"
      "t = s\<lparr>sy_up := (sy_up s)(r := sy_up s r @ [WsClose]), sy_end := (sy_end s)(r \<mapsto> closed_text)\<rparr>"
proof -
  have ev: "ev = Flushed None \<or> ev = PingDue True" and t: "t = turn r (io_iter P (sy_io s r) ev) s"
    using assms by (auto split: if_splits)
  show thesis
  proof (cases "pack_frames (io_pending (sy_io s r))")
    case (Pair pl rest)
    show thesis
    proof (cases pl)
      case None
      then have "io_pending (sy_io s r) = []" using Pair pack_frames_none by blast
      then show thesis using that ev t Pair None
        by (cases "io_closing (sy_io s r)") (auto simp: io_iter_def turn_def closed_text_def)
    next
      case (Some payload)
      then show thesis using that ev t Pair by (auto simp: io_iter_def turn_def)
    qed
  qed
qed

definition byte_total :: "bytes list \<Rightarrow> u64" where
  "byte_total fs = of_nat (sum_list (map length fs))"

lemma byte_total_simps [simp]: "byte_total [] = 0" "byte_total (f # fs) = of_nat (length f) + byte_total fs"
  "byte_total (fs @ gs) = byte_total fs + byte_total gs"
  by (simp_all add: byte_total_def)

lemma hand_over_total: "hand_over fs None c = (fs, c + byte_total fs, False)"
  by (induction fs arbitrary: c) (simp_all add: Let_def add.assoc)

text \<open>The binary message: frames to the process, and perhaps an acknowledgement of all consumed.\<close>

lemma io_binary_all:
  assumes "debatch_push (io_debatch io) b = (Inr frames, d)"
  obtains outs io' where "io_binary io b None True = (outs, Inr io')" "app_frames outs = frames"
    "io_debatch io' = d" "io_pending io' = io_pending io" "io_closing io' = io_closing io"
    "io_consumed io' = io_consumed io + byte_total frames" "acked_by outs = (\<lambda>n. n)"
    "ws_outs outs = [] \<and> io_acked_out io' = io_acked_out io \<or> ws_outs outs = [WsText (ack_text (io_acked_out io'))]"
proof -
  have ack: "acked_by (map ToApp fs @ map ToWs ms) = (\<lambda>n. n)" for fs ms
  proof -
    have "acked_by (map ToWs ms) n = n" for n by (induction ms) simp_all
    then have "acked_by (map ToApp fs @ map ToWs ms) n = n" for n by (induction fs) simp_all
    then show ?thesis by blast
  qed
  show thesis
    using that ack [of frames "[]"] ack [of frames "[WsText (ack_text (io_consumed io + byte_total frames))]"]
    by (cases "ACK_EVERY \<le> io_consumed io + byte_total frames - io_acked_out io")
      (auto simp: io_binary_def assms hand_over_total Let_def)
qed

lemma seat_read:
  assumes inv: "\<And>r. side s r" and P: "reads_controls P" and act: "seat_act P (DoRead r) s = Some t"
  defines "s1 \<equiv> s\<lparr>sy_seen := (sy_seen s)(r := Suc (sy_seen s r))\<rparr>"
  obtains (binary) b frames io' acks where "unread s r = WsBinary b # unread t r"
      "t = s1\<lparr>sy_io := (sy_io s)(r := io'), sy_up := (sy_up s)(r := sy_up s r @ acks),
        sy_delivered := (sy_delivered s)(r := sy_delivered s r @ frames)\<rparr>"
      "io_pending io' = io_pending (sy_io s r)" "io_closing io' = io_closing (sy_io s r)"
      "io_consumed io' = io_consumed (sy_io s r) + byte_total frames" "ack_inv io'"
      "acks = [] \<and> io_acked_out io' = io_acked_out (sy_io s r) \<or> acks = [WsText (ack_text (io_acked_out io'))]"
      "\<And>n. acked_by (read_turn P (\<lambda>v. v) r s) n = n"
  | (ack) n where "unread s r = WsText (ack_text n) # unread t r" "t = s1"
      "\<And>k. acked_by (read_turn P (\<lambda>v. v) r s) k = n"
  | (left) "unread s r = WsText PEER_LEFT # unread t r" "t = s1\<lparr>sy_end := (sy_end s)(r \<mapsto> left_text)\<rparr>"
      "\<And>n. acked_by (read_turn P (\<lambda>v. v) r s) n = n"
  | (skip) x where "unread s r = WsText x # unread t r" "x = PONG \<or> x = PEER_JOINED" "t = s1"
      "\<And>n. acked_by (read_turn P (\<lambda>v. v) r s) n = n"
proof -
  define m where "m = inbox (sy_room s) r ! sy_seen s r"
  have live: "sy_end s r = None" and sel: "selecting (sy_io s r)" and lt: "sy_seen s r < length (inbox (sy_room s) r)"
    and t: "t = turn r (io_iter P (sy_io s r) (WsItem (Some (Inr m)) None True)) s1"
    using act by (auto simp: m_def s1_def split: if_splits)
  have rt: "read_turn P (\<lambda>v. v) r s = fst (io_iter P (sy_io s r) (WsItem (Some (Inr m)) None True))"
    by (simp add: read_turn_def m_def)
  have ut: "unread t r = unread s1 r" unfolding t turn_def
    by (cases "snd (io_iter P (sy_io s r) (WsItem (Some (Inr m)) None True))") (simp_all add: unread_def Let_def)
  have u: "unread s r = m # unread t r"
    unfolding ut by (simp add: unread_def s1_def m_def Cons_nth_drop_Suc [OF lt])
  have ms: "room_msg m" and link: "link_inv (dir_link s (other r))"
    using inv [of r] live unfolding side_def u by auto
  consider (b) b where "m = WsBinary b" | (a) n where "m = WsText (ack_text n)" | (l) "m = WsText PEER_LEFT"
    | (o) x where "m = WsText x" "x = PONG \<or> x = PEER_JOINED"
    using ms by (auto simp: room_msg_def)
  then show thesis
  proof cases
    case b
    have "lk_wire (dir_link s (other r)) = b # bins (unread t r) @ bins (sy_up s (other r))"
      by (simp add: dir_link_def u b)
    from link_arrive_ok [OF link this] obtain frames d where
      push: "debatch_push (io_debatch (sy_io s r)) b = (Inr frames, d)" by (auto simp: dir_link_def)
    have e: "io_iter P (sy_io s r) (WsItem (Some (Inr m)) None True) = io_binary (sy_io s r) b None True"
      using sel by (simp add: b io_iter_def selecting_def)
    obtain outs io' where io: "io_binary (sy_io s r) b None True = (outs, Inr io')" "app_frames outs = frames"
      "io_pending io' = io_pending (sy_io s r)" "io_closing io' = io_closing (sy_io s r)"
      "io_consumed io' = io_consumed (sy_io s r) + byte_total frames" "acked_by outs = (\<lambda>n. n)"
      "ws_outs outs = [] \<and> io_acked_out io' = io_acked_out (sy_io s r) \<or> ws_outs outs = [WsText (ack_text (io_acked_out io'))]"
      using io_binary_all [OF push] by metis
    have "t = s1\<lparr>sy_io := (sy_io s)(r := io'), sy_up := (sy_up s)(r := sy_up s r @ ws_outs outs),
        sy_delivered := (sy_delivered s)(r := sy_delivered s r @ frames)\<rparr>"
      unfolding t e io(1) by (simp add: turn_def io(2) s1_def)
    moreover have "acked_by (read_turn P (\<lambda>v. v) r s) n = n" for n by (simp only: rt e io(1,6) fst_conv)
    ultimately show thesis using binary [OF _ _ io(3-5) ack_inv_binary [OF io(1)] io(7)] u b by simp
  next
    case a
    show thesis
      by (rule ack [of n]) (use u a t in \<open>simp_all add: rt io_iter_text [OF sel] reads_controls_parse [OF P] turn_def s1_def\<close>)
  next
    case l
    show thesis
      by (rule left) (use u l t in \<open>simp_all add: rt io_iter_text [OF sel] reads_controls_parse [OF P] turn_def s1_def\<close>)
  next
    case o
    show thesis
      by (rule skip [of x]) (use u o t in \<open>auto simp: rt io_iter_text [OF sel] reads_controls_parse [OF P] turn_def s1_def\<close>)
  qed
qed

text \<open>What a forwarded message becomes, and for whom.\<close>

definition fwd_to :: "role \<Rightarrow> ws_msg \<Rightarrow> role" where
  "fwd_to r m = (if m = WsText PING then r else other r)"

definition fwd_as :: "ws_msg \<Rightarrow> ws_msg" where
  "fwd_as m = (if m = WsText PING then WsText PONG else m)"

lemma live_seat: "side s r \<Longrightarrow> sy_end s r = None \<Longrightarrow> sy_room s r \<noteq> None \<and> sy_seen s r \<le> length (inbox (sy_room s) r)"
  by (auto simp: side_def)

lemma seat_forward:
  assumes inv: "\<And>r. side s r" and act: "seat_act P (DoForward r) s = Some t"
  obtains (data) m ms where "sy_up s r = m # ms" "client_msg m" "sy_room s r \<noteq> None"
      "t = s\<lparr>sy_room := seat_message r m (sy_room s), sy_up := (sy_up s)(r := ms)\<rparr>"
      "\<And>z. sy_end s z = None \<Longrightarrow> unread t z = unread s z @ (if z = fwd_to r m then [fwd_as m] else [])"
  | (leave) "sy_up s r = [] \<or> sy_up s r = [WsClose]" "sy_end s r \<noteq> None" "sy_room s r \<noteq> None"
      "t = s\<lparr>sy_room := seat_leave r (sy_room s), sy_up := (sy_up s)(r := [])\<rparr>"
      "sy_end s (other r) = None \<Longrightarrow> unread t (other r) = unread s (other r) @ [WsText PEER_LEFT]"
proof (cases "sy_up s r")
  case Nil
  then have e: "sy_end s r \<noteq> None" "sy_room s r \<noteq> None" and t: "t = s\<lparr>sy_room := seat_leave r (sy_room s)\<rparr>"
    using act by (auto split: if_splits)
  have t': "t = s\<lparr>sy_room := seat_leave r (sy_room s), sy_up := (sy_up s)(r := [])\<rparr>"
    unfolding t using fun_upd_triv [of "sy_up s" r] Nil by simp
  show thesis
    by (rule leave [OF _ e t']) (use Nil live_seat [OF inv, of "other r"] in \<open>auto simp: t unread_def seat_leave_def inbox_def tell_def\<close>)
next
  case (Cons m ms)
  have up: "up_ok (m # ms) (sy_end s r)" using inv [of r] Cons by (simp add: side_def)
  show thesis
  proof (cases "is_data m")
    case True
    have t: "t = s\<lparr>sy_room := seat_message r m (sy_room s), sy_up := (sy_up s)(r := ms)\<rparr>" and seat: "sy_room s r \<noteq> None"
      using act Cons True by (auto split: if_splits)
    have "client_msg m" using up_ok_tail [OF up True] by simp
    moreover have "unread t z = unread s z @ (if z = fwd_to r m then [fwd_as m] else [])" if "sy_end s z = None" for z
      using live_seat [OF inv that] by (auto simp: t unread_def seat_message_def fwd_to_def fwd_as_def)
    ultimately show thesis using data [OF Cons _ seat t] by blast
  next
    case False
    have w: "m = WsClose" "ms = []" "sy_end s r \<noteq> None"
      using up False by (auto simp: up_ok_def client_msg_def Cons_eq_append_conv)
    have t: "t = s\<lparr>sy_room := seat_leave r (sy_room s), sy_up := (sy_up s)(r := [])\<rparr>" "sy_room s r \<noteq> None"
      using act Cons False w by (auto split: if_splits)
    show thesis
      by (rule leave [OF _ w(3) t(2,1)]) (use Cons w live_seat [OF inv, of "other r"] in \<open>auto simp: t unread_def seat_leave_def inbox_def tell_def\<close>)
  qed
qed

section \<open>The invariant of the stack\<close>

fun frames_of :: "out_msg list \<Rightarrow> bytes list" where
  "frames_of [] = []"
| "frames_of (OutFrame f # q) = f # frames_of q"
| "frames_of (OutClose # q) = frames_of q"

lemma frames_of_simps [simp]:
  "frames_of (map OutFrame fs) = fs" "frames_of (q @ q') = frames_of q @ frames_of q'"
proof -
  show "frames_of (map OutFrame fs) = fs" by (induction fs) simp_all
  show "frames_of (q @ q') = frames_of q @ frames_of q'" by (induction q rule: frames_of.induct) simp_all
qed

text \<open>The queue of a channel holds frames, and at the end perhaps the close.\<close>

definition queue_shape :: "out_msg list \<Rightarrow> bool" where
  "queue_shape q \<longleftrightarrow> (\<exists>fs. q = map OutFrame fs \<or> q = map OutFrame fs @ [OutClose])"

lemma queue_shape_take:
  assumes "queue_shape (m # q)"
  shows "left_over m q = []" "taken (Some m) q = frames_of (m # q)" "closes m q \<longleftrightarrow> OutClose \<in> set (m # q)"
proof -
  have t: "take_queued (map OutFrame fs) = (fs, False)" "take_queued (map OutFrame fs @ [OutClose]) = (fs, True)"
    "after_close (map OutFrame fs) = []" "after_close (map OutFrame fs @ [OutClose]) = []" for fs
    by (induction fs) simp_all
  from assms obtain fs where "m # q = map OutFrame fs \<or> m # q = map OutFrame fs @ [OutClose]"
    unfolding queue_shape_def by (rule exE)
  then have "left_over m q = [] \<and> taken (Some m) q = frames_of (m # q) \<and> (closes m q \<longleftrightarrow> OutClose \<in> set (m # q))"
    by (cases fs) (auto simp: t)
  then show "left_over m q = []" "taken (Some m) q = frames_of (m # q)" "closes m q \<longleftrightarrow> OutClose \<in> set (m # q)"
    by blast+
qed

definition sent_by :: "('s, 'a) stack \<Rightarrow> role \<Rightarrow> bytes list" where
  "sent_by s r = sy_queued (sk_sys s) r @ frames_of (sk_out s r)"

definition returned :: "'a proc \<Rightarrow> bool" where
  "returned p \<longleftrightarrow> (\<exists>v. p = Ret v)"

definition app_ok :: "(seats, 'a) stack \<Rightarrow> role \<Rightarrow> bool" where
  "app_ok s r \<longleftrightarrow>
     sk_got s r \<le> length (sy_delivered (sk_sys s) r) \<and>
     (sk_closed s r \<longrightarrow> returned (sk_proc s r) \<and>
        (OutClose \<in> set (sk_out s r) \<or> io_closing (sy_io (sk_sys s) r) \<or> sy_end (sk_sys s) r \<noteq> None)) \<and>
     queue_shape (sk_out s r) \<and> (OutClose \<in> set (sk_out s r) \<longrightarrow> sk_closed s r) \<and>
     list_all (\<lambda>f. length f \<le> MAX_LOGICAL_FRAME) (frames_of (sk_out s r)) \<and>
     (io_closing (sy_io (sk_sys s) r) \<or> sy_end (sk_sys s) r = Some closed_text \<longrightarrow>
        sk_closed s r \<and> sk_out s r = [])"

text \<open>A client whose partner's seat is empty has the farewell before it.\<close>

definition farewell :: "seats relay_system \<Rightarrow> role \<Rightarrow> bool" where
  "farewell s r \<longleftrightarrow> (sy_end s r = None \<and> sy_room s (other r) = None \<longrightarrow> WsText PEER_LEFT \<in> set (unread s r))"

definition ack_of :: "json_parser \<Rightarrow> ws_msg \<Rightarrow> u64 list" where
  "ack_of P m =
     (case m of
        WsText t \<Rightarrow>
          if t = PING then [] else (case parse_control P t of Some (Ack n) \<Rightarrow> [n] | _ \<Rightarrow> [])
      | _ \<Rightarrow> [])"

definition acks_in :: "json_parser \<Rightarrow> ws_msg list \<Rightarrow> u64 list" where
  "acks_in P ms = concat (map (ack_of P) ms)"

lemma acks_in_simps [simp]:
  "acks_in P [] = []" "acks_in P (m # ms) = ack_of P m @ acks_in P ms"
  "acks_in P (ms @ ms') = acks_in P ms @ acks_in P ms'"
  by (simp_all add: acks_in_def)

lemma ack_of_simps:
  assumes "reads_controls P"
  shows "ack_of P (WsText (ack_text n)) = [n]" "ack_of P (WsText PEER_LEFT) = []" "ack_of P (WsText PONG) = []"
    "ack_of P (WsText PEER_JOINED) = []" "ack_of P (WsText PING) = []" "ack_of P (WsBinary b) = []"
    "ack_of P WsClose = []"
  using reads_controls_parse [OF assms] by (simp_all add: ack_of_def)

text \<open>
  Flow control: what was sent and consumed is counted, and the last acknowledgement, on its way or
  arrived, is the one the other task wrote last.
\<close>

definition flow_ok :: "json_parser \<Rightarrow> (seats, 'a) stack \<Rightarrow> role \<Rightarrow> bool" where
  "flow_ok P s r \<longleftrightarrow>
     (sy_end (sk_sys s) r = None \<longrightarrow> rc_sent (sk_chan s r) = byte_total (sent_by s r) \<and>
        last (rc_acked (sk_chan s r) # acks_in P (unread (sk_sys s) r) @ acks_in P (sy_up (sk_sys s) (other r))) =
          io_acked_out (sy_io (sk_sys s) (other r))) \<and>
     io_consumed (sy_io (sk_sys s) r) = byte_total (sy_delivered (sk_sys s) r) \<and> ack_inv (sy_io (sk_sys s) r)"

definition stack_inv :: "json_parser \<Rightarrow> (seats, 'a) stack \<Rightarrow> bool" where
  "stack_inv P s \<longleftrightarrow>
     (\<forall>r. side (sk_sys s) r \<and> farewell (sk_sys s) r \<and> app_ok s r \<and> flow_ok P s r)"

lemmas stack_inv_parts = app_ok_def farewell_def flow_ok_def

lemma stack_invI:
  assumes "\<And>x. side (sk_sys s) x" and "\<And>x. farewell (sk_sys s) x" and "\<And>x. app_ok s x" and "\<And>x. flow_ok P s x"
  shows "stack_inv P s"
  using assms by (simp add: stack_inv_def)

lemma stack_invD:
  assumes "stack_inv P s"
  shows "side (sk_sys s) x" "farewell (sk_sys s) x" "app_ok s x" "flow_ok P s x"
  using assms by (simp_all add: stack_inv_def)

lemma stack_inv_begin:
  assumes "\<And>r. v r \<noteq> None"
  shows "stack_inv P (stack_begin (\<lambda>v. v) v procs)"
proof (rule stack_invI)
  let ?s = "stack_begin (\<lambda>v. v) v procs"
  fix x
  show "side (sk_sys ?s) x" using side_begin [OF assms] by (simp add: stack_begin_def)
  show "farewell (sk_sys ?s) x" using assms [of "other x"] by (auto simp: farewell_def stack_begin_def relay_begin_def)
  show "app_ok ?s x" "flow_ok P ?s x"
    by (simp_all add: app_ok_def flow_ok_def sent_by_def stack_begin_def relay_begin_def queue_shape_def
        relay_spawn_def unread_def io_start_def ack_inv_def ACK_EVERY_def)
qed

lemma side_act: "reads_controls P \<Longrightarrow> seat_act P a s = Some t \<Longrightarrow> (\<And>r. side s r) \<Longrightarrow> side t x"
  using side_step [OF _ relay_act_step] by blast

lemma send_alive:
  assumes "relay_send (chan_now s r) m [] = Some (res, ch, out)" and "sy_end (sk_sys s) r = None"
  shows "(length m \<le> MAX_LOGICAL_FRAME \<and> res = Inr () \<and> out = Some (OutFrame m) \<and>
      ch = (chan_now s r)\<lparr>rc_sent := rc_sent (sk_chan s r) + of_nat (length m)\<rparr>) \<or>
    (MAX_LOGICAL_FRAME < length m \<and> (\<exists>e. res = Inl e) \<and> out = None \<and> ch = chan_now s r)"
  using assms by (auto simp: relay_send_def chan_now_def Let_def split: if_splits)

lemma send_ended:
  assumes "relay_send (chan_now s r) m ws = Some (res, ch, out)" and "sy_end (sk_sys s) r \<noteq> None"
  shows "(\<exists>e. res = Inl e) \<and> out = None"
proof (cases "length m \<le> MAX_LOGICAL_FRAME")
  case True
  have "rc_open (chan_now s r) = False" using assms(2) by (simp add: chan_now_def)
  then show ?thesis
    using assms(1) True window_loop_Inr [of "chan_now s r" "length m" ws]
    by (auto simp: relay_send_def Let_def split: option.splits prod.splits sum.splits if_splits)
qed (use assms(1) in \<open>auto simp: relay_send_def\<close>)

lemma app_running:
  assumes "app_ok s r" and "\<not> returned (sk_proc s r)"
  shows "\<not> sk_closed s r" "\<not> io_closing (sy_io (sk_sys s) r)" "sy_end (sk_sys s) r \<noteq> Some closed_text"
    "\<exists>fs. sk_out s r = map OutFrame fs"
  using assms by (auto simp: app_ok_def queue_shape_def)

lemma inv_send:
  assumes inv: "stack_inv P s" and act: "seat_move P (MSend r) s = Some t"
  shows "stack_inv P t"
proof -
  obtain m k where p: "sk_proc s r = Send m k" using act by (auto split: proc.splits)
  define ws where "ws = (case sy_end (sk_sys s) r of None \<Rightarrow> [] | Some reason \<Rightarrow> [AckClosed (Some reason)])"
  obtain res ch out where rs: "relay_send (chan_now s r) m ws = Some (res, ch, out)"
    and t: "t = s\<lparr>sk_proc := (sk_proc s)(r := k (case res of Inl e \<Rightarrow> Some e | Inr _ \<Rightarrow> None)),
        sk_chan := (sk_chan s)(r := ch),
        sk_out := (sk_out s)(r := sk_out s r @ (case out of Some x \<Rightarrow> [x] | None \<Rightarrow> []))\<rparr>"
    using act p by (auto simp: ws_def)
  note run = app_running [OF stack_invD(3) [OF inv], of r, unfolded p returned_def, simplified]
  obtain fs where fs: "sk_out s r = map OutFrame fs" using run(4) by blast
  have shape: "queue_shape (map OutFrame fs @ [OutFrame m])"
    unfolding queue_shape_def by (intro exI [of _ "fs @ [m]"]) simp
  show ?thesis
  proof (cases "sy_end (sk_sys s) r")
    case None
    then have c: "(length m \<le> MAX_LOGICAL_FRAME \<and> out = Some (OutFrame m) \<and>
        ch = (chan_now s r)\<lparr>rc_sent := rc_sent (sk_chan s r) + of_nat (length m)\<rparr>) \<or> (out = None \<and> ch = chan_now s r)"
      using send_alive [of s r m res ch out] rs by (auto simp: ws_def)
    show ?thesis
    proof (rule stack_invI)
      fix x
      show "side (sk_sys t) x" "farewell (sk_sys t) x" using stack_invD [OF inv] by (simp_all add: t)
      show "app_ok t x" using stack_invD(3) [OF inv, of x] c run(1-3) shape fs by (auto simp: t app_ok_def)
      show "flow_ok P t x" using stack_invD(4) [OF inv, of x] c
        by (auto simp: t flow_ok_def sent_by_def chan_now_def add.assoc)
    qed
  next
    case (Some reason)
    then have c: "out = None" using send_ended [OF rs] by simp
    show ?thesis
    proof (rule stack_invI)
      fix x
      show "side (sk_sys t) x" "farewell (sk_sys t) x" using stack_invD [OF inv] by (simp_all add: t)
      show "app_ok t x" using stack_invD(3) [OF inv, of x] c run by (auto simp: t app_ok_def)
      show "flow_ok P t x" using stack_invD(4) [OF inv, of x] c Some
        by (auto simp: t flow_ok_def sent_by_def)
    qed
  qed
qed

lemma inv_recv:
  assumes inv: "stack_inv P s" and act: "seat_move P (MRecv r) s = Some t"
  shows "stack_inv P t"
proof -
  obtain k where p: "sk_proc s r = Recv k" using act by (auto split: proc.splits)
  obtain q n where t: "t = s\<lparr>sk_proc := (sk_proc s)(r := q), sk_got := (sk_got s)(r := n)\<rparr>"
    and n: "n \<le> length (sy_delivered (sk_sys s) r)"
  proof (cases "sk_got s r < length (sy_delivered (sk_sys s) r)")
    case False
    have le: "sk_got s r \<le> length (sy_delivered (sk_sys s) r)" using stack_invD(3) [OF inv, of r] by (simp add: app_ok_def)
    have "t = s\<lparr>sk_proc := (sk_proc s)(r := k (relay_recv (chan_now s r) None))\<rparr>"
      using act p False by (auto split: if_splits)
    then show thesis by (intro that [where q = "k (relay_recv (chan_now s r) None)", OF _ le]) (cases s; simp)
  qed (use act p that [where n = "Suc (sk_got s r)"] in auto)
  note run = app_running [OF stack_invD(3) [OF inv], of r, unfolded p returned_def, simplified]
  show ?thesis
  proof (rule stack_invI)
    fix x
    show "side (sk_sys t) x" "farewell (sk_sys t) x" using stack_invD [OF inv] by (simp_all add: t)
    show "app_ok t x" using stack_invD(3) [OF inv, of x] n run by (auto simp: t app_ok_def)
    show "flow_ok P t x" using stack_invD(4) [OF inv, of x] by (simp add: t flow_ok_def sent_by_def)
  qed
qed

lemma inv_close:
  assumes inv: "stack_inv P s" and act: "seat_move P (MClose r) s = Some t"
  shows "stack_inv P t"
proof -
  obtain v where p: "sk_proc s r = Ret v" using act by (auto split: proc.splits)
  have nc: "\<not> sk_closed s r" and t: "t = s\<lparr>sk_closed := (sk_closed s)(r := True),
      sk_out := (sk_out s)(r := sk_out s r @ (if sy_end (sk_sys s) r = None then [OutClose] else []))\<rparr>"
    using act p by (auto simp: relay_close_def chan_now_def split: if_splits)
  note a = stack_invD(3) [OF inv]
  obtain fs where fs: "sk_out s r = map OutFrame fs" using a [of r] nc by (auto simp: app_ok_def queue_shape_def)
  have shape: "queue_shape (map OutFrame fs @ [OutClose])" unfolding queue_shape_def by blast
  show ?thesis
  proof (rule stack_invI)
    fix x
    show "side (sk_sys t) x" "farewell (sk_sys t) x" using stack_invD [OF inv] by (simp_all add: t)
    show "app_ok t x" using a [of x] nc p shape fs by (auto simp: t app_ok_def returned_def)
    show "flow_ok P t x" using stack_invD(4) [OF inv, of x] by (simp add: t flow_ok_def sent_by_def)
  qed
qed

lemma inv_take:
  assumes P: "reads_controls P" and inv: "stack_inv P s" and act: "seat_move P (MTake r) s = Some t"
  shows "stack_inv P t" "sent_by t = sent_by s"
proof -
  obtain m q y where out: "sk_out s r = m # q" and y: "seat_act P (DoApp r (Some m) q) (sk_sys s) = Some y"
    and t: "t = s\<lparr>sk_sys := y, sk_out := (sk_out s)(r := left_over m q)\<rparr>"
    using act by (auto split: list.splits simp del: relay_act.simps)
  note take = seat_take [OF y]
  have a: "app_ok s x" for x using stack_invD(3) [OF inv] .
  have sh: "left_over m q = []" "taken (Some m) q = frames_of (m # q)" "closes m q \<longleftrightarrow> OutClose \<in> set (m # q)"
    using queue_shape_take [of m q] a [of r] out by (auto simp: app_ok_def)
  have u: "unread y = unread (sk_sys s)" by (simp add: take(3) unread_def fun_eq_iff)
  show snt: "sent_by t = sent_by s" by (auto simp: t take(3) sent_by_def sh out fun_eq_iff)
  show "stack_inv P t"
  proof (rule stack_invI)
    fix x
    show "side (sk_sys t) x" using side_act [OF P y stack_invD(1) [OF inv]] by (simp add: t)
    show "farewell (sk_sys t) x" using stack_invD(2) [OF inv, of x] by (simp add: t farewell_def u) (simp add: take(3))
    show "app_ok t x"
      using a [of x] take(1,2) out by (auto simp: t take(3) app_ok_def sh selecting_def queue_shape_def)
    show "flow_ok P t x"
      using stack_invD(4) [OF inv, of x] unfolding flow_ok_def snt
      by (auto simp: t u) (auto simp: take(3) ack_inv_def)
  qed
qed

lemma inv_tick:
  assumes P: "reads_controls P" and inv: "stack_inv P s" and act: "seat_move P (MTick r ev) s = Some t"
  shows "stack_inv P t" "sent_by t = sent_by s"
proof -
  obtain y where y: "seat_act P (DoTick r ev) (sk_sys s) = Some y" and t: "t = s\<lparr>sk_sys := y\<rparr>"
    using act by (auto simp del: relay_act.simps)
  have live: "sy_end (sk_sys s) r = None" using y by (auto split: if_splits)
  obtain io ups e where y': "y = (sk_sys s)\<lparr>sy_io := (sy_io (sk_sys s))(r := io),
      sy_up := (sy_up (sk_sys s))(r := sy_up (sk_sys s) r @ ups), sy_end := (sy_end (sk_sys s))(r := e)\<rparr>"
    and io: "io_closing io = io_closing (sy_io (sk_sys s) r)" "io_consumed io = io_consumed (sy_io (sk_sys s) r)"
      "io_acked_out io = io_acked_out (sy_io (sk_sys s) r)"
    and e: "e = None \<or> e = Some closed_text \<and> io_closing io" and ups: "acks_in P ups = []"
    using y
  proof (cases rule: seat_tick)
    case same
    then show thesis using live by (intro that [where io = "sy_io (sk_sys s) r" and ups = "[]" and e = None]) (cases "sk_sys s"; auto)+
  next
    case (flush payload rest)
    then show thesis using live ack_of_simps [OF P]
      by (intro that [where io = "(sy_io (sk_sys s) r)\<lparr>io_pending := rest\<rparr>" and ups = "[WsBinary payload]" and e = None]) (cases "sk_sys s"; auto)+
  next
    case ping
    then show thesis using live ack_of_simps [OF P]
      by (intro that [where io = "sy_io (sk_sys s) r" and ups = "[WsText PING]" and e = None]) (cases "sk_sys s"; auto)+
  next
    case bye
    then show thesis using ack_of_simps [OF P]
      by (intro that [where io = "sy_io (sk_sys s) r" and ups = "[WsClose]" and e = "Some closed_text"]) (cases "sk_sys s"; auto)+
  qed
  have u: "unread y = unread (sk_sys s)" by (simp add: y' unread_def fun_eq_iff)
  show snt: "sent_by t = sent_by s" by (auto simp: t y' sent_by_def fun_eq_iff)
  show "stack_inv P t"
  proof (rule stack_invI)
    fix x
    show "side (sk_sys t) x" using side_act [OF P y stack_invD(1) [OF inv]] by (simp add: t)
    show "farewell (sk_sys t) x" using stack_invD(2) [OF inv, of x] live by (auto simp: t farewell_def u) (auto simp: y' split: if_splits)
    show "app_ok t x" using stack_invD(3) [OF inv, of x] e io(1) live by (auto simp: t y' app_ok_def)
    show "flow_ok P t x"
    proof (rule two_roles [where r = r])
      show "flow_ok P t r" using stack_invD(4) [OF inv, of r] live io unfolding flow_ok_def snt
        by (auto simp: t u) (auto simp: y' ack_inv_def)
      show "flow_ok P t (other r)" using stack_invD(4) [OF inv, of "other r"] io ups unfolding flow_ok_def snt
        by (auto simp: t u) (auto simp: y')
    qed
  qed
qed

lemma inv_frame_read:
  assumes P: "reads_controls P" and inv: "stack_inv P s" and act: "seat_move P (MRead r) s = Some t"
  shows "stack_inv P t" "sent_by t = sent_by s"
proof -
  obtain y where y: "seat_act P (DoRead r) (sk_sys s) = Some y"
    and t: "t = s\<lparr>sk_sys := y, sk_chan := (sk_chan s)(r := (sk_chan s r)\<lparr>rc_acked :=
       acked_by (read_turn P (\<lambda>v. v) r (sk_sys s)) (rc_acked (sk_chan s r))\<rparr>)\<rparr>"
    using act by (auto simp del: relay_act.simps)
  note i = stack_invD [OF inv]
  have live: "sy_end (sk_sys s) r = None" using y by (auto split: if_splits)
  obtain m io acks frames e where u: "unread (sk_sys s) r = m # unread y r"
    and y': "y = (sk_sys s)\<lparr>sy_seen := (sy_seen (sk_sys s))(r := Suc (sy_seen (sk_sys s) r)),
      sy_io := (sy_io (sk_sys s))(r := io), sy_up := (sy_up (sk_sys s))(r := sy_up (sk_sys s) r @ acks),
      sy_delivered := (sy_delivered (sk_sys s))(r := sy_delivered (sk_sys s) r @ frames),
      sy_end := (sy_end (sk_sys s))(r := e)\<rparr>"
    and io: "io_closing io = io_closing (sy_io (sk_sys s) r)"
      "io_consumed io = io_consumed (sy_io (sk_sys s) r) + byte_total frames" "ack_inv io"
    and acks: "acks = [] \<and> io_acked_out io = io_acked_out (sy_io (sk_sys s) r) \<or> acks = [WsText (ack_text (io_acked_out io))]"
    and e: "e = None \<and> m \<noteq> WsText PEER_LEFT \<or> e = Some left_text"
    and a: "\<And>k. acked_by (read_turn P (\<lambda>v. v) r (sk_sys s)) k = last (k # ack_of P m)"
    using i(1) P y
  proof (cases rule: seat_read)
    case (binary b frames io' acks)
    show thesis
      by (rule that [OF binary(1) _ binary(4-7), where e = None])
        (use binary live ack_of_simps [OF P] in \<open>(cases "sk_sys s"; auto)+\<close>)
  next
    case (ack n)
    show thesis
      by (rule that [OF ack(1), where io = "sy_io (sk_sys s) r" and acks = "[]" and frames = "[]" and e = None])
        (use ack live ack_of_simps [OF P] i(4) [of r] in \<open>(cases "sk_sys s"; auto simp: flow_ok_def)+\<close>)
  next
    case left
    show thesis
      by (rule that [OF left(1), where io = "sy_io (sk_sys s) r" and acks = "[]" and frames = "[]" and e = "Some left_text"])
        (use left live ack_of_simps [OF P] i(4) [of r] in \<open>(cases "sk_sys s"; auto simp: flow_ok_def)+\<close>)
  next
    case (skip x)
    show thesis
      by (rule that [OF skip(1), where io = "sy_io (sk_sys s) r" and acks = "[]" and frames = "[]" and e = None])
        (use skip live ack_of_simps [OF P] i(4) [of r] in \<open>(cases "sk_sys s"; auto simp: flow_ok_def room_texts)+\<close>)
  qed
  have uo: "unread y (other r) = unread (sk_sys s) (other r)" by (simp add: y' unread_def)
  show snt: "sent_by t = sent_by s" by (auto simp: t y' sent_by_def fun_eq_iff)
  show "stack_inv P t"
  proof (rule stack_invI)
    fix x
    show "side (sk_sys t) x" using side_act [OF P y i(1)] by (simp add: t)
    show "farewell (sk_sys t) x"
    proof (rule two_roles [where r = r])
      show "farewell (sk_sys t) r" using i(2) [of r] live e u by (auto simp: t farewell_def) (auto simp: y')
      show "farewell (sk_sys t) (other r)" using i(2) [of "other r"] by (simp add: t farewell_def uo) (simp add: y')
    qed
    show "app_ok t x" using i(3) [of x] e io(1) live by (auto simp: t y' app_ok_def)
    show "flow_ok P t x"
    proof (rule two_roles [where r = r])
      show "flow_ok P t r"
        using i(4) [of r] live io a unfolding flow_ok_def snt u
        by (auto simp: t) (auto simp: y')
      show "flow_ok P t (other r)"
        using i(4) [of "other r"] acks ack_of_simps(1) [OF P] unfolding flow_ok_def snt
        by (auto simp: t uo) (auto simp: y')
    qed
  qed
qed

lemma other_eq: "other x = r \<longleftrightarrow> x \<noteq> r" "x = other r \<longleftrightarrow> x \<noteq> r"
  by (cases x; cases r; simp)+

lemma inv_forward:
  assumes P: "reads_controls P" and inv: "stack_inv P s" and act: "seat_move P (MForward r) s = Some t"
  shows "stack_inv P t" "sent_by t = sent_by s"
proof -
  obtain y where y: "seat_act P (DoForward r) (sk_sys s) = Some y" and t: "t = s\<lparr>sk_sys := y\<rparr>"
    using act by (auto simp del: relay_act.simps)
  note i = stack_invD [OF inv]
  note acks = ack_of_simps [OF P]
  have same: "sy_end y = sy_end (sk_sys s) \<and> sy_io y = sy_io (sk_sys s) \<and> sy_delivered y = sy_delivered (sk_sys s) \<and>
      sy_queued y = sy_queued (sk_sys s)"
    using i(1) y by (cases rule: seat_forward) simp_all
  show snt: "sent_by t = sent_by s" using same by (auto simp: t sent_by_def fun_eq_iff)
  have "farewell y x \<and> (sy_end (sk_sys s) x = None \<longrightarrow>
      acks_in P (unread y x) @ acks_in P (sy_up y (other x)) =
      acks_in P (unread (sk_sys s) x) @ acks_in P (sy_up (sk_sys s) (other x)))" (is "_ \<and> (_ \<longrightarrow> ?same x)") for x
    using i(1) y
  proof (cases rule: seat_forward)
    case (data m ms)
    have none: "sy_room y z = None \<longleftrightarrow> sy_room (sk_sys s) z = None" for z
      by (simp add: data(4) seat_message_def)
    have "farewell y x" using i(2) [of x] data(5) [of x] same by (auto simp: farewell_def none)
    moreover have "?same x" if "sy_end (sk_sys s) x = None"
    proof (cases "x = r")
      case True
      then show ?thesis using acks(3) unfolding data(5) [OF that] by (auto simp: data(4) fwd_to_def fwd_as_def)
    next
      case False
      then have x: "x = other r" by (simp add: other_eq)
      show ?thesis using data(1) acks(5) unfolding data(5) [OF that] unfolding x
        by (auto simp: data(4) fwd_to_def fwd_as_def)
    qed
    ultimately show ?thesis by blast
  next
    case leave
    show ?thesis
    proof (cases "x = r")
      case True
      then show ?thesis using leave(2) same by (auto simp: farewell_def)
    next
      case False
      then have x: "x = other r" by (simp add: other_eq)
      have "farewell y x" unfolding x using leave(5) same by (auto simp: farewell_def)
      moreover have "sy_end (sk_sys s) x = None \<longrightarrow> ?same x"
        using leave(1,5) acks(2,7) unfolding x by (auto simp: leave(4))
      ultimately show ?thesis by blast
    qed
  qed
  note both = this
  show "stack_inv P t"
  proof (rule stack_invI)
    fix x
    show "side (sk_sys t) x" using side_act [OF P y i(1)] by (simp add: t)
    show "farewell (sk_sys t) x" using both [of x] by (simp add: t)
    show "app_ok t x" using i(3) [of x] same by (simp add: t app_ok_def)
    show "flow_ok P t x" using i(4) [of x] both [of x] same unfolding flow_ok_def snt by (simp add: t del: last.simps)
  qed
qed

lemma inv_move:
  assumes "reads_controls P" and "stack_inv P s" and "seat_move P m s = Some t"
  shows "stack_inv P t"
proof (cases m)
  case (MSend r)
  then show ?thesis using inv_send assms(2,3) by blast
next
  case (MRecv r)
  then show ?thesis using inv_recv assms(2,3) by blast
next
  case (MClose r)
  then show ?thesis using inv_close assms(2,3) by blast
next
  case (MTake r)
  then show ?thesis using inv_take(1) assms by blast
next
  case (MTick r ev)
  then show ?thesis using inv_tick(1) assms by blast
next
  case (MRead r)
  then show ?thesis using inv_frame_read(1) assms by blast
next
  case (MForward r)
  then show ?thesis using inv_forward(1) assms by blast
qed

end
