(* ===== verification/B2P_Through.thy ===== *)
theory B2P_Through
  imports B2P_Stack
begin

text \<open>
  The stack of \<open>B2P_Stack\<close> implements a message channel: every run of it is a run of \<open>net_step\<close>, with the
  error the relay channel gives after a farewell, and what \<open>net_step\<close> can do the stack can do too, after
  some turns of its tasks. So a conversation that always ends over a channel can always be ended over
  the relay, with the same results.
\<close>

section \<open>A net by roles\<close>

definition net_of :: "(role \<Rightarrow> 'a proc) \<Rightarrow> (role \<Rightarrow> bytes list) \<Rightarrow> ('a, 'a) net" where
  "net_of procs q = (procs Sender, procs Receiver, q Sender, q Receiver)"

lemma net_of_send:
  "procs r = Send m k \<Longrightarrow> net_step e (net_of procs q) (net_of (procs(r := k None)) (q(r := q r @ [m])))"
  by (cases r) (auto simp: net_of_def intro: net_step.intros)

lemma net_of_recv:
  "procs r = Recv k \<Longrightarrow> q (other r) = m # ms \<Longrightarrow>
   net_step e (net_of procs q) (net_of (procs(r := k (Inr m))) (q(other r := ms)))"
  by (cases r) (auto simp: net_of_def intro: net_step.intros)

lemma net_of_closed:
  "procs r = Recv k \<Longrightarrow> procs (other r) = Ret v \<Longrightarrow> q (other r) = [] \<Longrightarrow>
   net_step e (net_of procs q) (net_of (procs(r := k (Inl e))) q)"
  by (cases r) (auto simp: net_of_def intro: net_step.intros)

lemma net_of_cases:
  assumes "net_step e (net_of procs q) d"
  obtains (send) r m k where "procs r = Send m k" "d = net_of (procs(r := k None)) (q(r := q r @ [m]))"
  | (recv) r k m ms where "procs r = Recv k" "q (other r) = m # ms"
      "d = net_of (procs(r := k (Inr m))) (q(other r := ms))"
  | (closed) r k v where "procs r = Recv k" "procs (other r) = Ret v" "q (other r) = []"
      "d = net_of (procs(r := k (Inl e))) q"
  using assms unfolding net_of_def
proof cases
  case (left_send m k)
  then show thesis using send [of Sender m k] by (simp add: net_of_def)
next
  case (left_recv k m)
  then show thesis using recv [of Sender k m] by (simp add: net_of_def)
next
  case (left_closed k v)
  then show thesis using closed [of Sender k v] by (simp add: net_of_def)
next
  case (right_send m k)
  then show thesis using send [of Receiver m k] by (simp add: net_of_def)
next
  case (right_recv k m)
  then show thesis using recv [of Receiver k m] by (simp add: net_of_def)
next
  case (right_closed v k)
  then show thesis using closed [of Receiver k v] by (simp add: net_of_def)
qed

lemma net_of_eq: "(p, p', q, q') = net_of (case_role p' p) (case_role q' q)"
  by (simp add: net_of_def)

text \<open>A message to a process that has returned is never received.\<close>

lemma unread_stays:
  assumes "(net_step e)\<^sup>*\<^sup>* (net_of procs q) d" and "procs (other r) = Ret v" and "q r \<noteq> []"
  shows "\<exists>procs' q'. d = net_of procs' q' \<and> procs' (other r) = Ret v \<and> q' r \<noteq> []"
  using assms(1)
proof (induction rule: rtranclp_induct)
  case base
  then show ?case using assms(2,3) by blast
next
  case (step c d)
  then obtain procs' q' where c: "c = net_of procs' q'" "procs' (other r) = Ret v" "q' r \<noteq> []" by blast
  from step(2) [unfolded c(1)] show ?case
  proof (cases rule: net_of_cases)
    case (send x m k)
    show ?thesis unfolding send(2) by (intro exI conjI, rule refl) (use send(1) c(2,3) in auto)
  next
    case (recv x k m ms)
    have "x \<noteq> other r" using recv(1) c(2) by auto
    then have x: "x = r" by (simp add: other_eq)
    show ?thesis unfolding recv(3) by (intro exI conjI, rule refl) (use x c(2,3) in auto)
  next
    case (closed x k w)
    show ?thesis unfolding closed(4) by (intro exI conjI, rule refl) (use closed(1) c(2,3) in auto)
  qed
qed

lemma both_return_step:
  assumes "both_return e c a b" and "net_step e c d"
  shows "both_return e d a b"
proof -
  from assms(1) obtain n where n: "(net_step e ^^ n) c (Ret a, Ret b, [], [])"
    by (auto simp: both_return_def runs_to_def rtranclp_power)
  from net.strip [OF n Ret_final assms(2)] show ?thesis
    by (auto simp: both_return_def runs_to_def rtranclp_power)
qed

lemma no_send_to_returned:
  assumes "both_return e (net_of procs q) a b" and "procs r = Send m k"
  shows "\<not> returned (procs (other r))"
proof
  assume "returned (procs (other r))"
  then obtain v where v: "procs (other r) = Ret v" by (auto simp: returned_def)
  have "both_return e (net_of (procs(r := k None)) (q(r := q r @ [m]))) a b"
    by (rule both_return_step [OF assms(1) net_of_send [of procs r m k e q, OF assms(2)]])
  then have "(net_step e)\<^sup>*\<^sup>* (net_of (procs(r := k None)) (q(r := q r @ [m]))) (Ret a, Ret b, [], [])"
    by (simp add: both_return_def runs_to_def)
  from unread_stays [OF this, of r v] v show False by (cases r) (auto simp: net_of_def)
qed

text \<open>Every frame of the conversation fits the relay's limit.\<close>

definition fits :: "err \<Rightarrow> ('a, 'a) net \<Rightarrow> bool" where
  "fits e c \<longleftrightarrow> (\<forall>d. runs_to e c d \<longrightarrow> under_way (\<lambda>f. length f \<le> MAX_LOGICAL_FRAME) d)"

lemma said_fits: "said (\<lambda>f. length f \<le> MAX_LOGICAL_FRAME) e (p, q, [], []) a b \<Longrightarrow> fits e (p, q, [], [])"
  unfolding fits_def runs_to_def using said_always by fastforce

lemma fits_step: "fits e c \<Longrightarrow> net_step e c d \<Longrightarrow> fits e d"
  unfolding fits_def by (blast intro: runs_step)

lemma fits_net_of: "fits e (net_of procs q) \<Longrightarrow> list_all (\<lambda>f. length f \<le> MAX_LOGICAL_FRAME) (q r)"
  unfolding fits_def net_of_def by (cases r) (use runs_refl in fastforce)+

section \<open>Simulation\<close>

definition wire :: "('s, 'a) stack \<Rightarrow> role \<Rightarrow> bytes list" where
  "wire s r = drop (sk_got s (other r)) (sent_by s r)"

definition stack_net :: "('s, 'a) stack \<Rightarrow> ('a, 'a) net" where
  "stack_net s = net_of (sk_proc s) (wire s)"

definition relay_error :: err where
  "relay_error = lost left_text"

lemma side_prefix: "side s r \<Longrightarrow> prefix (sy_delivered s r) (sy_queued s (other r))"
  using link_inv_fifo(1) [of "dir_link s (other r)"]
  by (cases "sy_end s r = None") (simp_all add: side_def dir_link_def)

lemma got_sent:
  assumes "stack_inv P s"
  shows "sk_got s (other r) \<le> length (sent_by s r)"
    and "sk_got s r < length (sy_delivered (sk_sys s) r) \<Longrightarrow>
      wire s (other r) = sy_delivered (sk_sys s) r ! sk_got s r # drop (Suc (sk_got s r)) (sent_by s (other r))"
proof -
  have p: "prefix (sy_delivered (sk_sys s) x) (sent_by s (other x))" for x
    using side_prefix [OF stack_invD(1) [OF assms], of x] by (auto simp: sent_by_def prefix_def)
  have g: "sk_got s x \<le> length (sy_delivered (sk_sys s) x)" for x
    using stack_invD(3) [OF assms, of x] by (simp add: app_ok_def)
  show "sk_got s (other r) \<le> length (sent_by s r)"
    using g [of "other r"] prefix_length_le [OF p [of "other r"]] by simp
  assume lt: "sk_got s r < length (sy_delivered (sk_sys s) r)"
  obtain zs where zs: "sent_by s (other r) = sy_delivered (sk_sys s) r @ zs" using p [of r] by (auto simp: prefix_def)
  then have "sent_by s (other r) ! sk_got s r = sy_delivered (sk_sys s) r ! sk_got s r" using lt by (simp add: nth_append)
  then show "wire s (other r) = sy_delivered (sk_sys s) r ! sk_got s r # drop (Suc (sk_got s r)) (sent_by s (other r))"
    using lt zs Cons_nth_drop_Suc [of "sk_got s r" "sent_by s (other r)"] by (simp add: wire_def)
qed

text \<open>While its process runs, a task ends only because the other side has closed.\<close>

lemma running_end:
  assumes inv: "stack_inv P s" and run: "\<not> returned (sk_proc s r)" and ended: "sy_end (sk_sys s) r \<noteq> None"
  shows "sy_end (sk_sys s) r = Some left_text" "returned (sk_proc s (other r))"
    "sy_delivered (sk_sys s) r = sent_by s (other r)"
proof -
  note i = stack_invD [OF inv]
  show l: "sy_end (sk_sys s) r = Some left_text"
    using i(1) [of r] ended app_running(3) [OF i(3) run] by (auto simp: side_def)
  then have d: "sy_delivered (sk_sys s) r = sy_queued (sk_sys s) (other r)"
    and c: "sy_end (sk_sys s) (other r) = Some closed_text"
    using i(1) [of r] by (simp_all add: side_def)
  show "returned (sk_proc s (other r))" using i(3) [of "other r"] c by (simp add: app_ok_def)
  show "sy_delivered (sk_sys s) r = sent_by s (other r)" using i(3) [of "other r"] c d by (simp add: app_ok_def sent_by_def)
qed

lemma sim_send:
  assumes inv: "stack_inv P s" and ret: "both_return e (stack_net s) a b" and fit: "fits e (stack_net s)"
    and act: "seat_move P (MSend r) s = Some t"
  shows "net_step e (stack_net s) (stack_net t)"
proof -
  obtain m k where p: "sk_proc s r = Send m k" using act by (auto split: proc.splits)
  have run: "\<not> returned (sk_proc s r)" by (simp add: p returned_def)
  have live: "sy_end (sk_sys s) r = None"
    using running_end(2) [OF inv run] no_send_to_returned [OF ret [unfolded stack_net_def] p] by blast
  obtain res ch out where rs: "relay_send (chan_now s r) m [] = Some (res, ch, out)"
    and t: "t = s\<lparr>sk_proc := (sk_proc s)(r := k (case res of Inl e \<Rightarrow> Some e | Inr _ \<Rightarrow> None)),
        sk_chan := (sk_chan s)(r := ch),
        sk_out := (sk_out s)(r := sk_out s r @ (case out of Some x \<Rightarrow> [x] | None \<Rightarrow> []))\<rparr>"
    using act p live by auto
  note step = net_of_send [of "sk_proc s" r m k e "wire s", OF p]
  have "length m \<le> MAX_LOGICAL_FRAME"
    using fits_net_of [OF fits_step [OF fit [unfolded stack_net_def] step], of r] by simp
  then have c: "res = Inr ()" "out = Some (OutFrame m)" using send_alive [OF rs live] by auto
  have "sent_by t = (sent_by s)(r := sent_by s r @ [m])" by (auto simp: t c sent_by_def fun_eq_iff)
  then have "wire t = (wire s)(r := wire s r @ [m])"
    using got_sent(1) [OF inv, of r] by (auto simp: wire_def t fun_eq_iff)
  then show ?thesis using step by (simp add: stack_net_def t c)
qed

lemma sim_recv:
  assumes inv: "stack_inv P s" and act: "seat_move P (MRecv r) s = Some t"
  shows "net_step relay_error (stack_net s) (stack_net t)"
proof -
  obtain k where p: "sk_proc s r = Recv k" using act by (auto split: proc.splits)
  have run: "\<not> returned (sk_proc s r)" by (simp add: p returned_def)
  show ?thesis
  proof (cases "sk_got s r < length (sy_delivered (sk_sys s) r)")
    case True
    let ?m = "sy_delivered (sk_sys s) r ! sk_got s r"
    have t: "t = s\<lparr>sk_proc := (sk_proc s)(r := k (Inr ?m)), sk_got := (sk_got s)(r := Suc (sk_got s r))\<rparr>"
      using act p True by (auto simp: relay_recv_def ok_or_def)
    have "wire t = (wire s)(other r := drop (Suc (sk_got s r)) (sent_by s (other r)))"
    proof
      fix x
      show "wire t x = ((wire s)(other r := drop (Suc (sk_got s r)) (sent_by s (other r)))) x"
      proof (cases "x = r")
        case False
        then have x: "x = other r" by (simp add: other_eq)
        show ?thesis unfolding x by (simp add: wire_def t sent_by_def)
      qed (simp add: wire_def t sent_by_def)
    qed
    then show ?thesis
      using net_of_recv [of "sk_proc s" r k "wire s", OF p got_sent(2) [OF inv True], of relay_error] by (simp add: stack_net_def t)
  next
    case False
    then have e: "sy_end (sk_sys s) r \<noteq> None" and t: "t = s\<lparr>sk_proc := (sk_proc s)(r := k (relay_recv (chan_now s r) None))\<rparr>"
      using act p by (auto split: if_splits)
    note re = running_end [OF inv run e]
    obtain v where v: "sk_proc s (other r) = Ret v" using re(2) by (auto simp: returned_def)
    have w: "wire s (other r) = []" using False re(3) by (simp add: wire_def)
    have "relay_recv (chan_now s r) None = Inl relay_error"
      using re(1) by (simp add: relay_recv_def ok_or_def death_reason_def chan_now_def relay_error_def)
    moreover have "wire t = wire s" by (simp add: wire_def t sent_by_def fun_eq_iff)
    ultimately show ?thesis using net_of_closed [of "sk_proc s" r k v "wire s" relay_error, OF p v w] by (simp add: stack_net_def t)
  qed
qed

lemma sim_quiet:
  assumes P: "reads_controls P" and inv: "stack_inv P s" and act: "seat_move P m s = Some t"
    and m: "\<And>r. m \<noteq> MSend r" "\<And>r. m \<noteq> MRecv r"
  shows "stack_net t = stack_net s" "sk_proc t = sk_proc s"
proof -
  have "sk_proc t = sk_proc s \<and> sk_got t = sk_got s"
    using act m by (cases m) (auto split: proc.splits list.splits if_splits simp del: relay_act.simps)
  moreover have "sent_by t = sent_by s"
  proof (cases m)
    case (MClose r)
    then show ?thesis using act
      by (auto simp: sent_by_def relay_close_def fun_eq_iff split: proc.splits if_splits)
  next
    case (MTake r)
    then show ?thesis using inv_take(2) [OF P inv] act by blast
  next
    case (MTick r ev)
    then show ?thesis using inv_tick(2) [OF P inv] act by blast
  next
    case (MRead r)
    then show ?thesis using inv_frame_read(2) [OF P inv] act by blast
  next
    case (MForward r)
    then show ?thesis using inv_forward(2) [OF P inv] act by blast
  qed (use m in auto)
  moreover from calculation have "wire t = wire s" by (simp add: wire_def fun_eq_iff)
  ultimately show "stack_net t = stack_net s" "sk_proc t = sk_proc s" by (simp_all add: stack_net_def)
qed

end
