(* ===== verification/B2P_Drain.thy ===== *)
theory B2P_Drain
  imports B2P_Through
begin

text \<open>
  The stack does not get stuck: turns of the I/O tasks and of the room use up what is on its way (a
  measure goes down), and when nothing is left a send finds the window open, a receive finds its
  message, and a receive from a peer that closed finds the farewell.
\<close>

section \<open>What is on its way\<close>

definition up_weight :: "ws_msg \<Rightarrow> nat" where
  "up_weight m = (case m of WsBinary _ \<Rightarrow> 4 | _ \<Rightarrow> 2)"

definition in_weight :: "ws_msg \<Rightarrow> nat" where
  "in_weight m = (case m of WsBinary _ \<Rightarrow> 3 | _ \<Rightarrow> 1)"

definition bulk :: "bytes list \<Rightarrow> nat" where
  "bulk fs = sum_list (map (\<lambda>f. length f + 1) fs)"

definition seat_load :: "seats relay_system \<Rightarrow> role \<Rightarrow> nat" where
  "seat_load s r = (if sy_room s r = None then 0 else 2)"

definition close_load :: "seats relay_system \<Rightarrow> role \<Rightarrow> nat" where
  "close_load s r = (if io_closing (sy_io s r) then 3 else 0)"

definition task_load :: "seats relay_system \<Rightarrow> role \<Rightarrow> nat" where
  "task_load s r = 5 * bulk (io_pending (sy_io s r)) + sum_list (map up_weight (sy_up s r)) +
     (if sy_end s r = None
      then sum_list (map in_weight (unread s r)) + close_load s r else 0) + seat_load s r"

lemma task_load_live: "sy_end s r = None \<Longrightarrow> task_load s r = 5 * bulk (io_pending (sy_io s r)) +
    sum_list (map up_weight (sy_up s r)) + sum_list (map in_weight (unread s r)) + close_load s r + seat_load s r"
  by (simp add: task_load_def)

lemma task_load_ended: "sy_end s r \<noteq> None \<Longrightarrow> task_load s r = 5 * bulk (io_pending (sy_io s r)) +
    sum_list (map up_weight (sy_up s r)) + seat_load s r"
  by (auto simp: task_load_def)

lemma task_load_same:
  "sy_io t r = sy_io s r \<Longrightarrow> sy_up t r = sy_up s r \<Longrightarrow> sy_end t r = sy_end s r \<Longrightarrow>
   (sy_room t r = None \<longleftrightarrow> sy_room s r = None) \<Longrightarrow> (sy_end s r = None \<Longrightarrow> unread t r = unread s r) \<Longrightarrow>
   task_load t r = task_load s r"
  by (simp add: task_load_def close_load_def seat_load_def)

definition role_load :: "(seats, 'a) stack \<Rightarrow> role \<Rightarrow> nat" where
  "role_load s r = 6 * bulk (frames_of (sk_out s r)) + (if OutClose \<in> set (sk_out s r) then 4 else 0) +
     task_load (sk_sys s) r"

definition load :: "(seats, 'a) stack \<Rightarrow> nat" where
  "load s = role_load s Sender + role_load s Receiver"

lemma load_roles: "load s = role_load s r + role_load s (other r)"
  by (cases r) (simp_all add: load_def)

lemma bulk_simps [simp]: "bulk [] = 0" "bulk (f # fs) = length f + 1 + bulk fs"
  by (simp_all add: bulk_def)

lemma drain_take:
  assumes inv: "stack_inv P s" and act: "seat_move P (MTake r) s = Some t"
  shows "load t < load s"
proof -
  obtain m q y where out: "sk_out s r = m # q" and y: "seat_act P (DoApp r (Some m) q) (sk_sys s) = Some y"
    and t: "t = s\<lparr>sk_sys := y, sk_out := (sk_out s)(r := left_over m q)\<rparr>"
    using act by (auto split: list.splits simp del: relay_act.simps)
  note take = seat_take [OF y]
  have sh: "left_over m q = []" "taken (Some m) q = frames_of (m # q)" "closes m q \<longleftrightarrow> OutClose \<in> set (m # q)"
    using queue_shape_take [of m q] stack_invD(3) [OF inv, of r] out by (auto simp: app_ok_def)
  have u: "unread y = unread (sk_sys s)" by (simp add: take(3) unread_def fun_eq_iff)
  have "task_load y (other r) = task_load (sk_sys s) (other r)"
    by (rule task_load_same) (simp_all add: u, simp_all add: take(3))
  then have "role_load t (other r) = role_load s (other r)" by (simp add: role_load_def t)
  moreover have "task_load y r = task_load (sk_sys s) r + 5 * bulk (frames_of (m # q)) +
      (if OutClose \<in> set (m # q) then 3 else 0)"
  proof -
    have e: "sy_end y r = None" and io: "io_pending (sy_io y r) = frames_of (m # q)" "sy_up y r = sy_up (sk_sys s) r"
      "close_load y r = (if OutClose \<in> set (m # q) then 3 else 0)" "seat_load y r = seat_load (sk_sys s) r"
      using take(1) by (simp_all add: take(3) sh(2,3) close_load_def seat_load_def)
    show ?thesis unfolding task_load_live [OF take(1)] task_load_live [OF e] io u
      using take(2) by (simp add: selecting_def close_load_def)
  qed
  moreover have "0 < bulk (frames_of (m # q)) \<or> OutClose \<in> set (m # q)" by (cases m) auto
  ultimately show ?thesis unfolding load_roles [of _ r] by (auto simp: role_load_def t sh(1) out)
qed

lemma drain_tick:
  assumes act: "seat_move P (MTick r (Flushed None)) s = Some t"
    and busy: "io_pending (sy_io (sk_sys s) r) \<noteq> [] \<or> io_closing (sy_io (sk_sys s) r)"
  shows "load t < load s"
proof -
  obtain y where y: "seat_act P (DoTick r (Flushed None)) (sk_sys s) = Some y" and t: "t = s\<lparr>sk_sys := y\<rparr>"
    using act by (auto simp del: relay_act.simps)
  have live: "sy_end (sk_sys s) r = None" and yt: "y = turn r (io_iter P (sy_io (sk_sys s) r) (Flushed None)) (sk_sys s)"
    using y by (auto split: if_splits)
  have "task_load y (other r) = task_load (sk_sys s) (other r) \<and> task_load y r < task_load (sk_sys s) r"
  proof (cases "pack_frames (io_pending (sy_io (sk_sys s) r))")
    case (Pair p rest)
    show ?thesis
    proof (cases p)
      case None
      then have "io_pending (sy_io (sk_sys s) r) = []" using Pair pack_frames_none by blast
      then show ?thesis using busy live by (simp add: yt io_iter_def turn_def task_load_def close_load_def seat_load_def unread_def up_weight_def)
    next
      case (Some payload)
      then have "bulk rest < bulk (io_pending (sy_io (sk_sys s) r))"
        using Pair pack_frames_decreases by (simp add: bulk_def)
      then show ?thesis using live Pair Some by (simp add: yt io_iter_def turn_def task_load_def close_load_def seat_load_def unread_def up_weight_def)
    qed
  qed
  then show ?thesis unfolding load_roles [of _ r] by (simp add: role_load_def t)
qed

lemma drain_read:
  assumes P: "reads_controls P" and inv: "stack_inv P s" and act: "seat_move P (MRead r) s = Some t"
  shows "load t < load s"
proof -
  obtain y where y: "seat_act P (DoRead r) (sk_sys s) = Some y" and t: "sk_sys t = y" "sk_out t = sk_out s"
    using act by (auto simp del: relay_act.simps)
  have live: "sy_end (sk_sys s) r = None" using y by (auto split: if_splits)
  note pre = task_load_live [OF live]
  have oth: "task_load y (other r) = task_load (sk_sys s) (other r)"
    using stack_invD(1) [OF inv] P y by (cases rule: seat_read) (auto intro!: task_load_same simp: unread_def)
  have "task_load y r < task_load (sk_sys s) r"
    using stack_invD(1) [OF inv] P y
  proof (cases rule: seat_read)
    case (binary b frames io' acks)
    have e: "sy_end y r = None" and y': "sy_io y r = io'" "sy_up y r = sy_up (sk_sys s) r @ acks"
      "seat_load y r = seat_load (sk_sys s) r" "close_load y r = close_load (sk_sys s) r"
      using live binary(4) by (simp_all add: binary(2) seat_load_def close_load_def)
    have "sum_list (map up_weight acks) \<le> 2" using binary(7) by (auto simp: up_weight_def)
    then show ?thesis unfolding pre task_load_live [OF e] y' binary(1,3) by (simp add: in_weight_def)
  next
    case (ack n)
    have e: "sy_end y r = None" and y': "sy_io y r = sy_io (sk_sys s) r" "sy_up y r = sy_up (sk_sys s) r"
      "seat_load y r = seat_load (sk_sys s) r" "close_load y r = close_load (sk_sys s) r"
      using live by (simp_all add: ack(2) seat_load_def close_load_def)
    show ?thesis unfolding pre task_load_live [OF e] y' ack(1) by (simp add: in_weight_def)
  next
    case left
    have e: "sy_end y r \<noteq> None" and y': "sy_io y r = sy_io (sk_sys s) r" "sy_up y r = sy_up (sk_sys s) r"
      "seat_load y r = seat_load (sk_sys s) r"
      by (simp_all add: left(2) seat_load_def)
    show ?thesis unfolding pre task_load_ended [OF e] y' left(1) by (simp add: in_weight_def)
  next
    case (skip x)
    have e: "sy_end y r = None" and y': "sy_io y r = sy_io (sk_sys s) r" "sy_up y r = sy_up (sk_sys s) r"
      "seat_load y r = seat_load (sk_sys s) r" "close_load y r = close_load (sk_sys s) r"
      using live by (simp_all add: skip(3) seat_load_def close_load_def)
    show ?thesis unfolding pre task_load_live [OF e] y' skip(1) by (simp add: in_weight_def)
  qed
  then show ?thesis using oth unfolding load_roles [of _ r] by (simp add: role_load_def t)
qed

lemma fwd_weight: "in_weight (fwd_as m) < up_weight m"
  by (simp add: fwd_as_def in_weight_def up_weight_def split: ws_msg.split)

text \<open>The part of the load a message to \<open>z\<close> adds to.\<close>

definition inbound :: "seats relay_system \<Rightarrow> role \<Rightarrow> nat" where
  "inbound s r = (if sy_end s r = None then sum_list (map in_weight (unread s r)) else 0)"

lemma task_load_inbound: "task_load s r = 5 * bulk (io_pending (sy_io s r)) + sum_list (map up_weight (sy_up s r)) +
    inbound s r + (if sy_end s r = None then close_load s r else 0) + seat_load s r"
  by (simp add: task_load_def inbound_def)

lemma drain_forward:
  assumes inv: "stack_inv P s" and act: "seat_move P (MForward r) s = Some t"
  shows "load t < load s"
proof -
  obtain y where y: "seat_act P (DoForward r) (sk_sys s) = Some y" and t: "t = s\<lparr>sk_sys := y\<rparr>"
    using act by (auto simp del: relay_act.simps)
  have "task_load y r + task_load y (other r) < task_load (sk_sys s) r + task_load (sk_sys s) (other r)"
    using stack_invD(1) [OF inv] y
  proof (cases rule: seat_forward)
    case (data m ms)
    have y': "sy_end y = sy_end (sk_sys s)" "sy_io y = sy_io (sk_sys s)" "sy_up y r = ms"
      "sy_up y (other r) = sy_up (sk_sys s) (other r)" "seat_load y = seat_load (sk_sys s)"
      "close_load y = close_load (sk_sys s)"
      by (simp_all add: data(4) seat_load_def close_load_def seat_message_def fun_eq_iff)
    have w: "inbound y z \<le> inbound (sk_sys s) z + (if z = fwd_to r m then in_weight (fwd_as m) else 0)" for z
      using data(5) [of z] by (auto simp: inbound_def y'(1))
    have "inbound y r + inbound y (other r) \<le> inbound (sk_sys s) r + inbound (sk_sys s) (other r) + in_weight (fwd_as m)"
      using w [of r] w [of "other r"] by (auto simp: fwd_to_def split: if_splits)
    then show ?thesis unfolding task_load_inbound y' data(1) using fwd_weight [of m] by simp
  next
    case leave
    have y': "sy_end y = sy_end (sk_sys s)" "sy_io y = sy_io (sk_sys s)" "sy_up y r = []"
      "sy_up y (other r) = sy_up (sk_sys s) (other r)" "seat_load y (other r) = seat_load (sk_sys s) (other r)"
      "seat_load y r = 0" "close_load y = close_load (sk_sys s)"
      by (simp_all add: leave(4) seat_load_def close_load_def fun_eq_iff)
    have "inbound y (other r) \<le> inbound (sk_sys s) (other r) + 1"
      using leave(5) by (auto simp: inbound_def y'(1) in_weight_def)
    moreover have "inbound y r = 0" "inbound (sk_sys s) r = 0" using leave(2) by (auto simp: inbound_def y'(1))
    moreover have "seat_load (sk_sys s) r = 2" using leave(3) by (simp add: seat_load_def)
    ultimately show ?thesis unfolding task_load_inbound y' by simp
  qed
  then show ?thesis unfolding load_roles [of _ r] by (simp add: role_load_def t)
qed

section \<open>Draining\<close>

definition quiet :: "(seats, 'a) stack \<Rightarrow> role \<Rightarrow> bool" where
  "quiet s r \<longleftrightarrow> sy_up (sk_sys s) r = [] \<and>
     (if sy_end (sk_sys s) r = None
      then io_pending (sy_io (sk_sys s) r) = [] \<and> \<not> io_closing (sy_io (sk_sys s) r) \<and> sk_out s r = [] \<and>
        unread (sk_sys s) r = []
      else sy_room (sk_sys s) r = None)"

text \<open>Which turn there is when the side \<open>r\<close> is not quiet.\<close>

lemma can_forward:
  assumes "side s r" and "sy_up s r \<noteq> [] \<or> sy_end s r \<noteq> None \<and> sy_room s r \<noteq> None"
  shows "\<exists>t. seat_act P (DoForward r) s = Some t"
proof (cases "sy_up s r")
  case Nil
  then show ?thesis using assms by auto
next
  case (Cons m ms)
  then have "up_ok (m # ms) (sy_end s r)" "sy_room s r \<noteq> None" using assms(1) by (auto simp: side_def)
  then have "is_data m \<or> m = WsClose" "sy_room s r \<noteq> None"
    by (auto simp: up_ok_def client_msg_def Cons_eq_append_conv)
  then show ?thesis using Cons by auto
qed

lemma can_take:
  assumes "app_ok s r" and "sy_end (sk_sys s) r = None" and "selecting (sy_io (sk_sys s) r)" and "sk_out s r \<noteq> []"
  shows "\<exists>t. seat_move P (MTake r) s = Some t"
proof -
  obtain m q where mq: "sk_out s r = m # q" using assms(4) by (cases "sk_out s r") auto
  then have "list_all (\<lambda>f. length f \<le> MAX_LOGICAL_FRAME) (taken (Some m) q)"
    using assms(1) queue_shape_take(2) [of m q] by (simp add: app_ok_def)
  then show ?thesis using assms(2,3) mq by simp
qed

lemma drain_step:
  assumes P: "reads_controls P" and inv: "stack_inv P s" and busy: "\<not> quiet s r"
  shows "\<exists>m t. seat_move P m s = Some t \<and> load t < load s \<and> (\<forall>r. m \<noteq> MSend r \<and> m \<noteq> MRecv r \<and> m \<noteq> MClose r)"
proof (cases "sy_up (sk_sys s) r \<noteq> [] \<or> sy_end (sk_sys s) r \<noteq> None \<and> sy_room (sk_sys s) r \<noteq> None")
  case True
  from can_forward [OF stack_invD(1) [OF inv] this, of P] obtain t where "seat_move P (MForward r) s = Some t"
    by (auto simp del: relay_act.simps)
  then show ?thesis using drain_forward [OF inv] by blast
next
  case False
  let ?io = "sy_io (sk_sys s) r"
  have live: "sy_end (sk_sys s) r = None" using False busy by (cases "sy_end (sk_sys s) r") (auto simp: quiet_def)
  show ?thesis
  proof (cases "selecting ?io")
    case no: False
    obtain t where t: "seat_move P (MTick r (Flushed None)) s = Some t" using live by simp
    have "load t < load s" using no by (intro drain_tick [OF t]) (auto simp: selecting_def)
    then show ?thesis using t by (intro exI [of _ "MTick r (Flushed None)"] exI [of _ t]) (simp del: stack_act.simps)
  next
    case sel: True
    show ?thesis
    proof (cases "sk_out s r = []")
      case no: False
      then show ?thesis using can_take [OF stack_invD(3) [OF inv] live sel] drain_take [OF inv] by blast
    next
      case True
      then have "unread (sk_sys s) r \<noteq> []" using busy live sel False by (auto simp: quiet_def selecting_def)
      then have "sy_seen (sk_sys s) r < length (inbox (sy_room (sk_sys s)) r)" by (simp add: unread_def)
      then have "\<exists>t. seat_move P (MRead r) s = Some t" using live sel by simp
      then show ?thesis using drain_read [OF P inv] by blast
    qed
  qed
qed

abbreviation seat_step :: "json_parser \<Rightarrow> (seats, 'a) stack \<Rightarrow> (seats, 'a) stack \<Rightarrow> bool" where
  "seat_step P \<equiv> stack_step P (\<lambda>v. v) seat_message seat_leave"

lemma io_moves_keep:
  "seat_move P m s = Some t \<Longrightarrow> (\<forall>r. m \<noteq> MSend r \<and> m \<noteq> MRecv r \<and> m \<noteq> MClose r) \<Longrightarrow> sk_closed t = sk_closed s"
  by (cases m) (auto split: list.splits simp del: relay_act.simps)

lemma drained:
  assumes P: "reads_controls P" and inv: "stack_inv P s"
  shows "\<exists>t. (seat_step P)\<^sup>*\<^sup>* s t \<and> stack_inv P t \<and> (\<forall>r. quiet t r) \<and> stack_net t = stack_net s \<and>
    sk_proc t = sk_proc s \<and> sk_closed t = sk_closed s"
  using inv
proof (induction "load s" arbitrary: s rule: less_induct)
  case less
  show ?case
  proof (cases "\<forall>r. quiet s r")
    case True
    then show ?thesis using less.prems by blast
  next
    case False
    then obtain r where "\<not> quiet s r" by blast
    from drain_step [OF P less.prems this] obtain m y where y: "seat_move P m s = Some y" "load y < load s"
      and m: "\<forall>r. m \<noteq> MSend r \<and> m \<noteq> MRecv r \<and> m \<noteq> MClose r" by blast
    have same: "stack_net y = stack_net s" "sk_proc y = sk_proc s" using sim_quiet [OF P less.prems y(1)] m by auto
    obtain t where "(seat_step P)\<^sup>*\<^sup>* y t" "stack_inv P t" "\<forall>r. quiet t r" "stack_net t = stack_net y"
      "sk_proc t = sk_proc y" "sk_closed t = sk_closed y"
      using less.hyps [OF y(2) inv_move [OF P less.prems y(1)]] by blast
    moreover have "seat_step P s y" using y(1) by (auto simp: stack_step_def)
    ultimately show ?thesis using same io_moves_keep [OF y(1) m] by (metis converse_rtranclp_into_rtranclp)
  qed
qed

section \<open>Progress\<close>

lemma quiet_delivered:
  assumes inv: "stack_inv P s" and q: "\<And>r. quiet s r" and run: "\<not> returned (sk_proc s r)"
  shows "sy_delivered (sk_sys s) r = sent_by s (other r)"
proof (cases "sy_end (sk_sys s) r")
  case None
  note i = stack_invD [OF inv]
  have ur: "unread (sk_sys s) r = []" and ps: "sy_up (sk_sys s) (other r) = []"
    using q [of r] q [of "other r"] None by (simp_all add: quiet_def)
  have pend: "io_pending (sy_io (sk_sys s) (other r)) = [] \<and> sk_out s (other r) = []"
  proof (cases "sy_end (sk_sys s) (other r)")
    case None
    then show ?thesis using q [of "other r"] by (simp add: quiet_def)
  next
    case (Some reason)
    then have c: "sy_end (sk_sys s) (other r) = Some closed_text"
      using i(1) [of "other r"] \<open>sy_end (sk_sys s) r = None\<close> by (auto simp: side_def)
    then show ?thesis using i(1,3) [of "other r"] by (simp add: side_def app_ok_def)
  qed
  have "link_inv (dir_link (sk_sys s) (other r))" using i(1) [of r] None by (simp add: side_def)
  from link_inv_fifo(2) [OF this] show ?thesis using ur ps pend by (simp add: dir_link_def sent_by_def)
next
  case (Some reason)
  then show ?thesis using running_end(3) [OF inv run] by simp
qed

text \<open>With everything consumed and acknowledged the window is open.\<close>

lemma quiet_window:
  assumes inv: "stack_inv P s" and q: "\<And>r. quiet s r" and live: "\<And>r. sy_end (sk_sys s) r = None"
    and run: "\<not> returned (sk_proc s (other r))"
  shows "window_open (chan_now s r) len"
proof (rule drained_window_open)
  note f = stack_invD(4) [OF inv]
  show "ack_inv (sy_io (sk_sys s) (other r))" using f [of "other r"] by (simp add: flow_ok_def)
  show "rc_acked (chan_now s r) = io_acked_out (sy_io (sk_sys s) (other r))"
    using f [of r] live q [of r] q [of "other r"] by (simp add: flow_ok_def quiet_def chan_now_def)
  show "io_consumed (sy_io (sk_sys s) (other r)) = rc_sent (chan_now s r)"
    using f [of r] f [of "other r"] live quiet_delivered [OF inv q run] by (simp add: flow_ok_def chan_now_def)
qed

lemma progress_send:
  assumes inv: "stack_inv P s" and q: "\<And>r. quiet s r" and ret: "both_return e (stack_net s) a b"
    and fit: "fits e (stack_net s)" and p: "sk_proc s r = Send m k"
  shows "\<exists>t. seat_move P (MSend r) s = Some t"
proof -
  note i = stack_invD [OF inv]
  have run: "\<not> returned (sk_proc s r)" by (simp add: p returned_def)
  note other_runs = no_send_to_returned [OF ret [unfolded stack_net_def] p]
  have live: "sy_end (sk_sys s) r = None" using running_end(2) [OF inv run] other_runs by blast
  moreover have "sy_end (sk_sys s) (other r) = None" using running_end(2) [OF inv other_runs] run
    by (cases "sy_end (sk_sys s) (other r)") auto
  ultimately have all: "sy_end (sk_sys s) x = None" for x using two_roles [of "\<lambda>x. sy_end (sk_sys s) x = None" r] by blast
  have len: "length m \<le> MAX_LOGICAL_FRAME"
    using fits_net_of [OF fits_step [OF fit [unfolded stack_net_def] net_of_send [of "sk_proc s" r m k e "wire s", OF p]], of r]
    by simp
  have "window_open (chan_now s r) (length m)" by (rule quiet_window [OF inv q all other_runs])
  then have "\<exists>x. relay_send (chan_now s r) m [] = Some x" using len live by (auto simp: relay_send_def Let_def)
  then show ?thesis using p live by auto
qed

text \<open>After its partner has closed, a quiet side has read the farewell.\<close>

lemma quiet_farewell:
  assumes inv: "stack_inv P s" and q: "\<And>r. quiet s r" and c: "sk_closed s (other r)"
  shows "sy_end (sk_sys s) r \<noteq> None"
proof
  assume live: "sy_end (sk_sys s) r = None"
  have "sy_end (sk_sys s) (other r) \<noteq> None"
    using stack_invD(3) [OF inv, of "other r"] q [of "other r"] c
    by (cases "sy_end (sk_sys s) (other r)") (auto simp: app_ok_def quiet_def)
  then have "sy_room (sk_sys s) (other r) = None" using q [of "other r"] by (auto simp: quiet_def split: if_splits)
  then show False using stack_invD(2) [OF inv, of r] q [of r] live by (simp add: farewell_def quiet_def)
qed

lemma progress_closed:
  assumes P: "reads_controls P" and inv: "stack_inv P s" and q: "\<And>r. quiet s r"
    and p: "sk_proc s r = Recv k" "sk_proc s (other r) = Ret v" "wire s (other r) = []"
  shows "\<exists>u t. (seat_step P)\<^sup>*\<^sup>* s u \<and> stack_inv P u \<and> stack_net u = stack_net s \<and> seat_move P (MRecv r) u = Some t"
proof -
  have run: "\<not> returned (sk_proc s r)" by (simp add: p returned_def)
  obtain u where u: "(seat_step P)\<^sup>*\<^sup>* s u" "stack_inv P u" "\<forall>r. quiet u r" "stack_net u = stack_net s"
    "sk_proc u = sk_proc s" "sk_closed u (other r)"
  proof (cases "sk_closed s (other r)")
    case True
    then show thesis using that [of s] inv q by simp
  next
    case False
    then obtain y where y: "seat_move P (MClose (other r)) s = Some y" "sk_closed y (other r)" using p(2) by auto
    have same: "stack_net y = stack_net s" "sk_proc y = sk_proc s" using sim_quiet [OF P inv y(1)] by auto
    obtain u where "(seat_step P)\<^sup>*\<^sup>* y u" "stack_inv P u" "\<forall>r. quiet u r" "stack_net u = stack_net y"
      "sk_proc u = sk_proc y" "sk_closed u = sk_closed y"
      using drained [OF P inv_move [OF P inv y(1)]] by blast
    moreover have "seat_step P s y" using y(1) unfolding stack_step_def by blast
    ultimately show thesis using that [of u] same y(2) by (metis converse_rtranclp_into_rtranclp)
  qed
  have "sy_end (sk_sys u) r \<noteq> None" using quiet_farewell [OF u(2) _ u(6)] u(3) by blast
  then have "\<exists>t. seat_move P (MRecv r) u = Some t" using p(1) u(5) by auto
  then show ?thesis using u by blast
qed

lemma progress:
  assumes P: "reads_controls P" and inv: "stack_inv P s" and ret: "both_return relay_error (stack_net s) a b"
    and fit: "fits relay_error (stack_net s)" and step: "net_step relay_error (stack_net s) d"
  shows "\<exists>t. (seat_step P)\<^sup>*\<^sup>* s t \<and> net_step relay_error (stack_net s) (stack_net t)"
proof -
  obtain u where u: "(seat_step P)\<^sup>*\<^sup>* s u" "stack_inv P u" "\<And>r. quiet u r" "stack_net u = stack_net s"
    using drained [OF P inv] by blast
  have "\<exists>w m t. (seat_step P)\<^sup>*\<^sup>* u w \<and> seat_move P m w = Some t \<and>
      net_step relay_error (stack_net u) (stack_net t)"
    using step [folded u(4), unfolded stack_net_def]
  proof (cases rule: net_of_cases)
    case (send r m k)
    obtain t where t: "seat_move P (MSend r) u = Some t"
      using progress_send [OF u(2,3) ret [folded u(4)] fit [folded u(4)] send(1)] by blast
    show ?thesis using sim_send [OF u(2) ret [folded u(4)] fit [folded u(4)] t] t by blast
  next
    case (recv r k m ms)
    have run: "\<not> returned (sk_proc u r)" by (simp add: recv returned_def)
    have "sk_got u r < length (sy_delivered (sk_sys u) r)"
      using quiet_delivered [OF u(2,3) run] recv(2)
      by (cases "length (sent_by u (other r)) \<le> sk_got u r") (auto simp: wire_def)
    then have "\<exists>t. seat_move P (MRecv r) u = Some t" using recv(1) by simp
    then show ?thesis using sim_recv [OF u(2)] by blast
  next
    case (closed r k v)
    from progress_closed [OF P u(2,3) closed(1-3)] obtain w t where w: "(seat_step P)\<^sup>*\<^sup>* u w" "stack_inv P w"
      "stack_net w = stack_net u" "seat_move P (MRecv r) w = Some t" by blast
    have "net_step relay_error (stack_net u) (stack_net t)" using sim_recv [OF w(2,4)] unfolding w(3) .
    then show ?thesis using w by blast
  qed
  then obtain w m t where w: "(seat_step P)\<^sup>*\<^sup>* u w" "seat_move P m w = Some t" "net_step relay_error (stack_net u) (stack_net t)"
    by blast
  have "seat_step P w t" using w(2) by (auto simp: stack_step_def)
  then have "(seat_step P)\<^sup>*\<^sup>* s t" using u(1) w(1) by (meson rtranclp.rtrancl_into_rtrancl rtranclp_trans)
  then show ?thesis using w(3) u(4) by auto
qed

end
