(* ===== verification/B2P_Carried.thy ===== *)
theory B2P_Carried
  imports B2P_Drain
begin

text \<open>
  What it takes to carry a conversation of two processes: the locale \<open>carrier\<close>. A carrier runs the
  processes as \<open>net_step\<close> does, stuttering where its own parts work, and does not get stuck where
  \<open>net_step\<close> goes on. The stack over the Worker and the stack over the in-process relay are carriers.
\<close>

lemma returned_left_stays:
  "(net_step e)\<^sup>*\<^sup>* c d \<Longrightarrow> c = (Ret v, q, lr, rl) \<Longrightarrow> \<exists>q lr rl. d = (Ret v, q, lr, rl)"
  by (induction arbitrary: q lr rl rule: rtranclp_induct) (auto elim!: net_step_cases)

lemma returned_right_stays:
  "(net_step e)\<^sup>*\<^sup>* c d \<Longrightarrow> c = (p, Ret v, lr, rl) \<Longrightarrow> \<exists>p lr rl. d = (p, Ret v, lr, rl)"
  by (induction arbitrary: p lr rl rule: rtranclp_induct) (auto elim!: net_step_cases)

lemma both_return_results:
  assumes "both_return e (p, q, lr, rl) a b"
  shows "p = Ret v \<Longrightarrow> v = a" and "q = Ret w \<Longrightarrow> w = b"
  using returned_left_stays [of e "(p, q, lr, rl)" "(Ret a, Ret b, [], [])"]
    returned_right_stays [of e "(p, q, lr, rl)" "(Ret a, Ret b, [], [])"] assms
  by (auto simp: both_return_def runs_to_def)

locale carrier =
  fixes step :: "'c \<Rightarrow> 'c \<Rightarrow> bool" and net :: "'c \<Rightarrow> ('a, 'a) net" and ok :: "'c \<Rightarrow> bool" and e :: err
  assumes simulates: "ok s \<Longrightarrow> both_return e (net s) a b \<Longrightarrow> fits e (net s) \<Longrightarrow> step s t \<Longrightarrow>
      ok t \<and> (net t = net s \<or> net_step e (net s) (net t))"
    and progresses: "ok s \<Longrightarrow> both_return e (net s) a b \<Longrightarrow> fits e (net s) \<Longrightarrow> net_step e (net s) d \<Longrightarrow>
      \<exists>t. step\<^sup>*\<^sup>* s t \<and> net_step e (net s) (net t)"
begin

lemma reach:
  assumes "step\<^sup>*\<^sup>* s t" and "ok s" and "both_return e (net s) a b" and "fits e (net s)"
  shows "ok t \<and> both_return e (net t) a b \<and> fits e (net t)"
  using assms(1)
proof (induction rule: rtranclp_induct)
  case base
  then show ?case using assms(2-4) by blast
next
  case (step y z)
  then show ?case using simulates [of y a b z] both_return_step [of e "net y" a b "net z"] fits_step [of e "net y" "net z"]
    by metis
qed

lemma completes:
  assumes "(net_step e ^^ n) (net s) (Ret a, Ret b, [], [])" and "ok s" and "fits e (net s)"
  shows "\<exists>t. step\<^sup>*\<^sup>* s t \<and> net t = (Ret a, Ret b, [], [])"
  using assms
proof (induction n arbitrary: s)
  case 0
  then show ?case by auto
next
  case (Suc n)
  have ret: "both_return e (net s) a b"
    unfolding both_return_def runs_to_def by (rule relpowp_imp_rtranclp [OF Suc.prems(1)])
  obtain d where d: "net_step e (net s) d" using relpowp_Suc_D2 [OF Suc.prems(1)] by blast
  obtain t where t: "step\<^sup>*\<^sup>* s t" "net_step e (net s) (net t)"
    using progresses [OF Suc.prems(2) ret Suc.prems(3) d] by blast
  have n: "(net_step e ^^ n) (net t) (Ret a, Ret b, [], [])"
    using net.strip [OF Suc.prems(1) Ret_final t(2)] by auto
  obtain u where "step\<^sup>*\<^sup>* t u" "net u = (Ret a, Ret b, [], [])"
    using Suc.IH [OF n] reach [OF t(1) Suc.prems(2) ret Suc.prems(3)] by blast
  then show ?case using t(1) by (meson rtranclp_trans)
qed

lemma carries:
  assumes "step\<^sup>*\<^sup>* s t" and "ok s" and "both_return e (net s) a b" and "fits e (net s)"
  shows "\<exists>u. step\<^sup>*\<^sup>* t u \<and> net u = (Ret a, Ret b, [], [])"
    and "net t = (p, q, lr, rl) \<Longrightarrow> (p = Ret v \<longrightarrow> v = a) \<and> (q = Ret w \<longrightarrow> w = b)"
proof -
  note t = reach [OF assms]
  then obtain n where "(net_step e ^^ n) (net t) (Ret a, Ret b, [], [])"
    by (auto simp: both_return_def runs_to_def rtranclp_power)
  then show "\<exists>u. step\<^sup>*\<^sup>* t u \<and> net u = (Ret a, Ret b, [], [])" using completes t by blast
  show "(p = Ret v \<longrightarrow> v = a) \<and> (q = Ret w \<longrightarrow> w = b)" if "net t = (p, q, lr, rl)"
    using both_return_results [of e p q lr rl a b] t that by auto
qed

end

section \<open>The stack over a room\<close>

lemma stack_net_seats [simp]: "stack_net (seat_stack view s) = stack_net s"
  by (simp add: stack_net_def wire_def sent_by_def net_of_def)

lemma seat_simulates:
  assumes "reads_controls P" and "stack_inv P s" and "both_return relay_error (stack_net s) a b"
    and "fits relay_error (stack_net s)" and "seat_move P m s = Some t"
  shows "stack_net t = stack_net s \<or> net_step relay_error (stack_net s) (stack_net t)"
proof -
  consider r where "m = MSend r" | r where "m = MRecv r" | "\<And>r. m \<noteq> MSend r" "\<And>r. m \<noteq> MRecv r" by blast
  then show ?thesis
  proof cases
    case 1
    then show ?thesis using sim_send [OF assms(2-4)] assms(5) by blast
  next
    case 2
    then show ?thesis using sim_recv [OF assms(2)] assms(5) by blast
  next
    case 3
    then show ?thesis using sim_quiet(1) [OF assms(1,2,5)] by blast
  qed
qed

text \<open>The stack over a room with these operations, and that it is in a reachable shape.\<close>

abbreviation room_stack_step ::
  "json_parser \<Rightarrow> ('s \<Rightarrow> seats) \<Rightarrow> (nat \<Rightarrow> ws_msg \<Rightarrow> 's \<Rightarrow> 's) \<Rightarrow> (nat \<Rightarrow> 's \<Rightarrow> 's) \<Rightarrow>
   ('s, 'a) stack \<Rightarrow> ('s, 'a) stack \<Rightarrow> bool" where
  "room_stack_step P view message leave \<equiv> stack_step P view (seat_fwd view message) (seat_gone view leave)"

definition carried :: "json_parser \<Rightarrow> ('s \<Rightarrow> seats) \<Rightarrow> ('s \<Rightarrow> bool) \<Rightarrow> ('s, 'a) stack \<Rightarrow> bool" where
  "carried P view ok s \<longleftrightarrow> reads_controls P \<and> ok (sy_room (sk_sys s)) \<and> stack_inv P (seat_stack view s)"

context relay_room
begin

lemma lift_step:
  assumes ok: "ok (sy_room (sk_sys s))" and step: "seat_step P (seat_stack view s) t'"
  shows "\<exists>t. room_stack_step P view message leave s t \<and> seat_stack view t = t' \<and> ok (sy_room (sk_sys t))"
proof -
  obtain m where m: "seat_move P m (seat_stack view s) = Some t'" using step by (auto simp: stack_step_def)
  obtain t where t: "stack_act P view (seat_fwd view message) (seat_gone view leave) m s = Some t" "seat_stack view t = t'"
    using m unfolding move_seats [OF ok, of P m, symmetric] by auto
  then show ?thesis using move_ok [OF ok t(1)] by (auto simp: stack_step_def)
qed

lemma lift_steps:
  assumes "(seat_step P)\<^sup>*\<^sup>* (seat_stack view s) t'" and "ok (sy_room (sk_sys s))"
  shows "\<exists>t. (room_stack_step P view message leave)\<^sup>*\<^sup>* s t \<and> seat_stack view t = t' \<and> ok (sy_room (sk_sys t))"
  using assms(1)
proof (induction rule: rtranclp_induct)
  case base
  then show ?case using assms(2) by blast
next
  case (step y z)
  then obtain t where t: "(room_stack_step P view message leave)\<^sup>*\<^sup>* s t" "seat_stack view t = y" "ok (sy_room (sk_sys t))"
    by blast
  from lift_step [OF t(3), of P z] step(2) t(2) obtain u where "room_stack_step P view message leave t u"
    "seat_stack view u = z" "ok (sy_room (sk_sys u))" by blast
  then show ?case using t(1) rtranclp.rtrancl_into_rtrancl [of "room_stack_step P view message leave" s t u] by blast
qed

lemma room_simulates:
  assumes "carried P view ok s" and "both_return relay_error (stack_net s) a b" and "fits relay_error (stack_net s)"
    and "room_stack_step P view message leave s t"
  shows "carried P view ok t \<and> (stack_net t = stack_net s \<or> net_step relay_error (stack_net s) (stack_net t))"
proof -
  obtain m where m: "stack_act P view (seat_fwd view message) (seat_gone view leave) m s = Some t"
    using assms(4) by (auto simp: stack_step_def)
  have c: "reads_controls P" "ok (sy_room (sk_sys s))" "stack_inv P (seat_stack view s)"
    using assms(1) by (simp_all add: carried_def)
  have sm: "seat_move P m (seat_stack view s) = Some (seat_stack view t)"
    using move_seats [OF c(2), of P m] m by simp
  show ?thesis
    using inv_move [OF c(1,3) sm] move_ok [OF c(2) m] seat_simulates [OF c(1,3) _ _ sm] assms(2,3) c(1)
    by (simp add: carried_def)
qed

lemma room_progresses:
  assumes "carried P view ok s" and "both_return relay_error (stack_net s) a b" and "fits relay_error (stack_net s)"
    and "net_step relay_error (stack_net s) d"
  shows "\<exists>t. (room_stack_step P view message leave)\<^sup>*\<^sup>* s t \<and> net_step relay_error (stack_net s) (stack_net t)"
proof -
  have c: "reads_controls P" "ok (sy_room (sk_sys s))" "stack_inv P (seat_stack view s)"
    using assms(1) by (simp_all add: carried_def)
  obtain t' where t': "(seat_step P)\<^sup>*\<^sup>* (seat_stack view s) t'" "net_step relay_error (stack_net s) (stack_net t')"
    using progress [OF c(1,3), of a b d] assms(2-4) by auto
  obtain t where "(room_stack_step P view message leave)\<^sup>*\<^sup>* s t" "seat_stack view t = t'" using lift_steps [OF t'(1) c(2)] by blast
  then show ?thesis using t'(2) by (metis stack_net_seats)
qed

lemma carried_begin:
  assumes "reads_controls P" and "ok rm" and "\<And>r. view rm r \<noteq> None"
  shows "carried P view ok (stack_begin view rm procs)"
  using assms stack_inv_begin [of "view rm" P procs]
  by (simp add: carried_def seat_stack_begin) (simp add: stack_begin_def relay_begin_def)

end

section \<open>Carriers\<close>

interpretation worker_stack: carrier "room_stack_step P room_view (room_receive G) (webSocketClose G now)" stack_net
  "carried P room_view (room_ok G)" relay_error for P G now
  by unfold_locales (fact worker.room_simulates, fact worker.room_progresses)

interpretation mock_stack: carrier "room_stack_step P (mock_view nm) mock_message mock_leave" stack_net
  "carried P (mock_view nm) (mock_ok nm)" relay_error for P nm
  by unfold_locales (fact mock.room_simulates, fact mock.room_progresses)

text \<open>
  So a conversation over the Worker whose frames fit ends as over a channel: from every state it can be
  led to its end, and a side that has returned has the result it has there.
\<close>

definition by_role :: "'a \<Rightarrow> 'a \<Rightarrow> role \<Rightarrow> 'a" where
  "by_role p q r = (case r of Sender \<Rightarrow> p | Receiver \<Rightarrow> q)"

lemma stack_net_begin: "stack_net (stack_begin view rm (by_role p q)) = (p, q, [], [])"
  by (simp add: stack_net_def net_of_def by_role_def wire_def sent_by_def stack_begin_def relay_begin_def)

lemma conversation_over_worker:
  fixes p q :: "'a proc"
  assumes "said (\<lambda>f. length f \<le> MAX_LOGICAL_FRAME) relay_error (p, q, [], []) a b"
    and "reads_controls P" and "room_ok G rm" and "\<And>r. room_view rm r \<noteq> None"
    and "(room_stack_step P room_view (room_receive G) (webSocketClose G now))\<^sup>*\<^sup>*
      (stack_begin room_view rm (by_role p q)) s"
  shows "(\<exists>t. (room_stack_step P room_view (room_receive G) (webSocketClose G now))\<^sup>*\<^sup>* s t \<and>
      sk_proc t Sender = Ret a \<and> sk_proc t Receiver = Ret b)"
    and "sk_proc s r = Ret v \<Longrightarrow> v = by_role a b r"
proof -
  let ?s = "stack_begin room_view rm (by_role p q)"
  have c: "carried P room_view (room_ok G) ?s" by (rule worker.carried_begin [OF assms(2-4)])
  have n: "both_return relay_error (stack_net ?s) a b" "fits relay_error (stack_net ?s)"
    using said_both_return [OF assms(1)] said_fits [OF assms(1)] by (simp_all add: stack_net_begin)
  note w = worker_stack.carries [OF assms(5) c n]
  obtain t where "(room_stack_step P room_view (room_receive G) (webSocketClose G now))\<^sup>*\<^sup>* s t"
    "stack_net t = (Ret a, Ret b, [], [])" using w(1) by blast
  then show "(\<exists>t. (room_stack_step P room_view (room_receive G) (webSocketClose G now))\<^sup>*\<^sup>* s t \<and>
      sk_proc t Sender = Ret a \<and> sk_proc t Receiver = Ret b)"
    by (auto simp: stack_net_def net_of_def)
  show "v = by_role a b r" if "sk_proc s r = Ret v"
    using w(2) [OF _, of "sk_proc s Sender" "sk_proc s Receiver" "wire s Sender" "wire s Receiver"] that
    by (cases r) (simp_all add: stack_net_def net_of_def by_role_def)
qed

end
