(* ===== verification/B2P_Upload.thy ===== *)
theory B2P_Upload
  imports B2P_Send
begin

text \<open>
  A sender of the tunnel transport against the server (src/src/send.rs, src/src/server.rs): the file is
  delivered whatever turns the uploads take, also when requests for chunks and answers to them get lost.
\<close>

section \<open>A sender and the server\<close>

text \<open>The server holds the transfer \<open>m\<close> in the store \<open>st\<close> on the disk \<open>f\<close>, and listens.\<close>

definition holds ::
  "'x crypto_lib_scheme \<Rightarrow> server_cfg \<Rightarrow> manifest \<Rightarrow> store \<Rightarrow> fs \<Rightarrow> app \<Rightarrow> bool" where
  "holds L cfg m st f app \<longleftrightarrow>
     ap_transfer app = Some \<lparr>at_manifest = m, at_store = st\<rparr> \<and> ap_disk app = f \<and>
     \<not> ap_shutdown app \<and> ap_cfg app = cfg \<and> ap_key app = data_key L (sc_secret cfg) \<and>
     ap_token_hash app = blake3_hash L (str_bytes (auth_token L (sc_secret cfg)))"

lemma serve_bearer:
  assumes "ap_token_hash app = blake3_hash L (str_bytes token)" and "\<not> ap_shutdown app"
    and "length (route_body r) \<le> body_limit"
  shows "serve L ask app (bearer token r) =
    (case r of
       RManifest b \<Rightarrow> handle_manifest L ask app b
     | RChunk i b \<Rightarrow> handle_chunk L app i b
     | RStatus \<Rightarrow> handle_status L app
     | RCommit b \<Rightarrow> handle_commit L app b)"
proof -
  have "provided_token (bearer token r) = token"
    using strip_pre_append [of "''Bearer ''" token] by (simp add: provided_token_def bearer_def)
  then show ?thesis using assms by (simp add: serve_def auth_mw_def run_route_def bearer_def)
qed

lemma served_chunk:
  assumes ok: "aead_correct L" and h: "holds L cfg m st f app"
    and size: "length (seal L (data_key L (sc_secret cfg)) DData i (str_bytes (m_transfer_id m)) b) \<le> body_limit"
    and w: "store_write L (st, f) i b = Inr (st', f')"
  shows "\<exists>app'. serve L ask app (bearer (auth_token L (sc_secret cfg)) (RChunk i
      (seal L (data_key L (sc_secret cfg)) DData i (str_bytes (m_transfer_id m)) b))) = (Inr (status 200), app') \<and>
    holds L cfg m st' f' app'"
proof -
  let ?ct = "seal L (data_key L (sc_secret cfg)) DData i (str_bytes (m_transfer_id m)) b"
  obtain u where wc: "write_chunk L st i b f = (Inr u, st', f')" using store_write_Inr [OF w] by auto
  let ?app = "emit (EvProgress (of_nat (length b)))
    (app\<lparr>ap_disk := f', ap_transfer := Some \<lparr>at_manifest = m, at_store = st'\<rparr>\<rparr>)"
  have "handle_chunk L app i ?ct = (Inr (status 200), ?app)"
    using h by (simp add: handle_chunk_def holds_def open_seal [OF ok] wc Let_def)
  then have "serve L ask app (bearer (auth_token L (sc_secret cfg)) (RChunk i ?ct)) = (Inr (status 200), ?app)"
    using h size by (subst serve_bearer) (simp_all add: holds_def route_body_def)
  moreover have "holds L cfg m st' f' ?app" using h by (simp add: holds_def)
  ultimately show ?thesis by blast
qed

lemma chunk_size_nat [simp]: "unat CHUNK_SIZE = 4194304" "CHUNK_SIZE \<noteq> 0"
  by (simp_all add: CHUNK_SIZE_def)

section \<open>A connection that loses messages\<close>

text \<open>What becomes of each request for a chunk: the list says it of the first ones, the others get through.\<close>

datatype fate = Through | RequestLost | AnswerLost

definition lost_link :: err where
  "lost_link = Msg ''error sending request''"

fun flaky :: "'s http_net \<Rightarrow> (fate list \<times> 's) http_net" where
  "flaky net (fates, s) rq =
     (case net s rq of (r, s') \<Rightarrow>
        (case (rq_route rq, fates) of
           (RChunk i b, RequestLost # fates) \<Rightarrow> (Inl lost_link, fates, s)
         | (RChunk i b, AnswerLost # fates) \<Rightarrow> (Inl lost_link, fates, s')
         | (RChunk i b, Through # fates) \<Rightarrow> (r, fates, s')
         | _ \<Rightarrow> (r, fates, s')))"

definition losses :: "fate list \<Rightarrow> nat" where
  "losses fates = length (filter (\<lambda>x. x \<noteq> Through) fates)"

lemma losses_simps [simp]:
  "losses [] = 0" "losses (Through # fs) = losses fs" "losses (RequestLost # fs) = Suc (losses fs)"
  "losses (AnswerLost # fs) = Suc (losses fs)"
  by (simp_all add: losses_def)

section \<open>The pool against the server\<close>

text \<open>
  Of the chunks \<open>missing\<close> the server has been given those of \<open>ds\<close>, in this order; the others are under way or
  still to be taken. No upload can run out of attempts: the losses to come are fewer than those it has left.
\<close>

definition upload_ok :: "'x crypto_lib_scheme \<Rightarrow> bytes \<Rightarrow> string \<Rightarrow> bytes \<Rightarrow> u64 set \<Rightarrow> u64 set \<Rightarrow> nat \<Rightarrow> upload \<Rightarrow> bool" where
  "upload_ok L key tid c missing given lost u \<longleftrightarrow>
     up_index u \<in> missing \<and>
     up_body u = seal L key DData (up_index u) (str_bytes tid) (piece c CHUNK_SIZE (up_index u)) \<and>
     (case up_answer u of
        None \<Rightarrow> lost < up_left u
      | Some (Inl e) \<Rightarrow> Suc lost < up_left u
      | Some (Inr r) \<Rightarrow> r = status 200 \<and> up_index u \<in> given)"

definition pool_ok ::
  "'x store_lib_scheme \<Rightarrow> server_cfg \<Rightarrow> manifest \<Rightarrow> bytes \<Rightarrow> fs \<Rightarrow> u64 set \<Rightarrow> store \<times> fs \<Rightarrow>
   (fate list \<times> app) pool \<Rightarrow> bool" where
  "pool_ok L cfg m c fs missing s0 po \<longleftrightarrow>
     po_failed po = None \<and> po_disk po = fs \<and> set (po_todo po) \<subseteq> missing \<and>
     losses (fst (po_net po)) < CHUNK_ATTEMPTS \<and>
     (\<exists>ds st f. write_seq (store_write L) (map (\<lambda>i. (i, piece c CHUNK_SIZE i)) ds) s0 = Inr (st, f) \<and>
        holds L cfg m st f (snd (po_net po)) \<and> set ds \<subseteq> missing \<and>
        missing \<subseteq> set ds \<union> up_index ` set (po_live po) \<union> set (po_todo po) \<and>
        (\<forall>u \<in> set (po_live po). upload_ok L (data_key L (sc_secret cfg)) (m_transfer_id m) c missing (set ds)
           (losses (fst (po_net po))) u))"

lemma upload_ok_more:
  "upload_ok L key tid c missing given lost u \<Longrightarrow> given \<subseteq> given' \<Longrightarrow> lost' \<le> lost \<Longrightarrow>
   upload_ok L key tid c missing given' lost' u"
  by (auto simp: upload_ok_def split: option.splits sum.splits)

lemma write_seq_append:
  "write_seq w (xs @ ys) s = bindR (write_seq w xs s) (write_seq w ys)"
proof (induction w xs s rule: write_seq.induct)
  case (2 w i b ps s)
  then show ?case by (cases "w s i b") simp_all
qed simp

lemma judge_through [simp]: "judge_answer i n (Inr (status 200)) = Uploaded"
  by (simp add: judge_answer_def http_ok_def)

lemma judge_lost [simp]: "n \<noteq> 0 \<Longrightarrow> judge_answer i n (Inl e) = TryAgain"
  by (simp add: judge_answer_def)

lemma piece_sealed_fits:
  assumes "aead_tag16 L"
  shows "length (seal L k d i a (piece c CHUNK_SIZE i)) \<le> body_limit"
proof -
  have "length (piece c CHUNK_SIZE i) \<le> 4194304" by (simp add: bslice_def)
  then show ?thesis using assms by (simp add: seal_def aead_tag16_def body_limit_def CHUNK_SIZE_def)
qed

lemma pool_ok_start:
  assumes fs: "io_fault fs = None" "files fs p = Some (File c)" "length c = unat tot"
    and range: "\<And>i. i \<in> missing \<Longrightarrow> unat i < ceil_nat (unat tot) (unat CHUNK_SIZE)"
    and inv: "pool_ok L cfg m c fs missing s0 po"
  shows "pool_ok L cfg m c fs missing s0 (pool_start L (data_key L (sc_secret cfg)) (m_transfer_id m) p tot po)"
proof (cases "po_todo po")
  case Nil
  then show ?thesis using inv by (simp add: pool_start_def)
next
  case (Cons i js)
  have i: "i \<in> missing" and disk: "po_disk po = fs" using inv Cons by (auto simp: pool_ok_def)
  have rd: "read_chunk p i CHUNK_SIZE tot fs = (Inr (piece c CHUNK_SIZE i), fs)"
    using read_chunk_ok [OF fs chunk_size_nat(2)] range [OF i] by simp
  show ?thesis
  proof (cases "length (po_live po) < PARALLEL_UPLOADS")
    case True
    then show ?thesis using inv i unfolding pool_start_def Cons list.case disk rd prod.case sum.case if_P [OF True]
      by (auto simp: pool_ok_def Cons upload_ok_def)
  next
    case False
    then show ?thesis using inv by (simp add: pool_start_def Cons)
  qed
qed

text \<open>One request for a chunk: either the server has stored it, or the attempt failed and a loss is used up.\<close>

lemma request_cases:
  assumes ok: "aead_correct L" "aead_tag16 L" and h: "holds L cfg m st f app"
    and w: "store_write L (st, f) i (piece c CHUNK_SIZE i) = Inr (st', f')"
    and r: "flaky (serve L ask) (fates, app) (bearer (auth_token L (sc_secret cfg)) (RChunk i
      (seal L (data_key L (sc_secret cfg)) DData i (str_bytes (m_transfer_id m)) (piece c CHUNK_SIZE i)))) = (res, fates', app')"
  obtains (stored) "res = Inr (status 200)" "holds L cfg m st' f' app'" "losses fates' \<le> losses fates"
  | (no_answer) e where "res = Inl e" "holds L cfg m st' f' app'" "Suc (losses fates') = losses fates"
  | (not_received) e where "res = Inl e" "holds L cfg m st f app'" "Suc (losses fates') = losses fates"
proof -
  obtain app1 where a: "serve L ask app (bearer (auth_token L (sc_secret cfg)) (RChunk i
      (seal L (data_key L (sc_secret cfg)) DData i (str_bytes (m_transfer_id m)) (piece c CHUNK_SIZE i)))) = (Inr (status 200), app1)"
    and h1: "holds L cfg m st' f' app1"
    using served_chunk [OF ok(1) h piece_sealed_fits [OF ok(2)] w, of ask] by blast
  have route: "rq_route (bearer t x) = x" for t x by (simp add: bearer_def)
  show thesis
  proof (cases fates)
    case Nil
    then show thesis using r a h1 route stored by simp
  next
    case (Cons x xs)
    show thesis
    proof (cases x)
      case Through
      then show thesis using r a h1 route Cons by (intro stored) auto
    next
      case RequestLost
      then show thesis using r a h route Cons by (intro not_received [of lost_link]) auto
    next
      case AnswerLost
      then show thesis using r a h1 route Cons by (intro no_answer [of lost_link]) auto
    qed
  qed
qed

lemma pool_ok_request:
  assumes ok: "aead_correct L" "aead_tag16 L"
    and w: "\<And>ds. set ds \<subseteq> missing \<Longrightarrow>
      \<exists>s'. write_seq (store_write L) (map (\<lambda>i. (i, piece c CHUNK_SIZE i)) ds) s0 = Inr s'"
    and inv: "pool_ok L cfg m c fs missing s0 po"
  shows "pool_ok L cfg m c fs missing s0 (pool_request (flaky (serve L ask)) (auth_token L (sc_secret cfg)) j po)"
proof (cases "j < length (po_live po) \<and> up_answer (po_live po ! j) = None")
  case False
  then show ?thesis using inv by (auto simp: pool_request_def)
next
  case True
  define u where "u = po_live po ! j"
  let ?ok = "upload_ok L (data_key L (sc_secret cfg)) (m_transfer_id m) c missing"
  obtain fates app where net: "po_net po = (fates, app)" by (cases "po_net po")
  obtain ds st f where ds: "write_seq (store_write L) (map (\<lambda>i. (i, piece c CHUNK_SIZE i)) ds) s0 = Inr (st, f)"
    "holds L cfg m st f app" "set ds \<subseteq> missing"
    "missing \<subseteq> set ds \<union> up_index ` set (po_live po) \<union> set (po_todo po)"
    "\<forall>u \<in> set (po_live po). ?ok (set ds) (losses fates) u"
    using inv net by (auto simp: pool_ok_def)
  have u: "u \<in> set (po_live po)" "up_answer u = None" using True by (simp_all add: u_def)
  then have uok: "up_index u \<in> missing" "losses fates < up_left u"
    "up_body u = seal L (data_key L (sc_secret cfg)) DData (up_index u) (str_bytes (m_transfer_id m)) (piece c CHUNK_SIZE (up_index u))"
    using ds(5) by (auto simp: upload_ok_def)
  obtain st' f' where s': "store_write L (st, f) (up_index u) (piece c CHUNK_SIZE (up_index u)) = Inr (st', f')"
    using w [of "ds @ [up_index u]"] ds(1,3) uok(1) by (auto simp: write_seq_append bindR_eq_Inr)
  then have ds': "write_seq (store_write L) (map (\<lambda>i. (i, piece c CHUNK_SIZE i)) (ds @ [up_index u])) s0 = Inr (st', f')"
    using ds(1) by (simp add: write_seq_append)
  obtain res fates' app' where r: "flaky (serve L ask) (fates, app) (bearer (auth_token L (sc_secret cfg))
      (RChunk (up_index u) (up_body u))) = (res, fates', app')" by (metis prod.exhaust)
  have po': "pool_request (flaky (serve L ask)) (auth_token L (sc_secret cfg)) j po =
      po\<lparr>po_net := (fates', app'), po_live := (po_live po)[j := u\<lparr>up_answer := Some res\<rparr>]\<rparr>"
    using True r net by (simp add: pool_request_def u_def)
  have idx: "up_index ` set ((po_live po)[j := u\<lparr>up_answer := Some res\<rparr>]) = up_index ` set (po_live po)"
    using True by (metis (no_types, lifting) list.set_map list_update_id map_update u_def upload.select_convs(1) upload.surjective upload.update_convs(4))
  have upd: "?ok g n v" if "v \<in> set ((po_live po)[j := x])" "?ok g n x" "\<And>y. y \<in> set (po_live po) \<Longrightarrow> ?ok g n y" for g n v x
    using that set_update_subset_insert [of "po_live po" j x] by auto
  have result: "pool_ok L cfg m c fs missing s0 (po\<lparr>po_net := (fates', app'), po_live := (po_live po)[j := u\<lparr>up_answer := Some res\<rparr>]\<rparr>)"
    if "write_seq (store_write L) (map (\<lambda>i. (i, piece c CHUNK_SIZE i)) es) s0 = Inr (st1, f1)"
      and "holds L cfg m st1 f1 app'" and "set ds \<subseteq> set es" and "set es \<subseteq> missing" and "losses fates' \<le> losses fates"
      and "?ok (set es) (losses fates') (u\<lparr>up_answer := Some res\<rparr>)" for es st1 f1
  proof -
    have "\<forall>v \<in> set ((po_live po)[j := u\<lparr>up_answer := Some res\<rparr>]). ?ok (set es) (losses fates') v"
      using upd [OF _ that(6)] upload_ok_more [OF _ that(3,5)] ds(5) by blast
    moreover have "missing \<subseteq> set es \<union> up_index ` set ((po_live po)[j := u\<lparr>up_answer := Some res\<rparr>]) \<union> set (po_todo po)"
      unfolding idx using ds(4) that(3) by blast
    ultimately show ?thesis using inv net that by (auto simp: pool_ok_def)
  qed
  from ok ds(2) s' r [unfolded uok(3)] show ?thesis unfolding po'
  proof (cases rule: request_cases)
    case stored
    then show "pool_ok L cfg m c fs missing s0 (po\<lparr>po_net := (fates', app'), po_live := (po_live po)[j := u\<lparr>up_answer := Some res\<rparr>]\<rparr>)"
      using result [OF ds'] ds(3) uok by (auto simp: upload_ok_def)
  next
    case (no_answer e)
    then show "pool_ok L cfg m c fs missing s0 (po\<lparr>po_net := (fates', app'), po_live := (po_live po)[j := u\<lparr>up_answer := Some res\<rparr>]\<rparr>)"
      using result [OF ds'] ds(3) uok by (auto simp: upload_ok_def)
  next
    case (not_received e)
    then show "pool_ok L cfg m c fs missing s0 (po\<lparr>po_net := (fates', app'), po_live := (po_live po)[j := u\<lparr>up_answer := Some res\<rparr>]\<rparr>)"
      using result [OF ds(1)] ds(3) uok by (auto simp: upload_ok_def)
  qed
qed

lemma pool_ok_look:
  assumes inv: "pool_ok L cfg m c fs missing s0 po"
  shows "pool_ok L cfg m c fs missing s0 (pool_look j po)"
proof (cases "j < length (po_live po) \<and> up_answer (po_live po ! j) \<noteq> None")
  case False
  then show ?thesis using inv by (auto simp: pool_look_def Let_def)
next
  case True
  define u where "u = po_live po ! j"
  let ?ok = "upload_ok L (data_key L (sc_secret cfg)) (m_transfer_id m) c missing"
  let ?lost = "losses (fst (po_net po))"
  obtain a where a: "up_answer u = Some a" using True u_def by auto
  have live: "po_live po = take j (po_live po) @ u # drop (Suc j) (po_live po)"
    using True by (simp add: u_def id_take_nth_drop [symmetric])
  obtain ds st f where ds: "write_seq (store_write L) (map (\<lambda>i. (i, piece c CHUNK_SIZE i)) ds) s0 = Inr (st, f)"
    "holds L cfg m st f (snd (po_net po))" "set ds \<subseteq> missing"
    "missing \<subseteq> set ds \<union> up_index ` set (po_live po) \<union> set (po_todo po)"
    "\<forall>u \<in> set (po_live po). ?ok (set ds) ?lost u"
    using inv by (auto simp: pool_ok_def)
  have uok: "?ok (set ds) ?lost u" using True ds(5) u_def by auto
  have rest: "\<forall>v \<in> set (take j (po_live po) @ drop (Suc j) (po_live po)). ?ok (set ds) ?lost v"
    using ds(5) by (auto dest: in_set_takeD in_set_dropD)
  have idx: "up_index ` set (po_live po) = insert (up_index u) (up_index ` set (take j (po_live po) @ drop (Suc j) (po_live po)))"
    by (subst live) auto
  show ?thesis
  proof (cases a)
    case (Inr r)
    then have "r = status 200" "up_index u \<in> set ds" using uok a by (simp_all add: upload_ok_def)
    then have "pool_look j po = po\<lparr>po_live := take j (po_live po) @ drop (Suc j) (po_live po)\<rparr>"
      using True a Inr by (simp add: pool_look_def u_def [symmetric])
    moreover have "missing \<subseteq> set ds \<union> up_index ` set (take j (po_live po) @ drop (Suc j) (po_live po)) \<union> set (po_todo po)"
      using ds(4) \<open>up_index u \<in> set ds\<close> unfolding idx by blast
    ultimately show ?thesis using inv ds(1-3) rest by (auto simp: pool_ok_def)
  next
    case (Inl e)
    let ?u = "u\<lparr>up_left := up_left u - 1, up_answer := None\<rparr>"
    have left: "Suc ?lost < up_left u" using uok a Inl by (simp add: upload_ok_def)
    then have look: "pool_look j po = po\<lparr>po_live := take j (po_live po) @ ?u # drop (Suc j) (po_live po)\<rparr>"
      using True a Inl by (simp add: pool_look_def u_def [symmetric] upd_conv_take_nth_drop)
    have "?ok (set ds) ?lost ?u" using uok left by (auto simp: upload_ok_def)
    then have "\<forall>v \<in> set (take j (po_live po) @ ?u # drop (Suc j) (po_live po)). ?ok (set ds) ?lost v"
      using rest by auto
    moreover have "missing \<subseteq> set ds \<union> up_index ` set (take j (po_live po) @ ?u # drop (Suc j) (po_live po)) \<union> set (po_todo po)"
      using ds(4) unfolding idx by auto
    ultimately show ?thesis using inv ds(1-3) unfolding look by (auto simp: pool_ok_def)
  qed
qed

lemma pool_ok_run:
  assumes ok: "aead_correct L" "aead_tag16 L"
    and fs: "io_fault fs = None" "files fs p = Some (File c)" "length c = unat tot"
    and range: "\<And>i. i \<in> missing \<Longrightarrow> unat i < ceil_nat (unat tot) (unat CHUNK_SIZE)"
    and w: "\<And>ds. set ds \<subseteq> missing \<Longrightarrow>
      \<exists>s'. write_seq (store_write L) (map (\<lambda>i. (i, piece c CHUNK_SIZE i)) ds) s0 = Inr s'"
  shows "pool_ok L cfg m c fs missing s0 po \<Longrightarrow>
    pool_ok L cfg m c fs missing s0 (pool_run L (flaky (serve L ask)) (data_key L (sc_secret cfg))
      (auth_token L (sc_secret cfg)) (m_transfer_id m) p tot turns po)"
proof (induction turns arbitrary: po)
  case (Cons t ts)
  have "pool_ok L cfg m c fs missing s0 (pool_take L (flaky (serve L ask)) (data_key L (sc_secret cfg))
      (auth_token L (sc_secret cfg)) (m_transfer_id m) p tot t po)"
  proof (cases t)
    case StartNext
    then show ?thesis using Cons.prems pool_ok_start [OF fs range Cons.prems] by (simp add: pool_take_def)
  next
    case (Request j)
    then show ?thesis using Cons.prems pool_ok_request [OF ok w Cons.prems] by (simp add: pool_take_def)
  next
    case (LookAt j)
    then show ?thesis using Cons.prems pool_ok_look [OF Cons.prems] by (simp add: pool_take_def)
  qed
  then show ?case using Cons.IH by simp
qed simp

text \<open>A pool that has ended has given the server every missing chunk.\<close>

lemma pool_ok_end:
  assumes "pool_ok L cfg m c fs missing s0 po" and "pool_result po = Some r"
  shows "r = Inr () \<and> po_disk po = fs \<and> (\<exists>ds st f. set ds = missing \<and>
    write_seq (store_write L) (map (\<lambda>i. (i, piece c CHUNK_SIZE i)) ds) s0 = Inr (st, f) \<and>
    holds L cfg m st f (snd (po_net po)))"
  using assms by (auto simp: pool_ok_def pool_result_def split: if_splits)

text \<open>Whether a manifest is taken: the option, or the answer to the prompt.\<close>

definition takes :: "(string \<Rightarrow> bool option) \<Rightarrow> server_cfg \<Rightarrow> fs \<Rightarrow> manifest \<Rightarrow> bool" where
  "takes ask cfg f m \<longleftrightarrow>
     (let e = fs_exists (sc_out_dir cfg @ [server_safe_name (m_name m)]) f in
      if sc_auto_accept cfg then \<not> (e \<and> m_kind m = KFile \<and> \<not> sc_overwrite cfg)
      else ask (manifest_summary m e) = Some True)"

lemma manifest_served:
  assumes ok: "aead_correct L" "json_correct L" and t: "takes ask cfg f m" and v: "m_version m = PROTOCOL_VERSION"
    and k: "m_kind m \<noteq> KText"
    and oc: "open_or_create L (sc_out_dir cfg) (server_safe_name (m_name m)) (m_transfer_id m) (m_total_size m)
      (m_chunk_size m) f = (Inr st, f1)"
    and size: "length (seal_json L (js_manifest L) (data_key L (sc_secret cfg)) DManifest [] m) \<le> body_limit"
  shows "\<exists>app'. serve L ask (server_start L cfg f) (bearer (auth_token L (sc_secret cfg))
      (RManifest (seal_json L (js_manifest L) (data_key L (sc_secret cfg)) DManifest [] m))) =
      (Inr (json_response (js_manifest_ack L \<lparr>ma_accepted = True, ma_complete = False, ma_have = store_have st\<rparr>)), app') \<and>
    holds L cfg m st f1 app'"
proof -
  have oj: "open_json L (un_manifest L) (data_key L (sc_secret cfg)) DManifest []
      (seal_json L (js_manifest L) (data_key L (sc_secret cfg)) DManifest [] m) = Inr m"
    using ok by (intro open_seal_json) (simp_all add: json_correct_def)
  have s: "ap_token_hash (server_start L cfg f) = blake3_hash L (str_bytes (auth_token L (sc_secret cfg)))"
    "\<not> ap_shutdown (server_start L cfg f)" by (simp_all add: server_start_def)
  show ?thesis unfolding serve_bearer [OF s, of "RManifest (seal_json L (js_manifest L) (data_key L (sc_secret cfg)) DManifest [] m)",
      unfolded route_body_def, simplified, OF size]
    using t v k oc by (auto simp: handle_manifest_def oj server_start_def Let_def takes_def holds_def)
qed

lemma commit_served:
  fixes L :: "'x store_lib_scheme"
  assumes ok: "aead_correct L" "json_correct L" and h: "holds L cfg m st' f' app"
    and inv: "store_inv L (st', f')"
    and fr: "framed (files (opened_fs L st tot f)) st (st', f')"
    and st: "st = opened_store L (sc_out_dir cfg) (server_safe_name (m_name m)) tid tot csz f"
    and cm: "is_complete st' = Inr True" and sd: "store_data st' f' = c"
    and dest: "files f (sc_out_dir cfg @ [server_safe_name (m_name m)]) \<noteq> Some Dir" and k: "m_kind m = KFile"
    and size: "length (seal_json L (js_commit L) (data_key L (sc_secret cfg)) DCommit (str_bytes (m_transfer_id m))
      \<lparr>co_blake3_hex = blake3_hex L c\<rparr>) \<le> body_limit"
  shows "\<exists>app'. serve L ask app (bearer (auth_token L (sc_secret cfg)) (RCommit (seal_json L (js_commit L)
      (data_key L (sc_secret cfg)) DCommit (str_bytes (m_transfer_id m)) \<lparr>co_blake3_hex = blake3_hex L c\<rparr>))) =
      (Inr (json_response (js_commit_ack L \<lparr>ca_ok = True, ca_error = None\<rparr>)), app') \<and>
    files (ap_disk app') = delivered (sc_out_dir cfg) (server_safe_name (m_name m)) c f \<and>
    ap_transfer app' = None \<and> ap_closing app'"
proof -
  let ?co = "\<lparr>co_blake3_hex = blake3_hex L c\<rparr>"
  have oj: "open_json L (un_commit L) (data_key L (sc_secret cfg)) DCommit (str_bytes (m_transfer_id m))
      (seal_json L (js_commit L) (data_key L (sc_secret cfg)) DCommit (str_bytes (m_transfer_id m)) ?co) = Inr ?co"
    using ok by (intro open_seal_json) (simp_all add: json_correct_def)
  obtain f3 where f3: "finalize_file st' (sc_out_dir cfg @ [server_safe_name (m_name m)]) f' = (Inr (), f3)"
    "files f3 = delivered (sc_out_dir cfg) (server_safe_name (m_name m)) c f"
    and fh: "file_hash L st' f' = (Inr (blake3_hex L c), f')"
    using complete_store_delivers [OF inv fr st sd dest] by blast
  have "server_finalize L app \<lparr>at_manifest = m, at_store = st'\<rparr> ?co f' =
      (Inr (''saved '' @ path_text (sc_out_dir cfg @ [server_safe_name (m_name m)])), f3)"
    using cm fh f3(1) k h by (simp add: server_finalize_def holds_def Let_def io_ret_def)
  then have "\<exists>app'. handle_commit L app (seal_json L (js_commit L) (data_key L (sc_secret cfg)) DCommit
      (str_bytes (m_transfer_id m)) ?co) =
      (Inr (json_response (js_commit_ack L \<lparr>ca_ok = True, ca_error = None\<rparr>)), app') \<and>
    files (ap_disk app') = delivered (sc_out_dir cfg) (server_safe_name (m_name m)) c f \<and>
    ap_transfer app' = None \<and> ap_closing app'"
    using h f3(2) by (simp add: handle_commit_def holds_def oj Let_def)
  then show ?thesis using h size by (subst serve_bearer) (simp_all add: holds_def route_body_def)
qed

text \<open>All missing chunks of a transfer the server has taken, uploaded in any turns.\<close>

lemma missing_uploaded:
  fixes L :: "'x store_lib_scheme" and tot tc :: u64 and tid :: string
  assumes ok: "aead_correct L" "aead_tag16 L" and fs: "io_fault fs = None" "files fs p = Some (File c)"
    and fates: "losses fates < CHUNK_ATTEMPTS"
    and res: "resumable L out_dir nm tid tot CHUNK_SIZE c f"
    and tc: "unat tc = ceil_nat (unat tot) (unat CHUNK_SIZE)"
    and h: "holds L cfg m (opened_store L out_dir nm tid tot CHUNK_SIZE f)
      (opened_fs L (opened_store L out_dir nm tid tot CHUNK_SIZE f) tot f) app" and tid: "m_transfer_id m = tid"
    and run: "upload_all L (flaky (serve L ask)) (data_key L (sc_secret cfg)) (auth_token L (sc_secret cfg)) tid p tot turns
      (filter (\<lambda>i. i \<notin> set (store_have (opened_store L out_dir nm tid tot CHUNK_SIZE f))) (index_range tc)) fs
      (fates, app) = Some (q, f2, fates2, app2)"
  defines "st \<equiv> opened_store L out_dir nm tid tot CHUNK_SIZE f"
  shows "q = Inr () \<and> f2 = fs \<and> (\<exists>st' f'. holds L cfg m st' f' app2 \<and> store_inv L (st', f') \<and>
    framed (files (opened_fs L st tot f)) st (st', f') \<and> is_complete st' = Inr True \<and> store_data st' f' = c)"
proof -
  let ?missing = "filter (\<lambda>i. i \<notin> set (store_have st)) (index_range tc)" and ?f = "opened_fs L st tot f"
  let ?ps = "map (\<lambda>i. (i, piece c CHUNK_SIZE i))"
  let ?key = "data_key L (sc_secret cfg)" and ?tok = "auth_token L (sc_secret cfg)"
  let ?po = "\<lparr>po_todo = ?missing, po_live = [], po_disk = fs, po_net = (fates, app), po_failed = None\<rparr>"
  have len: "length c = unat tot" using res by (simp add: resumable_def Let_def)
  have idx: "set ?missing = {i. unat i < ceil_nat (unat tot) (unat CHUNK_SIZE) \<and> i \<notin> set (store_have st)}"
    using tc by (auto simp: set_index_range)
  have writes: "\<exists>s'. write_seq (store_write L) (?ps ds) (st, ?f) = Inr s'" if "set ds \<subseteq> set ?missing" for ds
  proof -
    have "set (ds @ ?missing) = {i. unat i < ceil_nat (unat tot) (unat CHUNK_SIZE) \<and> i \<notin> set (store_have st)}"
      unfolding idx [symmetric] using that by auto
    from missing_stage_content [OF res this [unfolded st_def]] show ?thesis
      by (auto simp: st_def write_seq_append bindR_eq_Inr)
  qed
  have "pool_ok L cfg m c fs (set ?missing) (st, ?f) ?po"
    using fates h by (auto simp: pool_ok_def st_def intro!: exI [of _ "[]"])
  then have pool: "pool_ok L cfg m c fs (set ?missing) (st, ?f) (pool_run L (flaky (serve L ask)) ?key ?tok tid p tot turns ?po)"
    using pool_ok_run [where L = L and missing = "set ?missing" and ?s0.0 = "(st, ?f)" and cfg = cfg and m = m
      and ask = ask and turns = turns, OF ok fs len _ writes] idx tid by auto
  have "pool_result (pool_run L (flaky (serve L ask)) ?key ?tok tid p tot turns ?po) = Some q"
    "po_disk (pool_run L (flaky (serve L ask)) ?key ?tok tid p tot turns ?po) = f2"
    "snd (po_net (pool_run L (flaky (serve L ask)) ?key ?tok tid p tot turns ?po)) = app2"
    using run by (auto simp: upload_all_def Let_def st_def)
  note e = pool_ok_end [OF pool this(1), unfolded this(2,3)]
  then obtain ds st' f' where ds: "set ds = set ?missing" "write_seq (store_write L) (?ps ds) (st, ?f) = Inr (st', f')"
    and h2: "holds L cfg m st' f' app2" by blast
  show ?thesis
    using e h2 missing_stage_content [OF res trans [OF ds(1) idx, unfolded st_def]] ds(2) unfolding st_def by auto
qed

lemma tunnel_delivers:
  fixes L :: "'x store_lib_scheme" and tot :: u64 and tid :: string
  assumes ok: "aead_correct L" "aead_tag16 L" "json_correct L"
    and fs: "io_fault fs = None" "files fs p = Some (File c)"
    and src: "src = Blob KFile name ents tot tid p spool" and m: "build_manifest src = Inr m"
    and fates: "losses fates < CHUNK_ATTEMPTS"
    and t: "takes ask cfg f m"
    and res: "resumable L (sc_out_dir cfg) (server_safe_name name) tid tot CHUNK_SIZE c f"
    and dest: "files f (sc_out_dir cfg @ [server_safe_name name]) \<noteq> Some Dir"
    and size: "length (seal_json L (js_manifest L) (data_key L (sc_secret cfg)) DManifest [] m) \<le> body_limit"
      "length (seal_json L (js_commit L) (data_key L (sc_secret cfg)) DCommit (str_bytes tid)
         \<lparr>co_blake3_hex = blake3_hex L c\<rparr>) \<le> body_limit"
  shows "tunnel_send L (flaky (serve L ask)) turns (Inr ()) host (sc_secret cfg) src fs (fates, server_start L cfg f) = Some r \<Longrightarrow>
      \<exists>fates' app'. r = (Inr ''transfer complete'', fs, fates', app') \<and>
        files (ap_disk app') = delivered (sc_out_dir cfg) (server_safe_name name) c f"
    and "\<exists>more. tunnel_send L (flaky (serve L ask)) (turns @ more) (Inr ()) host (sc_secret cfg) src fs
      (fates, server_start L cfg f) \<noteq> None"
proof -
  let ?nm = "server_safe_name name" and ?sec = "sc_secret cfg" and ?out = "sc_out_dir cfg"
  let ?key = "data_key L ?sec" and ?tok = "auth_token L ?sec"
  define st where "st = opened_store L ?out ?nm tid tot CHUNK_SIZE f"
  define f1 where "f1 = opened_fs L st tot f"
  have mf: "m_version m = PROTOCOL_VERSION" "m_kind m = KFile" "m_name m = name" "m_transfer_id m = tid"
    "m_total_size m = tot" "m_chunk_size m = CHUNK_SIZE" using m src by (auto simp: build_manifest_def)
  from res have op: "openable ?out ?nm f" and nf: "io_fault f = None" and so: "state_ok st"
    and len: "length c = unat tot" by (simp_all add: resumable_def Let_def st_def)
  have oc: "open_or_create L ?out ?nm tid tot CHUNK_SIZE f = (Inr st, f1)"
    unfolding st_def f1_def by (rule open_effect [OF op nf])
  obtain tc where tc: "manifest_total_chunks m = Inr tc" "unat tc = ceil_nat (unat tot) (unat CHUNK_SIZE)"
    using div_ceil_nat [OF chunk_size_nat(2), of tot] mf by (auto simp: manifest_total_chunks_def)
  let ?missing = "filter (\<lambda>i. i \<notin> set (store_have st)) (index_range tc)"
  have oc': "open_or_create L ?out (server_safe_name (m_name m)) (m_transfer_id m) (m_total_size m)
      (m_chunk_size m) f = (Inr st, f1)" using oc mf by simp
  have nt: "m_kind m \<noteq> KText" using mf by simp
  obtain app1 where s1: "serve L ask (server_start L cfg f) (bearer ?tok (RManifest (seal_json L (js_manifest L) ?key DManifest [] m))) =
      (Inr (json_response (js_manifest_ack L \<lparr>ma_accepted = True, ma_complete = False, ma_have = store_have st\<rparr>)), app1)"
    and h1: "holds L cfg m st f1 app1"
    using manifest_served [OF ok(1,3) t mf(1) nt oc' size(1)] by blast
  have route: "rq_route (bearer t x) = x" for t x by (simp add: bearer_def)
  have js: "un_manifest_ack L (js_manifest_ack L v) = Some v" "un_commit_ack L (js_commit_ack L w) = Some w" for v w
    using ok(3) by (simp_all add: json_correct_def)
  have hash: "blake3_file L p fs = (Inr (blake3_hex L c), fs)"
    using fs by (simp add: blake3_file_def fs_read_def bindIO_def io_ret_def)
  have dest': "files f (?out @ [server_safe_name (m_name m)]) \<noteq> Some Dir" using dest mf by simp
  have st_m: "st = opened_store L ?out (server_safe_name (m_name m)) tid tot CHUNK_SIZE f"
    by (simp add: st_def mf)
  define up where "up turns = upload_all L (flaky (serve L ask)) ?key ?tok tid p tot turns ?missing fs (fates, app1)" for turns
  have none: "tunnel_send L (flaky (serve L ask)) turns (Inr ()) host ?sec src fs (fates, server_start L cfg f) = None"
    if "up turns = None" for turns
    using that by (simp add: up_def tunnel_send_def Let_def m [unfolded src] route s1 js http_ok_def src tc(1))
  have finished: "\<exists>fates' app'. tunnel_send L (flaky (serve L ask)) turns (Inr ()) host ?sec src fs (fates, server_start L cfg f) =
        Some (Inr ''transfer complete'', fs, fates', app') \<and>
      files (ap_disk app') = delivered ?out ?nm c f"
    if ended: "up turns = Some (q, f2, fates2, app2)" for turns q f2 fates2 app2
  proof -
    obtain st' f' where q: "q = Inr ()" "f2 = fs" and h2: "holds L cfg m st' f' app2" and inv: "store_inv L (st', f')"
      "framed (files (opened_fs L st tot f)) st (st', f')" and cm: "is_complete st' = Inr True" "store_data st' f' = c"
      using missing_uploaded [OF ok(1,2) fs fates res tc(2) h1 [unfolded f1_def st_def] mf(4)
          ended [unfolded up_def st_def]] unfolding st_def by blast
    obtain app3 where s3: "serve L ask app2 (bearer ?tok (RCommit (seal_json L (js_commit L) ?key DCommit (str_bytes tid)
        \<lparr>co_blake3_hex = blake3_hex L c\<rparr>))) =
        (Inr (json_response (js_commit_ack L \<lparr>ca_ok = True, ca_error = None\<rparr>)), app3)"
      and d3: "files (ap_disk app3) = delivered ?out (server_safe_name (m_name m)) c f"
      using commit_served [where m = m and ask = ask, OF ok(1,3) h2 inv st_m cm dest' mf(2)] size(2) mf by auto
    have "tunnel_send L (flaky (serve L ask)) turns (Inr ()) host ?sec src fs (fates, server_start L cfg f) =
        Some (Inr ''transfer complete'', fs, fates2, app3)"
      using ended by (simp add: up_def tunnel_send_def Let_def m [unfolded src] route s1 js http_ok_def src tc(1) q hash s3)
    then show ?thesis using d3 mf by auto
  qed
  show "\<exists>fates' app'. r = (Inr ''transfer complete'', fs, fates', app') \<and>
      files (ap_disk app') = delivered ?out ?nm c f"
    if "tunnel_send L (flaky (serve L ask)) turns (Inr ()) host ?sec src fs (fates, server_start L cfg f) = Some r"
    using that none [of turns] finished [of turns] by (cases "up turns") auto
  obtain more where "up (turns @ more) \<noteq> None"
    using pool_completes [of L "flaky (serve L ask)" ?key ?tok tid p tot] by (fastforce simp: up_def upload_all_def Let_def)
  then show "\<exists>more. tunnel_send L (flaky (serve L ask)) (turns @ more) (Inr ()) host ?sec src fs
      (fates, server_start L cfg f) \<noteq> None"
    using finished by fastforce
qed

end
