(* ===== verification/Spec2Isabelle.thy ===== *)
theory Spec2Isabelle
  imports B2P_Cli B2P_Resume B2P_Stun B2P_Reference B2P_Webrtc B2P_Rendezvous B2P_Tunnel B2P_Doctor
  B2P_RelayDemo B2P_Pubsub B2P_Serve B2P_Carried B2P_Upload
begin

text \<open>
  b2p sends files, folders and snippets of text between two machines that share a short code. This
  library models its implementation under src/src and proves what makes a transfer correct.

  \<^bold>\<open>The program.\<close> A receiver (\<^verbatim>\<open>main.rs\<close>) shows a code (\<^verbatim>\<open>rvcode.rs\<close>, \<^verbatim>\<open>words.rs\<close>, \<^verbatim>\<open>code.rs\<close>) and
  waits; a sender types it. By default both meet in a room of a relay (\<^verbatim>\<open>transport/relay.rs\<close>,
  \<^verbatim>\<open>config.rs\<close>; the relay itself is the Worker \<^verbatim>\<open>src/relay-worker/src/index.js\<close>), prove to each other that they hold the same code (\<^verbatim>\<open>pake.rs\<close>, \<^verbatim>\<open>handshake.rs\<close>) and
  then run the framed, encrypted transfer (\<^verbatim>\<open>stream.rs\<close>, \<^verbatim>\<open>crypto.rs\<close>, \<^verbatim>\<open>protocol.rs\<close>) from the
  prepared source (\<^verbatim>\<open>archive.rs\<close>) into a staging directory that survives crashes (\<^verbatim>\<open>store.rs\<close>).
  \<^verbatim>\<open>session.rs\<close> composes these. With \<^verbatim>\<open>--p2p\<close> the handshake runs over a publish/subscribe service
  (\<^verbatim>\<open>rendezvous/\<close>) and the transfer over a WebRTC data channel (\<^verbatim>\<open>transport/webrtc.rs\<close>, \<^verbatim>\<open>turn.rs\<close>).
  With \<^verbatim>\<open>--tunnel\<close> the receiver is an HTTP server (\<^verbatim>\<open>server.rs\<close>) behind cloudflared (\<^verbatim>\<open>tunnel.rs\<close>) and
  the sender an upload client (\<^verbatim>\<open>send.rs\<close>, \<^verbatim>\<open>doh.rs\<close>). When no connection forms, the diagnosis
  (\<^verbatim>\<open>doctor.rs\<close>, \<^verbatim>\<open>stun.rs\<close>, \<^verbatim>\<open>tlsprobe.rs\<close>, \<^verbatim>\<open>http.rs\<close>) says why.

  \<^bold>\<open>Theories.\<close> Each names the source files it models; definitions keep the names of the source where
  the logic allows it.

  \<^item> \<open>B2P_Prelude\<close>: words, byte strings, the error type with its markers (\<^verbatim>\<open>downcast_ref\<close>), results,
    the string operations of the standard library on ASCII text, little-endian numbers, and the
    ordered set of indices (\<^verbatim>\<open>BTreeSet\<close>) with its contract, the locale \<open>index_set\<close>.
  \<^item> \<open>B2P_Fs\<close>: the file system as a map from paths to nodes with failure injection (\<open>io_fault\<close>): the
    number of operations that still succeed and how much of the next write reaches the disk.
  \<^item> \<open>B2P_Channel\<close>: code over a \<^verbatim>\<open>MsgChannel\<close> as a process that sends, receives or returns; two
    processes joined by ordered queues step by \<open>net_step\<close>, whose argument is the error a receive gets once
    the other side has returned. The locale \<open>diamond_system\<close> and its interpretation \<open>net\<close> give that all
    schedules of a run end in the same result; \<open>said\<close> adds a property of all the messages.
  \<^item> \<open>B2P_Crypto\<close>, \<open>B2P_Protocol\<close>, \<open>B2P_Json\<close>: keys, nonces, sealing; the messages; JSON values.
  \<^item> \<open>B2P_Store\<close>: the staging store; the locale \<open>chunk_staging\<close> is what a transport relies on,
    interpreted on \<open>write_chunk\<close> (\<open>staging\<close>, \<open>framed_staging\<close>). \<open>B2P_Archive\<close>: preparing a source.
  \<^item> \<open>B2P_Handshake\<close>: SPAKE2 with confirmation, over a channel and over a rendezvous; the locale
    \<open>frame_wait\<close> is what both waiting loops share (\<open>in_band\<close>, \<open>pub_sub\<close>).
  \<^item> \<open>B2P_Stream\<close>, \<open>B2P_Resume\<close>, \<open>B2P_Session\<close>: both directions of the transfer, its continuation
    after a cut, and the sessions.
  \<^item> \<open>B2P_Framing\<close>, \<open>B2P_Relay\<close>: packing frames into socket payloads; dialing, waiting, flow control
    and the I/O task of the relay channel.
  \<^item> \<open>B2P_Room\<close>, \<open>B2P_RelayNet\<close>, \<open>B2P_RelayDemo\<close>: the relay's side. The locale \<open>relay_room\<close> says what a
    room promises; \<open>worker\<close> and \<open>mock\<close> interpret it on the Worker and on the in-process relay of the
    tests (\<^verbatim>\<open>transport/mock.rs\<close>). \<open>relay_step\<close> joins two I/O tasks and a room into one system with an
    executable scheduler \<open>relay_run\<close> and a concrete run.
  \<^item> \<open>B2P_Stack\<close>, \<open>B2P_Through\<close>, \<open>B2P_Drain\<close>, \<open>B2P_Carried\<close>: the whole relay path. \<open>stack_act\<close> puts the
    processes of a session on top of the two relay channels (their \<^verbatim>\<open>send\<close>, \<^verbatim>\<open>recv\<close> and \<^verbatim>\<open>close\<close>, their queues
    and flow control), their I/O tasks and the room. \<open>stack_net\<close> maps a state of it to a state of
    \<open>net_step\<close>; every step of the stack is a step there or none (\<open>B2P_Through\<close>), and by the measure \<open>load\<close> the
    stack comes to do what \<open>net_step\<close> can (\<open>B2P_Drain\<close>). The locale \<open>carrier\<close> draws the conclusion that
    a conversation ends over the stack as over a channel; \<open>worker_stack\<close> and \<open>mock_stack\<close> interpret it.
  \<^item> \<open>B2P_Pubsub\<close>: the in-memory rendezvous (\<^verbatim>\<open>handshake.rs\<close>) and the handshake of two peers over it.
  \<^item> \<open>B2P_Words\<close>, \<open>B2P_Codes\<close>, \<open>B2P_Config\<close>, \<open>B2P_Cli\<close>: codes, relay configuration, every command
    of the command line as a trace of output with a result.
  \<^item> \<open>B2P_Server\<close>, \<open>B2P_Serve\<close>, \<open>B2P_Send\<close>, \<open>B2P_Upload\<close>, \<open>B2P_Tunnel\<close>: the tunnel path; \<open>B2P_Serve\<close> is the
    server with several requests in flight, of which \<open>serve\<close> is the run of a request alone (\<open>serve_alone\<close>).
    In \<open>B2P_Send\<close> up to four uploads take turns (\<open>pool_run\<close>; \<open>pool_alone\<close>: one alone is \<open>upload_with_retry\<close>);
    \<open>B2P_Upload\<close> runs them against the server over a connection that loses messages (\<open>flaky\<close>).
  \<^item> \<open>B2P_Webrtc\<close>, \<open>B2P_Rendezvous\<close>, \<open>B2P_Turn\<close>: the direct path.
  \<^item> \<open>B2P_Stun\<close>, \<open>B2P_Net\<close>, \<open>B2P_Trust\<close>, \<open>B2P_Doctor\<close>: address text forms, trust options, TLS probe,
    DNS over HTTPS, diagnosis.
  \<^item> \<open>B2P_Reference\<close>: one concrete instance of the third-party parameters, with its codecs (locale
    \<open>codec\<close>), so that every hypothesis below is met by functions one can compute with.

  \<^bold>\<open>Third-party code\<close> is an argument everywhere: the records \<open>crypto_lib\<close>, \<open>proto_lib\<close>, \<open>store_lib\<close>,
  \<open>spake_lib\<close>, \<open>webrtc_lib\<close>, \<open>pem_lib\<close> and others hold its functions. What is relied on has a name:
  \<open>aead_correct\<close> (decryption inverts encryption), \<open>aead_tag16\<close>, \<open>derive_key_32\<close>, \<open>b58_correct\<close>,
  \<open>b58_strict\<close> (decoding refuses characters outside the alphabet), \<open>reads_controls\<close> (the JSON parser
  reads the relay's control texts), \<open>lists_open\<close> (the Worker's runtime lists every open socket),
  \<open>b64_correct\<close>, \<open>json_correct\<close>, \<open>spake_correct\<close> (equal passwords give equal keys),
  \<open>confirmations_differ\<close> (the keyed hash does not collide on the two texts), \<open>pc_contract\<close> (a remote
  description stays set). Secrecy against an attacker who breaks these is not a subject here.

  \<^bold>\<open>What is shown.\<close> C1 to C5: files arrive, over the stream, a relay session and the tunnel, under
  every schedule, also after a cut; different codes refuse each other. C6 to C8: a crash at any
  operation of a chunk write loses nothing recorded, a receive stays inside its directory, automatic
  acceptance replaces nothing. C9 to C11: nonces, key confirmation, a
  direct session from the rendezvous to the file. C12 to C17: through the Worker each direction of
  the relay is a queue, buffers and window are bounded, a whole session over the path of \<open>B2P_Stack\<close> never
  gets stuck and ends as C2 says, a peer that dials again keeps the pairing. C18 to C20: the tunnel's authentication and retries. C21 to C28:
  codes and the rooms they name, configuration, the waiting loop. C29 and C30: STUN. C31: the
  in-process relay behaves as the Worker. C32 to C35: chunk sets, closing a relay channel, text,
  refusal. C36 and C37: WebRTC signalling and close. C38 to C40: rendezvous, the pinned binary, the
  verdict of the diagnosis. Defects are proved by \<open>torn_binary_reused\<close> in \<open>B2P_Tunnel\<close>,
  \<open>takeover_gap\<close> in \<open>B2P_Room\<close> and \<open>foreign_frame_ends_receive\<close> in \<open>B2P_Session\<close>.

  \<^bold>\<open>Loops and time.\<close> Recursion is structural or has a measure. Where the source waits, the events it
  waits for are a list, and a run that has used them up is \<open>None\<close>, still waiting. Deadlines are
  events too, or, for the handshakes, a budget of frames that may be read; two frames are enough for
  an undisturbed handshake, and each foreign frame costs one more. Sizes and counters that can wrap
  are machine words; the lengths of buffers in memory are natural numbers.

  \<^bold>\<open>Not modelled.\<close> The progress bar (\<^verbatim>\<open>progress.rs\<close>) and the module lists (\<^verbatim>\<open>lib.rs\<close>, \<^verbatim>\<open>transport/mod.rs\<close>):
  they hold no logic of a transfer. The parsing of arguments by clap, the terminal, file modes, and
  text outside ASCII. Of the tunnel server, a handler that works on the transfer is one step, since it
  holds the lock throughout. A round of the WebRTC pump and each callback run as one step; atomics are
  sequentially consistent. In the stack of C16 connections do not break and the watchdog does not fire (those
  outcomes are branches of \<open>relay_send\<close> and \<open>io_iter\<close>), and the queue of received frames has no bound, where the
  source has 64 frames. The unit tests are about half of the lines of several source files; of
  them only the in-memory rendezvous, which implements an interface of the program, is modelled.
\<close>

section \<open>Concrete inputs\<close>

text \<open>A disk with one file below an existing directory, used by the witnesses.\<close>

definition demo_disk :: "path \<Rightarrow> bytes \<Rightarrow> fs" where
  "demo_disk p c = \<lparr>files = (\<lambda>q. if q = p then Some (File c) else if strict_prefix q p then Some Dir else None),
     io_fault = None\<rparr>"

definition empty_disk :: fs where
  "empty_disk = \<lparr>files = (\<lambda>q. if q = [] then Some Dir else None), io_fault = None\<rparr>"

lemma empty_disk_sel: "files empty_disk q = (if q = [] then Some Dir else None)" "io_fault empty_disk = None"
  by (simp_all add: empty_disk_def)

lemma empty_disk_openable: "openable out_dir nm empty_disk"
  by (auto simp: openable_def empty_disk_sel partial_dir_def)

lemma empty_disk_resumable:
  "length c = unat tot \<Longrightarrow> csz \<noteq> 0 \<Longrightarrow> resumable L out_dir nm tid tot csz c empty_disk"
  by (rule fresh_resumable) (simp_all add: empty_disk_openable empty_disk_sel partial_dir_def)

lemma demo_disk_sel:
  "io_fault (demo_disk p c) = None" "files (demo_disk p c) p = Some (File c)"
  by (simp_all add: demo_disk_def)

lemma safe_name_a: "safe_name ''a.txt'' = ''a.txt''" "safe_name ''dir/a.txt'' = ''a.txt''"
  by (simp_all add: safe_name_def file_name_def)

lemma demo_resumable:
  "resumable reference_lib [''out''] (safe_name ''dir/a.txt'') ''id'' 3 STREAM_FRAME_SIZE [1, 2, 3] empty_disk"
  "files empty_disk ([''out''] @ [safe_name ''dir/a.txt'']) \<noteq> Some Dir"
  by (rule empty_disk_resumable) (simp_all add: empty_disk_sel)

abbreviation demo_source :: source where
  "demo_source \<equiv> Blob KFile ''dir/a.txt'' [] 3 ''id'' [''a''] None"

lemma demo_state:
  "opened_state reference_lib [''out''] (safe_name ''dir/a.txt'') ''id'' 3 STREAM_FRAME_SIZE empty_disk =
    fresh_state ''id'' 3 STREAM_FRAME_SIZE"
  by (simp add: opened_state_def read_result_def loaded_state_def empty_disk_sel partial_dir_def)

lemma ex_return_schedule:
  "\<exists>f'. said M ce c a (b f') \<and> P f' \<Longrightarrow> \<exists>f'. P f' \<and> every_schedule ce c a (b f')"
  by (elim exE conjE, rule exI, rule conjI, assumption, erule said_both_return [THEN every_scheduleI])

lemma ex_meets_schedule:
  "\<exists>f'. meets M (p, q, [], []) a (b f') \<and> P f' \<Longrightarrow> \<exists>f'. P f' \<and> every_schedule ce (p, q, [], []) a (b f')"
  by (elim exE conjE, rule exI, rule conjI, assumption, erule meets_every_schedule)

section \<open>Transfer over a channel\<close>

text \<open>
  C1. Delivery of a file over the stream, fresh or resumed: sender and receiver under the same
  key, joined by a reliable ordered channel, always stop, whatever the schedule of their sends
  and receives, with success on both sides; the receiver's disk then holds the content under the
  file's own name in the output directory, the staging directory is gone, and everything else is
  as it was.
\<close>

theorem stream_file_delivered:
  fixes L :: "'x store_lib_scheme"
  assumes "aead_correct L" and "json_correct L"
    and "io_fault fs = None" and "files fs p = Some (File c)"
    and "accept (stream_manifest (Blob KFile name ents tot tid p spool))"
    and "resumable L out_dir (safe_name name) tid tot STREAM_FRAME_SIZE c f"
    and "files f (out_dir @ [safe_name name]) \<noteq> Some Dir"
  shows "\<exists>f'. files f' = delivered out_dir (safe_name name) c f \<and>
    every_schedule ce (send_source L key (Blob KFile name ents tot tid p spool) fs,
        recv_into L key out_dir accept f, [], [])
      (Inr ''transfer complete'', fs)
      (Inr (''saved '' @ path_text (out_dir @ [safe_name name])), f')"
  by (rule ex_meets_schedule) (rule stream_delivers [where M = "\<lambda>_. True" and accept = accept and key = key, OF assms];
    simp add: list_all_iff)

theorem stream_file_delivered_witness:
  "\<exists>f'. files f' = delivered [''out''] ''a.txt'' [1, 2, 3] empty_disk \<and>
    every_schedule peer_closed (send_source reference_lib [7] demo_source (demo_disk [''a''] [1, 2, 3]),
        recv_into reference_lib [7] [''out''] (\<lambda>_. True) empty_disk, [], [])
      (Inr ''transfer complete'', demo_disk [''a''] [1, 2, 3]) (Inr ''saved out/a.txt'', f')"
  using stream_file_delivered [where ce = peer_closed and accept = "\<lambda>_. True" and ents = "[]" and spool = None
      and key = "[7]", OF reference_aead reference_json demo_disk_sel TrueI demo_resumable]
  by (simp add: safe_name_a)

text \<open>
  C2. A whole relay session with one code on both sides: after the room is joined, key exchange,
  confirmation, transfer and closing always end, under every schedule, with success on both sides
  and the file delivered.
\<close>

theorem relay_session_delivered:
  fixes L :: "'x store_lib_scheme"
  assumes "aead_correct L" and "json_correct L" and "spake_correct S"
    and "io_fault fs = None" and "files fs p = Some (File c)"
    and "accept (stream_manifest (Blob KFile name ents tot tid p spool))"
    and "resumable L out_dir (safe_name name) tid tot STREAM_FRAME_SIZE c f"
    and "files f (out_dir @ [safe_name name]) \<noteq> Some Dir"
  shows "\<exists>f'. files f' = delivered out_dir (safe_name name) c f \<and>
    every_schedule ce
      (send_relay L S rs (Suc (Suc m)) (Inr ()) topic secret (Blob KFile name ents tot tid p spool) fs,
       receive_relay L S rr (Suc (Suc n)) (Inr ()) topic secret out_dir accept f, [], [])
      (Inr ''transfer complete'', fs)
      (Inr (''saved '' @ path_text (out_dir @ [safe_name name])), f')"
  by (rule ex_return_schedule) (rule session_delivers [where M = "\<lambda>_. True" and accept = accept, OF assms];
    simp add: list_all_iff)

theorem relay_session_delivered_witness:
  "\<exists>f'. files f' = delivered [''out''] ''a.txt'' [1, 2, 3] empty_disk \<and>
    every_schedule peer_closed
      (send_relay reference_lib reference_spake [1] (Suc (Suc 0)) (Inr ()) ''room'' [7, 8, 9] demo_source
         (demo_disk [''a''] [1, 2, 3]),
       receive_relay reference_lib reference_spake [2] (Suc (Suc 0)) (Inr ()) ''room'' [7, 8, 9] [''out'']
         (\<lambda>_. True) empty_disk, [], [])
      (Inr ''transfer complete'', demo_disk [''a''] [1, 2, 3]) (Inr ''saved out/a.txt'', f')"
  using relay_session_delivered [where ce = peer_closed and accept = "\<lambda>_. True" and ents = "[]" and spool = None
      and rs = "[1]" and rr = "[2]" and m = 0 and n = 0 and topic = "''room''" and secret = "[7, 8, 9]",
      OF reference_aead reference_json reference_spake_correct demo_disk_sel TrueI demo_resumable]
  by (simp add: safe_name_a)

text \<open>
  C3. Two codes that lead to keys whose confirmations differ: under every schedule both sides end with the
  mismatch marker, and neither disk changes.
\<close>

theorem wrong_code_refused:
  fixes L :: "'x store_lib_scheme"
  assumes "confirmations_differ L k1 k2"
    and "pake_finish S (fst (pake_start S rs sec_s topic)) (snd (pake_start S rr sec_r topic)) = Inr k1"
    and "pake_finish S (fst (pake_start S rr sec_r topic)) (snd (pake_start S rs sec_s topic)) = Inr k2"
  shows "every_schedule ce
      (send_relay L S rs (Suc (Suc m)) (Inr ()) topic sec_s src fs,
       receive_relay L S rr (Suc (Suc n)) (Inr ()) topic sec_r out_dir accept f, [], [])
      (Inl CodeMismatch, fs) (Inl CodeMismatch, f)"
  by (rule every_scheduleI, rule said_both_return) (rule session_mismatch [OF assms])

theorem wrong_code_refused_witness:
  "every_schedule peer_closed
      (send_relay reference_lib reference_spake [1] (Suc (Suc 0)) (Inr ()) ''room'' [7] demo_source empty_disk,
       receive_relay reference_lib reference_spake [2] (Suc (Suc 0)) (Inr ()) ''room'' [8] [''out''] (\<lambda>_. True)
         empty_disk, [], [])
      (Inl CodeMismatch, empty_disk) (Inl CodeMismatch, empty_disk)"
proof (rule wrong_code_refused [OF reference_confirmations])
  show "pake_finish reference_spake (fst (pake_start reference_spake [1] [7] ''room''))
      (snd (pake_start reference_spake [2] [8] ''room'')) = Inr (take 32 ([7] @ replicate 32 0))"
    by (simp add: pake_finish_def pake_start_def reference_spake_def)
  show "pake_finish reference_spake (fst (pake_start reference_spake [2] [8] ''room''))
      (snd (pake_start reference_spake [1] [7] ''room'')) = Inr (take 32 ([8] @ replicate 32 0))"
    by (simp add: pake_finish_def pake_start_def reference_spake_def)
  show "take 32 ([7] @ replicate 32 0) \<noteq> (take 32 ([8] @ replicate 32 0) :: bytes)" by simp
qed

text \<open>
  C4. A transfer that breaks off after any number of frames, with an error of the channel, leaves
  the receiver's disk in a state from which a second run of the same transfer, under any key,
  delivers the file: the receiver then has the content and nothing of the staging is left.
\<close>

theorem broken_transfer_resumes:
  fixes L :: "'x store_lib_scheme"
  assumes "aead_correct L" and "json_correct L" and "state_json_correct L"
    and "io_fault fs = None" and "files fs p = Some (File c)"
    and "accept (stream_manifest src)" and "src = Blob KFile name ents tot tid p spool"
    and "resumable L out_dir (safe_name name) tid tot STREAM_FRAME_SIZE c f"
    and "files f (out_dir @ [safe_name name]) \<noteq> Some Dir"
    and "n \<le> length (missing_frames (opened_store L out_dir (safe_name name) tid tot STREAM_FRAME_SIZE f))"
  shows "\<exists>f1 f2.
    snd (play (recv_into L key out_dir accept f)
      (Inr (seal_val L (js_manifest L) (stream_key L key) StreamToReceiver 0 (stream_manifest src)) #
       map (\<lambda>i. Inr (seal L (stream_key L key) StreamToReceiver (1 + i) [] (frame_of c i)))
         (take n (missing_frames (opened_store L out_dir (safe_name name) tid tot STREAM_FRAME_SIZE f))) @
       [Inl e])) = Some (Inl e, f1) \<and>
    every_schedule ce (send_source L key2 src fs, recv_into L key2 out_dir accept f1, [], [])
      (Inr ''transfer complete'', fs)
      (Inr (''saved '' @ path_text (out_dir @ [safe_name name])), f2) \<and>
    files f2 = delivered out_dir (safe_name name) c f"
proof -
  obtain f1 where f1: "snd (play (recv_into L key out_dir accept f)
      (Inr (seal_val L (js_manifest L) (stream_key L key) StreamToReceiver 0 (stream_manifest src)) #
       map (\<lambda>i. Inr (seal L (stream_key L key) StreamToReceiver (1 + i) [] (frame_of c i)))
         (take n (missing_frames (opened_store L out_dir (safe_name name) tid tot STREAM_FRAME_SIZE f))) @
       [Inl e])) = Some (Inl e, f1)"
    and res: "resumable L out_dir (safe_name name) tid tot STREAM_FRAME_SIZE c f1"
    and same: "delivered out_dir (safe_name name) c f1 = delivered out_dir (safe_name name) c f"
      "files f1 (out_dir @ [safe_name name]) = files f (out_dir @ [safe_name name])"
    using recv_cut [where accept = accept, OF assms(1-3,6-8,10), of key e] by blast
  have dest: "files f1 (out_dir @ [safe_name name]) \<noteq> Some Dir" using same(2) assms(9) by simp
  obtain f2 where f2: "meets (\<lambda>_. True) (send_source L key2 src fs, recv_into L key2 out_dir accept f1, [], [])
      (Inr ''transfer complete'', fs)
      (Inr (''saved '' @ path_text (out_dir @ [safe_name name])), f2)"
    "files f2 = delivered out_dir (safe_name name) c f1"
    using stream_delivers [where M = "\<lambda>_. True" and accept = accept and key = key2, OF assms(1,2,4,5) _ res dest]
      assms(6) unfolding assms(7) by (auto simp: list_all_iff)
  show ?thesis
    by (intro exI [of _ f1] exI [of _ f2] conjI f1 meets_every_schedule [OF f2(1)]) (simp add: f2(2) same(1))
qed

lemma demo_missing:
  "missing_frames (opened_store reference_lib [''out''] (safe_name ''dir/a.txt'') ''id'' 3 STREAM_FRAME_SIZE empty_disk) = [0]"
  by (simp add: demo_state missing_frames_def opened_store_def store_have_def nchunks_def fresh_state_def ceil_nat_def)

theorem broken_transfer_resumes_witness:
  "\<exists>f1 f2.
    snd (play (recv_into reference_lib [7] [''out''] (\<lambda>_. True) empty_disk)
      [Inr (seal_val reference_lib (js_manifest reference_lib) (stream_key reference_lib [7]) StreamToReceiver 0
         (stream_manifest demo_source)),
       Inr (seal reference_lib (stream_key reference_lib [7]) StreamToReceiver 1 [] (frame_of [1, 2, 3] 0)),
       Inl peer_closed]) = Some (Inl peer_closed, f1) \<and>
    every_schedule peer_closed (send_source reference_lib [9] demo_source (demo_disk [''a''] [1, 2, 3]),
        recv_into reference_lib [9] [''out''] (\<lambda>_. True) f1, [], [])
      (Inr ''transfer complete'', demo_disk [''a''] [1, 2, 3]) (Inr ''saved out/a.txt'', f2) \<and>
    files f2 = delivered [''out''] ''a.txt'' [1, 2, 3] empty_disk"
  using broken_transfer_resumes [where ce = peer_closed and accept = "\<lambda>_. True" and src = demo_source and n = 1 and key = "[7]"
      and ?key2.0 = "[9]" and e = peer_closed, OF reference_aead reference_json reference_state_json demo_disk_sel
      TrueI refl demo_resumable]
  unfolding demo_missing by (simp add: safe_name_a)

text \<open>
  C5. Delivery through the tunnel: the uploading client, with up to four uploads under way, against the
  HTTP server of the receiver, over a connection that may lose chunk requests before they arrive and
  answers to chunk requests, fewer than the attempts an upload has. In whatever turns the uploads proceed,
  the send can always be completed, and then it reports success and the file is delivered.
\<close>

theorem tunnel_file_delivered:
  fixes L :: "'x store_lib_scheme"
  assumes "aead_correct L" and "aead_tag16 L" and "json_correct L"
    and "io_fault fs = None" and "files fs p = Some (File c)"
    and "src = Blob KFile name ents tot tid p spool" and "build_manifest src = Inr m"
    and "losses fates < CHUNK_ATTEMPTS"
    and "takes ask cfg f m"
    and "resumable L (sc_out_dir cfg) (server_safe_name name) tid tot CHUNK_SIZE c f"
    and "files f (sc_out_dir cfg @ [server_safe_name name]) \<noteq> Some Dir"
    and "length (seal_json L (js_manifest L) (data_key L (sc_secret cfg)) DManifest [] m) \<le> body_limit"
    and "length (seal_json L (js_commit L) (data_key L (sc_secret cfg)) DCommit (str_bytes tid)
           \<lparr>co_blake3_hex = blake3_hex L c\<rparr>) \<le> body_limit"
  shows "(\<forall>r. tunnel_send L (flaky (serve L ask)) turns (Inr ()) host (sc_secret cfg) src fs
        (fates, server_start L cfg f) = Some r \<longrightarrow>
      (\<exists>fates' app'. r = (Inr ''transfer complete'', fs, fates', app') \<and>
        files (ap_disk app') = delivered (sc_out_dir cfg) (server_safe_name name) c f)) \<and>
    (\<exists>more. tunnel_send L (flaky (serve L ask)) (turns @ more) (Inr ()) host (sc_secret cfg) src fs
        (fates, server_start L cfg f) \<noteq> None)"
  using tunnel_delivers [OF assms] by blast

definition demo_cfg :: server_cfg where
  "demo_cfg = \<lparr>sc_secret = [5], sc_out_dir = [''out''], sc_auto_accept = True, sc_overwrite = False\<rparr>"

theorem tunnel_file_delivered_witness:
  "\<exists>turns fates' app'. tunnel_send reference_lib (flaky (serve reference_lib (\<lambda>_. None))) turns (Inr ()) ''host'' [5]
      demo_source (demo_disk [''a''] [1, 2, 3]) ([AnswerLost, RequestLost], server_start reference_lib demo_cfg empty_disk) =
      Some (Inr ''transfer complete'', demo_disk [''a''] [1, 2, 3], fates', app') \<and>
    files (ap_disk app') = delivered [''out''] ''a.txt'' [1, 2, 3] empty_disk"
proof -
  obtain m where m: "build_manifest demo_source = Inr m" by (simp add: build_manifest_def)
  have nm: "server_safe_name ''dir/a.txt'' = ''a.txt''" by (simp add: server_safe_name_def file_name_def)
  have t: "takes (\<lambda>_. None) demo_cfg empty_disk m"
    using m by (auto simp: takes_def demo_cfg_def build_manifest_def fs_exists_def empty_disk_sel)
  have res: "resumable reference_lib (sc_out_dir demo_cfg) (server_safe_name ''dir/a.txt'') ''id'' 3 CHUNK_SIZE
      [1, 2, 3] empty_disk" by (rule empty_disk_resumable) simp_all
  have dest: "files empty_disk (sc_out_dir demo_cfg @ [server_safe_name ''dir/a.txt'']) \<noteq> Some Dir"
    by (simp add: empty_disk_sel)
  have sz: "length (seal_json reference_lib to_vec k d a v) = length (to_vec v) + 16" for to_vec :: "'v \<Rightarrow> bytes" and k d a v
    using reference_tag16 by (simp add: seal_json_def seal_def aead_tag16_def)
  have bl: "116 \<le> body_limit" by (simp add: body_limit_def CHUNK_SIZE_def)
  have s1: "length (seal_json reference_lib (js_manifest reference_lib) (data_key reference_lib (sc_secret demo_cfg))
      DManifest [] m) \<le> body_limit"
  proof -
    have "length (js_manifest reference_lib \<lparr>m_version = PROTOCOL_VERSION, m_transfer_id = ''id'', m_kind = KFile,
        m_name = ''dir/a.txt'', m_entries = [], m_total_size = 3, m_chunk_size = CHUNK_SIZE, m_text = None\<rparr>) < 100"
      by (simp add: reference_lib_def put_manifest_def put_via_def put_pair_def put_list_def put_len_def put_char_def
          put_opt_def put_u64_def put_u32_def put_kind_def)
    then show ?thesis using m bl by (auto simp: sz build_manifest_def)
  qed
  have s2: "length (seal_json reference_lib (js_commit reference_lib) (data_key reference_lib (sc_secret demo_cfg))
      DCommit (str_bytes ''id'') \<lparr>co_blake3_hex = blake3_hex reference_lib [1, 2, 3]\<rparr>) \<le> body_limit"
  proof -
    have "length (js_commit reference_lib \<lparr>co_blake3_hex = blake3_hex reference_lib [1, 2, 3]\<rparr>) < 100" by code_simp
    then show ?thesis using bl by (simp add: sz)
  qed
  have few: "losses [AnswerLost, RequestLost] < CHUNK_ATTEMPTS" by (simp add: CHUNK_ATTEMPTS_def)
  note send = tunnel_file_delivered [where host = "''host''", OF reference_aead reference_tag16
      reference_json demo_disk_sel refl m few t res dest s1 s2]
  obtain turns r where "tunnel_send reference_lib (flaky (serve reference_lib (\<lambda>_. None))) turns (Inr ()) ''host''
      (sc_secret demo_cfg) demo_source (demo_disk [''a''] [1, 2, 3])
      ([AnswerLost, RequestLost], server_start reference_lib demo_cfg empty_disk) = Some r" using send [of "[]"] by auto
  then show ?thesis using send [of turns] by (auto simp: nm demo_cfg_def)
qed

section \<open>The receiver's disk\<close>

text \<open>
  C6. A failure, or a crash, at any point of a chunk write: \<open>io_fault\<close> says after how many file
  operations the disk fails and how much of the failing write gets through. Reopening the store
  afterwards on a working disk gives a well-formed store that holds exactly the chunks staged
  before and, only if the write reported success, the new one.
\<close>

theorem crash_during_write_recovers:
  assumes "store_inv L (st, f\<lparr>io_fault := None\<rparr>)" and "state_json_correct L"
    and "st_dir st = partial_dir out_dir nm" and "openable out_dir nm f"
    and "unat i < nchunks st" and "length b = chunk_bytes st (unat i)"
    and "staged (st, f\<lparr>io_fault := None\<rparr>) (unat i) \<in> {None, Some b}"
    and "write_chunk L st i b f = (r, st1, f1)"
  shows "\<exists>st2 f2. open_or_create L out_dir nm (ss_transfer_id (st_state st))
      (ss_total_size (st_state st)) (ss_chunk_size (st_state st)) (f1\<lparr>io_fault := None\<rparr>) = (Inr st2, f2) \<and>
    store_inv L (st2, f2) \<and>
    staged (st2, f2) = (if r = Inr () then (staged (st, f\<lparr>io_fault := None\<rparr>))(unat i \<mapsto> b)
                        else staged (st, f\<lparr>io_fault := None\<rparr>))"
  by (rule crash_recovers [OF assms(1-6) _ assms(8)]) (use assms(7) in auto)

abbreviation demo_store :: store where
  "demo_store \<equiv> opened_store reference_lib [''out''] ''a.txt'' ''id'' 3 STREAM_FRAME_SIZE empty_disk"

abbreviation demo_staging :: fs where
  "demo_staging \<equiv> opened_fs reference_lib demo_store 3 empty_disk"

lemma demo_store_state: "st_state demo_store = fresh_state ''id'' 3 STREAM_FRAME_SIZE"
  by (simp add: opened_store_def opened_state_def read_result_def loaded_state_def empty_disk_sel partial_dir_def)

lemma demo_store_inv: "store_inv reference_lib (demo_store, demo_staging)"
  by (rule opened_inv) (simp_all add: empty_disk_sel state_ok_def demo_store_state fresh_state_def ascending_def)

theorem crash_during_write_recovers_witness:
  "\<exists>st2 f2. open_or_create reference_lib [''out''] ''a.txt'' ''id'' 3 STREAM_FRAME_SIZE
      ((snd (snd (write_chunk reference_lib demo_store 0 [1, 2, 3] (demo_staging\<lparr>io_fault := Some (0, 2)\<rparr>))))
         \<lparr>io_fault := None\<rparr>) = (Inr st2, f2) \<and>
    store_inv reference_lib (st2, f2) \<and> staged (st2, f2) = Map.empty"
proof -
  obtain r st1 f1 where w: "write_chunk reference_lib demo_store 0 [1, 2, 3] (demo_staging\<lparr>io_fault := Some (0, 2)\<rparr>) =
      (r, st1, f1)" by (metis prod.exhaust)
  have so: "state_ok demo_store" using demo_store_inv by (simp add: store_inv_def)
  have n: "nchunks demo_store = 1" "chunk_bytes demo_store 0 = 3"
    by (simp_all add: nchunks_def ceil_nat_def chunk_bytes_def)
  have none: "staged (demo_store, f) = Map.empty" for f
    by (simp add: staged_def fun_eq_iff demo_store_state fresh_state_def)
  have e: "demo_staging\<lparr>io_fault := Some (0, 2), io_fault := None\<rparr> = demo_staging"
    using demo_store_inv by (simp add: store_inv_def)
  have op: "openable [''out''] ''a.txt'' (demo_staging\<lparr>io_fault := Some (0, 2)\<rparr>)"
    by (auto simp: openable_def opened_fs_def empty_disk_sel)
  have "r \<noteq> Inr ()"
    using w write_chunk_accepts [OF so, of 0 "[1, 2, 3]" reference_lib "demo_staging\<lparr>io_fault := Some (0, 2)\<rparr>"] n
    by (auto simp: fs_write_at_def io_tick_def split: prod.splits)
  then show ?thesis
    using crash_during_write_recovers [where f = "demo_staging\<lparr>io_fault := Some (0, 2)\<rparr>" and i = 0, OF _
        reference_state_json _ op _ _ _ w] demo_store_inv n none
    unfolding e w by (simp add: demo_store_state fresh_state_def)
qed

text \<open>
  C7. Whatever a peer that knows the key sends, and whatever fails on the way, a receive changes
  nothing but the way down to the output directory and plain names below it: no name in a
  manifest reaches a path outside.
\<close>

theorem receive_stays_inside:
  assumes "snd (play (recv_into L key out_dir accept f) ins) = Some (r, f')"
    and "tar_confined L" and "\<not> below out_dir q"
  shows "files f' q = files f q"
  by (rule recv_confined [OF assms])

lemma reference_tar: "tar_confined reference_lib"
  unfolding tar_confined_def reference_lib_def by (simp add: io_keeps_def io_ret_def)

theorem receive_stays_inside_witness:
  "files (snd (the (snd (play (recv_into reference_lib [7] [''out''] (\<lambda>_. True) (demo_disk [''etc'', ''passwd''] [0]))
      [Inr [1, 2, 3]])))) [''etc'', ''passwd''] = Some (File [0])"
proof -
  have "snd (play (recv_into reference_lib [7] [''out''] (\<lambda>_. True) (demo_disk [''etc'', ''passwd''] [0]))
      [Inr [1, 2, 3]]) \<noteq> None"
    by (simp add: recv_into_def Let_def open_val_def open_sealed_def reference_lib_def aead_head_def
        stream_key_def str_bytes_def split: sum.split)
  then obtain r f' where run: "snd (play (recv_into reference_lib [7] [''out''] (\<lambda>_. True)
      (demo_disk [''etc'', ''passwd''] [0])) [Inr [1, 2, 3]]) = Some (r, f')" by auto
  have "\<not> below [''out''] [''etc'', ''passwd'']" by (auto simp: below_def)
  from receive_stays_inside [OF run reference_tar this] show ?thesis unfolding run by (simp add: demo_disk_def)
qed

text \<open>
  C8. With \<^verbatim>\<open>--yes\<close> and without \<^verbatim>\<open>--overwrite\<close>, a file that is already in the output directory keeps its
  content, whatever the peer sends as a single file or text (an archive may still replace it).
\<close>

theorem auto_accept_keeps_files:
  assumes "snd (play (recv_into L key out (accept_decision f out True False line) f) ins) = Some (r, f')"
    and "\<And>m. received_manifest L key ins m \<Longrightarrow> m_kind m \<noteq> KTar"
    and "files f out = Some Dir" and "files f (out @ [n]) \<noteq> None"
    and "\<not> suffix ''.b2p-partial'' n"
  shows "files f' (out @ [n]) = files f (out @ [n])"
  by (rule auto_accept_keeps [OF assms])

theorem auto_accept_keeps_files_witness:
  "\<exists>r f'. snd (play (recv_into reference_lib [7] [''out'']
      (accept_decision (demo_disk [''out'', ''a.txt''] [9]) [''out''] True False None) (demo_disk [''out'', ''a.txt''] [9]))
      [Inr (seal_val reference_lib (js_manifest reference_lib) (stream_key reference_lib [7]) StreamToReceiver 0
         (stream_manifest demo_source))]) = Some (r, f') \<and>
    files f' [''out'', ''a.txt''] = Some (File [9])"
proof -
  let ?f = "demo_disk [''out'', ''a.txt''] [9]" and ?m = "stream_manifest demo_source"
  let ?ct = "seal_val reference_lib (js_manifest reference_lib) (stream_key reference_lib [7]) StreamToReceiver 0 ?m"
  let ?accept = "accept_decision ?f [''out''] True False None"
  have op: "open_val reference_lib (un_manifest reference_lib) (stream_key reference_lib [7]) StreamToReceiver 0 ?ct =
      Inr ?m" by (rule open_frames [OF reference_aead reference_json])
  have dir: "files ?f [''out''] = Some Dir" by (simp add: demo_disk_def)
  have kf: "m_kind ?m = KFile" "safe_name (m_name ?m) = ''a.txt''"
    and mf: "m_version ?m = PROTOCOL_VERSION" "m_chunk_size ?m = STREAM_FRAME_SIZE"
    by (simp_all add: stream_manifest_def safe_name_a)
  have "\<not> ?accept ?m" by (rule auto_accept_refuses [OF kf dir]) (simp add: demo_disk_def)
  then obtain r f' where run: "snd (play (recv_into reference_lib [7] [''out''] ?accept ?f) [Inr ?ct]) = Some (r, f')"
    by (simp add: recv_into_def Let_def op kf mf)
  have kind: "m_kind m \<noteq> KTar" if "received_manifest reference_lib [7] [Inr ?ct] m" for m
    using that op kf by (auto simp: received_manifest_def)
  have "files f' ([''out''] @ [''a.txt'']) = files ?f ([''out''] @ [''a.txt''])"
    by (rule auto_accept_keeps_files [OF run kind dir]) (auto simp: demo_disk_def suffix_def)
  then show ?thesis using run by (auto simp: demo_disk_def)
qed

section \<open>Keys and nonces\<close>

text \<open>
  C9. No nonce is used twice under a session's stream key: whatever the peer answers and whatever
  the disks do, everything a sender and a receiver put on the channel is an encryption under that
  key, and the nonces of all those encryptions, of both sides together, are distinct.
\<close>

theorem stream_nonces_distinct:
  fixes L :: "'x store_lib_scheme"
  shows "\<exists>is js. distinct (map (make_nonce StreamToReceiver) is @ map (make_nonce StreamToSender) js) \<and>
    list_all2 (\<lambda>i m. \<exists>pt. m = xchacha_encrypt L (stream_key L key) (make_nonce StreamToReceiver i) [] pt) is
      (fst (play (send_source L key src f) ins)) \<and>
    list_all2 (\<lambda>j m. \<exists>pt. m = xchacha_encrypt L (stream_key L key) (make_nonce StreamToSender j) [] pt) js
      (fst (play (recv_into L key out_dir accept g) ins'))"
proof -
  obtain "is" js where s: "distinct is" "sealed_at L (stream_key L key) StreamToReceiver is
      (fst (play (send_source L key src f) ins))"
    and r: "distinct js" "sealed_at L (stream_key L key) StreamToSender js
      (fst (play (recv_into L key out_dir accept g) ins'))"
    using send_source_sealed recv_into_sealed by blast
  have "distinct (map (make_nonce StreamToReceiver) is @ map (make_nonce StreamToSender) js)"
    using s(1) r(1) by (auto simp: distinct_map inj_on_def make_nonce_inject)
  then show ?thesis using s(2) r(2) unfolding sealed_at_def seal_def by blast
qed

text \<open>
  C10. A handshake over a channel yields a key only if the peer's messages contain, in this order,
  a PAKE message that completes to that key and the confirmation of the peer's role under it: no
  key is ever used that the other side has not confirmed.
\<close>

theorem key_is_confirmed:
  assumes "snd (play (handshake_over_channel L S rnd n ctx pw role) ins) = Some (Inr key)"
  shows "\<exists>pre mid post m. ins = pre @ Inr (encode_frame KIND_PAKE (other role) m) # mid @
      Inr (encode_frame KIND_CONFIRM (other role) (confirmation L key (other role))) # post \<and>
    pake_finish S (fst (pake_start S rnd pw ctx)) m = Inr key"
  by (rule key_needs_confirmation [OF assms])

abbreviation demo_key :: bytes where
  "demo_key \<equiv> take 32 ([7] @ replicate 32 0)"

lemma demo_pake: "pake_finish reference_spake (fst (pake_start reference_spake r [7] ctx)) m = Inr demo_key"
  by (simp add: pake_finish_def pake_start_def reference_spake_def)

theorem key_is_confirmed_witness:
  "\<exists>pre mid post m. [Inr (encode_frame KIND_PAKE Sender [5]) :: bytes res,
      Inr (encode_frame KIND_CONFIRM Sender (confirmation reference_lib demo_key Sender))] =
      pre @ Inr (encode_frame KIND_PAKE Sender m) # mid @
      Inr (encode_frame KIND_CONFIRM Sender (confirmation reference_lib demo_key Sender)) # post \<and>
    pake_finish reference_spake (fst (pake_start reference_spake [1] [7] ''room'')) m = Inr demo_key"
proof -
  have "snd (play (handshake_over_channel reference_lib reference_spake [1] (Suc (Suc 0)) ''room'' [7] Receiver)
      [Inr (encode_frame KIND_PAKE Sender [5]),
       Inr (encode_frame KIND_CONFIRM Sender (confirmation reference_lib demo_key Sender))]) = Some (Inr demo_key)"
    using demo_pake [of "[1]" "''room''" "[5]"]
    by (simp add: handshake_over_channel_def handshake_channel_inner_def verify_confirmation_def
        split_beta del: append_Cons append_Nil)
  from key_is_confirmed [OF this] show ?thesis by (simp only: other.simps)
qed

text \<open>
  C11. A direct session: two peers of one code on a rendezvous topic, where others may publish too and
  frames may arrive twice, always come to the end of the key exchange, whatever the schedule of
  subscriptions, publications and reads, with one key on both sides; with that key the session over
  the data channel ends under every schedule with the file delivered.
\<close>

theorem direct_session_delivered:
  fixes L :: "'x store_lib_scheme"
  assumes "aead_correct L" and "json_correct L" and "spake_correct S"
    and "io_fault fs = None" and "files fs p = Some (File c)"
    and "accept (stream_manifest (Blob KFile name ents tot tid p spool))"
    and "resumable L out_dir (safe_name name) tid tot STREAM_FRAME_SIZE c f"
    and "files f (out_dir @ [safe_name name]) \<noteq> Some Dir"
    and "\<And>g. (topic, g) \<in> set log \<Longrightarrow> foreign g" and "\<And>r. length log + 2 * noise + 10 \<le> bud r"
    and "noise + 4 \<le> MEM_CAPACITY"
  shows "\<exists>key N f'.
    (\<forall>n t. (bus_step topic ^^ n) (bus_start (\<lambda>r.
        handshake_with_timeout L S (rnd r) (Inr ()) topic pw r (bud r)) log noise) t \<longrightarrow>
      n \<le> N \<and> ((\<forall>u. \<not> bus_step topic t u) \<longrightarrow> (\<forall>r. bs_proc t r = Ret (Inr key)))) \<and>
    files f' = delivered out_dir (safe_name name) c f \<and>
    every_schedule ce
      (send_p1 L (Inr key) (Inr ()) (Blob KFile name ents tot tid p spool) fs,
       receive_p1 L (Inr key) (Inr ()) out_dir accept f, [], [])
      (Inr ''transfer complete'', fs)
      (Inr (''saved '' @ path_text (out_dir @ [safe_name name])), f')"
proof -
  obtain key N where hs: "\<forall>n t. (bus_step topic ^^ n) (bus_start (\<lambda>r.
        handshake_with_timeout L S (rnd r) (Inr ()) topic pw r (bud r)) log noise) t \<longrightarrow>
      n \<le> N \<and> ((\<forall>u. \<not> bus_step topic t u) \<longrightarrow> (\<forall>r. bs_proc t r = Ret (Inr key)))"
    using rendezvous_agreement [where L = L and rnd = rnd and pw = pw and topic = topic and bud = bud,
        OF assms(3) assms(9) assms(10) assms(11)] by blast
  obtain f' where "files f' = delivered out_dir (safe_name name) c f" "every_schedule ce
      (send_p1 L (Inr key) (Inr ()) (Blob KFile name ents tot tid p spool) fs,
       receive_p1 L (Inr key) (Inr ()) out_dir accept f, [], [])
      (Inr ''transfer complete'', fs) (Inr (''saved '' @ path_text (out_dir @ [safe_name name])), f')"
    using ex_return_schedule [OF direct_delivers [where accept = accept and key = key, OF assms(1,2,4-8)]] by blast
  then show ?thesis using hs by blast
qed

theorem direct_session_delivered_witness:
  "\<exists>key N f'.
    (\<forall>n t. (bus_step ''t'' ^^ n) (bus_start (\<lambda>r.
        handshake_with_timeout reference_lib reference_spake [role_byte r] (Inr ()) ''t'' [7, 8, 9] r 13)
          [(''t'', [KIND_SDP, 0])] 1) t \<longrightarrow>
      n \<le> N \<and> ((\<forall>u. \<not> bus_step ''t'' t u) \<longrightarrow> (\<forall>r. bs_proc t r = Ret (Inr key)))) \<and>
    files f' = delivered [''out''] (safe_name ''dir/a.txt'') [1, 2, 3] empty_disk \<and>
    every_schedule peer_closed
      (send_p1 reference_lib (Inr key) (Inr ()) demo_source (demo_disk [''a''] [1, 2, 3]),
       receive_p1 reference_lib (Inr key) (Inr ()) [''out''] (\<lambda>_. True) empty_disk, [], [])
      (Inr ''transfer complete'', demo_disk [''a''] [1, 2, 3])
      (Inr (''saved '' @ path_text ([''out''] @ [safe_name ''dir/a.txt''])), f')"
proof (rule direct_session_delivered [where accept = "\<lambda>_. True" and bud = "\<lambda>_. 13",
      OF reference_aead reference_json reference_spake_correct demo_disk_sel TrueI demo_resumable])
  show "foreign g" if "(''t'', g) \<in> set [(''t'', [KIND_SDP, 0])]" for g
    using that by (auto simp: foreign_def tagged_def KIND_defs)
qed (simp_all add: MEM_CAPACITY_def)

section \<open>The relay channel\<close>



text \<open>
  C13. One socket payload: packing the pending frames gives a non-empty payload within the relay's
  limit, and the other side's debatcher recovers from it exactly the frames, or parts of them,
  that were taken: together with what is still pending nothing is lost, added or reordered, and no
  part is left over once nothing is pending.
\<close>

theorem packed_payload_decodes:
  assumes "pack_frames pending = (Some payload, rest)"
    and "list_all (\<lambda>f. length f \<le> MAX_LOGICAL_FRAME) (logical (db_partial d) pending)"
  shows "length payload \<le> MAX_WS_PAYLOAD \<and> payload \<noteq> [] \<and>
    (\<exists>out d'. debatch_push d payload = (Inr out, d') \<and>
       out @ logical (db_partial d') rest = logical (db_partial d) pending \<and>
       (rest = [] \<longrightarrow> db_partial d' = []))"
  using push_pack_frames [OF assms] pack_frames_bounded [OF assms(1)] by blast

theorem packed_payload_decodes_witness:
  "\<exists>payload out d'. pack_frames [[1, 2], [3]] = (Some payload, []) \<and>
     debatch_push \<lparr>db_partial = []\<rparr> payload = (Inr out, d') \<and> out = [[1, 2], [3]]"
proof -
  obtain payload where p: "pack_frames [[1, 2], [3]] = (Some payload, [])"
    by (simp add: pack_frames_def Let_def MAX_WS_PAYLOAD_def)
  have "list_all (\<lambda>f. length f \<le> MAX_LOGICAL_FRAME) (logical (db_partial \<lparr>db_partial = []\<rparr>) [[1, 2], [3 :: u8]])"
    by (simp add: MAX_LOGICAL_FRAME_def)
  from packed_payload_decodes [OF p this] show ?thesis using p by auto
qed

text \<open>
  C14. Memory bound of the reassembler: no payload, well-formed or not, makes it hold more than one
  maximal logical frame.
\<close>

theorem reassembler_bounded:
  assumes "length (db_partial d) \<le> MAX_LOGICAL_FRAME"
  shows "length (db_partial (snd (debatch_push d payload))) \<le> MAX_LOGICAL_FRAME"
  using push_loop_bounded [OF assms] by (simp add: debatch_push_def split: prod.split)

theorem reassembler_bounded_witness:
  "length (db_partial (snd (debatch_push \<lparr>db_partial = []\<rparr> [255, 255, 255, 255, 1]))) \<le> MAX_LOGICAL_FRAME"
  by (rule reassembler_bounded) simp

text \<open>
  C15. Flow control: a send that succeeds hands over exactly its message, and leaves at most the
  window unacknowledged, or one message beyond less than an acknowledgement interval where the
  message is larger.
\<close>

theorem send_window_bounded:
  assumes "relay_send ch msg waits = Some (Inr (), ch', out)" and "unat (rc_sent ch) + length msg < 2 ^ 64"
  shows "unat (rc_sent ch') - unat (rc_acked ch') \<le>
      max (8 * 1024 * 1024) (length msg + (1024 * 1024 - 1)) \<and>
    out = Some (OutFrame msg) \<and> length msg \<le> MAX_LOGICAL_FRAME"
  by (rule relay_send_bound [OF assms])

theorem send_window_bounded_witness:
  "\<exists>ch' out. relay_send relay_spawn [1, 2, 3] [] = Some (Inr (), ch', out) \<and>
    unat (rc_sent ch') - unat (rc_acked ch') \<le> max (8 * 1024 * 1024) (length [1, 2, 3 :: u8] + (1024 * 1024 - 1)) \<and>
    out = Some (OutFrame [1, 2, 3])"
proof -
  obtain ch' out where r: "relay_send relay_spawn [1, 2, 3] [] = Some (Inr (), ch', out)"
    by (simp add: relay_send_def relay_spawn_def window_open_def unacked_def saturating_sub_def ACK_EVERY_def
        MAX_LOGICAL_FRAME_def)
  have "unat (rc_sent relay_spawn) + length [1, 2, 3 :: u8] < 2 ^ 64" by (simp add: relay_spawn_def)
  from send_window_bounded [OF r this] r show ?thesis by blast
qed









text \<open>
  C17. A peer that dials again while the relay still holds its old connection takes its own seat over:
  once the old socket is gone the new one has the seat, the partner is told of it exactly once and is
  never told that the peer left, and the room keeps its contract.
\<close>

theorem takeover_keeps_pairing:
  assumes "room_ok G st" and "room_view st r = Some (i, q)" and "room_view st (other r) = Some (p, qp)"
    and "j \<notin> room_known st"
  shows "room_view (webSocketClose G later i (room_join G now j r st)) =
      (\<lambda>x. if x = r then Some (j, [WsText PEER_JOINED]) else Some (p, qp @ [WsText PEER_JOINED])) \<and>
    room_ok G (webSocketClose G later i (room_join G now j r st))"
proof -
  have "x = r \<or> x = other r" for x by (rule two_roles [where r = r]) simp_all
  then show ?thesis using takeover_settles [OF assms, of later now] by (auto simp: fun_eq_iff)
qed

theorem takeover_keeps_pairing_witness:
  "room_view (webSocketClose (\<lambda>_. True) 0 1 (room_join (\<lambda>_. True) 0 2 Sender demo_room)) Receiver =
     Some (0, [WsText PEER_JOINED, WsText PEER_JOINED])"
  using takeover_keeps_pairing [OF demo_room_ok(1), of Sender 1 "[WsText PEER_JOINED]" 0 "[WsText PEER_JOINED]" 2 0 0]
  by (simp add: demo_room_view) (simp add: room_known_def demo_room_eq)

section \<open>The tunnel server and its client\<close>

text \<open>
  C18. Guessing the token is cut off: whatever is sent to a server and however up to \<open>K\<close> requests in
  flight interleave where the handlers wait, over its whole life it answers at most \<open>9 + K\<close> of them
  with 401 (nine guesses, and those already in flight when the tenth fires the token).
\<close>

theorem token_guesses_bounded:
  fixes L :: "'x store_lib_scheme"
  assumes "(conc_step L K)\<^sup>*\<^sup>* (conc_start L cfg f) s" and "K + 10 \<le> 2 ^ 32"
  shows "length (filter is_401 (cs_done s)) \<le> 9 + K"
  by (rule concurrent_guesses_bounded [OF assms])

theorem token_guesses_bounded_witness:
  "\<exists>s. (conc_step reference_lib 1)\<^sup>*\<^sup>* (conc_start reference_lib demo_cfg empty_disk) s \<and>
     cs_done s = [Inr (status 401)] \<and> length (filter is_401 (cs_done s)) \<le> 10"
proof -
  let ?rq = "\<lparr>rq_auth = Some ''Bearer guess'', rq_route = RStatus\<rparr>" and ?app = "server_start reference_lib demo_cfg empty_disk"
  have "provided_token ?rq = ''guess''" by (simp add: provided_token_def strip_pre_def)
  then have "blake3_hash reference_lib (str_bytes (provided_token ?rq)) \<noteq> ap_token_hash ?app"
    by (simp add: reference_lib_def server_start_def demo_cfg_def auth_token_def str_bytes_def octal_digit_def)
  then obtain app' where "serve reference_lib (\<lambda>_. None) ?app ?rq = (Inr (status 401), app')"
    by (simp add: serve_def auth_mw_def server_start_def Let_def)
  then have run: "(conc_step reference_lib 1)\<^sup>*\<^sup>* (conc_start reference_lib demo_cfg empty_disk)
      \<lparr>cs_app = app', cs_tasks = [], cs_done = [Inr (status 401)]\<rparr>"
    using serve_alone [of ?app reference_lib "\<lambda>_. None" ?rq _ _ 1 "[]"] by (simp add: conc_start_def server_start_def)
  from token_guesses_bounded [OF run] run show ?thesis by (intro exI conjI) auto
qed

text \<open>
  C19. A request whose token does not hash to the server's is inert: it gets no 200, and neither
  the active transfer nor the disk changes.
\<close>

theorem unauthorized_request_inert:
  assumes "blake3_hash L (str_bytes (provided_token rq)) \<noteq> ap_token_hash app"
    and "serve L ask app rq = (r, app')"
  shows "ap_transfer app' = ap_transfer app \<and> ap_disk app' = ap_disk app \<and>
    \<not> (\<exists>x. r = Inr x \<and> hr_status x = 200)"
  by (rule unauthorized_inert [OF assms])

theorem unauthorized_request_inert_witness:
  "ap_disk (snd (serve reference_lib (\<lambda>_. None) (server_start reference_lib demo_cfg empty_disk)
     \<lparr>rq_auth = Some ''Bearer guess'', rq_route = RStatus\<rparr>)) = empty_disk"
proof -
  let ?rq = "\<lparr>rq_auth = Some ''Bearer guess'', rq_route = RStatus\<rparr>" and ?app = "server_start reference_lib demo_cfg empty_disk"
  have "provided_token ?rq = ''guess''" by (simp add: provided_token_def strip_pre_def)
  then have ne: "blake3_hash reference_lib (str_bytes (provided_token ?rq)) \<noteq> ap_token_hash ?app"
    by (simp add: reference_lib_def server_start_def demo_cfg_def auth_token_def str_bytes_def octal_digit_def)
  obtain r app' where r: "serve reference_lib (\<lambda>_. None) ?app ?rq = (r, app')" by (metis prod.exhaust)
  from unauthorized_request_inert [OF ne r] show ?thesis unfolding r by (simp add: server_start_def)
qed

text \<open>
  C20. A chunk upload succeeds exactly if one of its five attempts is answered with success and no
  attempt before that one was refused with 401, which ends it at once; other failures are retried.
\<close>

theorem upload_succeeds_iff:
  "fst (upload_with_retry net token i b s) = Inr () \<longleftrightarrow>
   (\<exists>j < 5. got_through (answers net (bearer token (RChunk i b)) 5 s ! j) \<and>
      (\<forall>l < j. \<not> is_401 (answers net (bearer token (RChunk i b)) 5 s ! l)))"
  unfolding upload_with_retry_def CHUNK_ATTEMPTS_def by (rule upload_attempts_iff)

theorem upload_succeeds_iff_witness:
  "fst (upload_with_retry (\<lambda>n rq. (if n < 4 then Inr (status 503) else Inr (status 200), n + 1)) ''t'' 0 [] (0 :: nat)) =
   Inr ()"
  using upload_succeeds_iff [of "\<lambda>n rq. (if n < 4 then Inr (status 503) else Inr (status 200), n + 1)" "''t''" 0 "[]" "0 :: nat"]
  by (auto simp: upload_with_retry_def CHUNK_ATTEMPTS_def numeral_eq_Suc http_ok_def judge_answer_def)

section \<open>Configuration and codes\<close>

text \<open>
  C21. The bearer token is given only to the relay the user configured (by flag, environment or
  file): a code that names another relay never gets it.
\<close>

theorem token_only_to_own_relay:
  assumes "resolve_relay flag code_host env_url env_token file = Inr cfg" and "rl_token cfg = Some t"
  shows "\<exists>r. user_relay flag env_url file = Some r \<and> normalize_relay_url r = Inr (rl_url cfg)"
  by (rule token_to_own_relay [OF assms])

lemma demo_relay: "normalize_relay_url ''wss://r.dev'' = Inr ''wss://r.dev''"
  using normalize_wss [of "''r.dev''"] by (simp add: host_char_def is_ascii_alphanumeric_def)

theorem token_only_to_own_relay_witness:
  "\<exists>r. user_relay (Some ''wss://r.dev'') None default_config = Some r \<and> normalize_relay_url r = Inr ''wss://r.dev''"
proof -
  have "resolve_relay (Some ''wss://r.dev'') (Some ''evil.dev'') None (Some ''tok'') default_config =
      Inr \<lparr>rl_url = ''wss://r.dev'', rl_token = Some ''tok''\<rparr>"
    using demo_relay by (simp add: resolve_relay_def own_relay_def)
  from token_only_to_own_relay [OF this] show ?thesis by simp
qed

text \<open>
  C22. Human codes round-trip: what a receiver shows is recognised and parsed by the sender to the
  same topic, secret and spelling, for all three random bytes.
\<close>

theorem human_code_roundtrip:
  "\<exists>s. show_rendezvous L (generate_human L e) = Inr s \<and>
     parse_rendezvous L s = Inr (generate_human L e) \<and> is_rendezvous_code s"
proof -
  obtain s where "show_rendezvous L (generate_human L e) = Inr s"
    by (cases e) (simp add: show_rendezvous_def generate_human_def)
  then show ?thesis using human_roundtrip by blast
qed

text \<open>
  C23. Without the \<^verbatim>\<open>b2p://\<close> prefix, exactly the recognised codes parse: the dispatch of a send never
  hands an unparsable code to the rendezvous path, nor a valid human code to the tunnel path.
\<close>

theorem recognised_codes_parse:
  assumes "\<not> prefix ''b2p://'' (trim s)"
  shows "is_rendezvous_code s \<longleftrightarrow> (\<exists>c. parse_rendezvous L s = Inr c)"
  by (rule recognised_iff_parses [OF assms])

theorem recognised_codes_parse_witness:
  "\<not> is_rendezvous_code ''x'' \<and> \<not> (\<exists>c. parse_rendezvous reference_lib ''x'' = Inr c)"
proof -
  have "\<not> prefix ''b2p://'' (trim ''x'')" by (simp add: trim_no_ws is_ws_def)
  from recognised_codes_parse [OF this, of reference_lib] show ?thesis
    by (simp add: is_rendezvous_code_def trim_no_ws is_ws_def)
qed

text \<open>
  C24. Every code that parses names a room the Worker serves: the request a client of either role
  dials with that code is answered with the upgrade and joins the room of that name, whatever the
  rooms hold, and no other room changes.
\<close>

lemma b58_char: "c \<in> set b58_alphabet \<Longrightarrow> is_ascii_alphanumeric c"
proof -
  have "list_all is_ascii_alphanumeric b58_alphabet" by code_simp
  then show "c \<in> set b58_alphabet \<Longrightarrow> is_ascii_alphanumeric c" by (simp add: list_all_iff)
qed

lemma b58_room_name:
  assumes "b58_strict L" and "b58_decode L t = Some b" and "length b = 16" and "t \<noteq> []"
  shows "room_name_ok t"
proof -
  have "set t \<subseteq> set b58_alphabet" "length t \<le> 64"
    using assms unfolding b58_strict_def by fastforce+
  then show ?thesis using assms(4) b58_char by (auto simp: room_name_ok_def list_all_iff Suc_le_eq)
qed

lemma parsed_topic:
  assumes "b58_correct L" and "b58_strict L" and "derive_key_32 L" and "parse_rendezvous L s = Inr code"
  shows "room_name_ok (rv_topic code)"
proof (cases "strip_pre ''b2p://'' (trim s)")
  case None
  then obtain ch where "rv_topic code = topic_from_channel L ch"
    using assms(4) by (auto simp: parse_rendezvous_def parse_human_code_def Let_def bindR_eq_Inr split: if_splits)
  moreover have "length (take 16 (blake3_derive_key L TOPIC_CTX [ch])) = 16" using assms(3) by (simp add: derive_key_32_def)
  ultimately show ?thesis
    using assms(1) b58_room_name [OF assms(2)] unfolding topic_from_channel_def b58_correct_def
    by (metis list.size(3) zero_neq_numeral)
next
  case (Some rest)
  then have "parse_url_code L rest = Inr code" using assms(4) by (simp add: parse_rendezvous_def)
  then obtain b where "b58_decode L (rv_topic code) = Some b" "length b = 16" "rv_topic code \<noteq> []"
    by (auto simp: parse_url_code_def bindR_eq_Inr split: option.splits if_splits prod.splits)
  then show ?thesis by (rule b58_room_name [OF assms(2)])
qed

theorem code_names_room:
  assumes "b58_correct L" and "b58_strict L" and "derive_key_32 L" and "parse_rendezvous L s = Inr code"
  shows "worker_fetch G None now i
      \<lparr>wq_pathname = ''/v1/room/'' @ rv_topic code, wq_role = Some (role_query r), wq_authorization = auth,
       wq_upgrade = True\<rparr> rooms =
    (101, rooms(rv_topic code := room_join G now i r (rooms (rv_topic code))))"
proof -
  have "fst (room_fetch G now i True (Some (role_query r)) st) = 101" for st
    by (simp add: room_fetch_def Let_def del: role_param.simps)
  then have "room_fetch G now i True (Some (role_query r)) st = (101, room_join G now i r st)" for st
    unfolding room_join_def by (metis prod.collapse)
  then show ?thesis using parsed_topic [OF assms]
    by (simp add: worker_fetch_def strip_pre_append del: role_param.simps append_Cons append_Nil)
qed

theorem code_names_room_witness:
  "\<exists>s code. parse_rendezvous reference_lib s = Inr code \<and>
     worker_fetch (\<lambda>_. True) None 0 0
       \<lparr>wq_pathname = ''/v1/room/'' @ rv_topic code, wq_role = Some (role_query Sender), wq_authorization = None,
        wq_upgrade = True\<rparr> (\<lambda>_. room_new) =
     (101, (\<lambda>_. room_new)(rv_topic code := room_join (\<lambda>_. True) 0 0 Sender room_new))"
proof -
  obtain s where "show_rendezvous reference_lib (generate_human reference_lib (7, 0, 0)) = Inr s"
    by (simp add: show_rendezvous_def generate_human_def)
  then have c: "parse_rendezvous reference_lib s = Inr (generate_human reference_lib (7, 0, 0))"
    using human_roundtrip by blast
  show ?thesis
    using code_names_room [OF reference_b58 reference_b58_strict reference_derive_key c] c by blast
qed



section \<open>The command line\<close>

text \<open>
  C26. No peer can end the receiver's wait in the key exchange: if in every pass of the loop the
  room is joined and the handshake then fails, by a wrong code, silence, garbage or a lost
  connection, the receiver goes on waiting, with its code still valid.
\<close>

theorem hostile_peers_cannot_end_wait:
  assumes "\<And>a. a \<in> set attempts \<Longrightarrow>
      (\<exists>ch. relay_connect (at_net a) P (rl_url relay) (rv_topic code) Receiver (rl_token relay) (at_waits a) =
         Some (Inr ch)) \<and>
      (\<exists>e. snd (play (handshake_over_channel L S (at_rnd a) (at_budget a) (rv_topic code) (rv_secret code) Receiver)
         (at_ins a)) = Some (Inl e))"
  shows "snd (rearm_loop (receive_attempt L S P relay code out yes ow) fail busy attempts f) = None"
proof (rule rearm_waits)
  fix a and f :: fs
  assume a: "a \<in> set attempts"
  show "receive_attempt L S P relay code out yes ow a f = None \<or>
      (\<exists>e f'. receive_attempt L S P relay code out yes ow a f = Some (Inl e, f') \<and> rearmable e)"
  proof (cases "receive_attempt L S P relay code out yes ow a f")
    case None
    then show ?thesis by simp
  next
    case (Some x)
    obtain r f' where x: "x = (r, f')" by (cases x)
    from assms [OF a] obtain ch e where
      "relay_connect (at_net a) P (rl_url relay) (rv_topic code) Receiver (rl_token relay) (at_waits a) = Some (Inr ch)"
      "snd (play (handshake_over_channel L S (at_rnd a) (at_budget a) (rv_topic code) (rv_secret code) Receiver)
         (at_ins a)) = Some (Inl e)" by blast
    from hostile_peer_rearms [OF this Some [unfolded x]] show ?thesis using Some x by auto
  qed
qed

definition demo_net :: relay_net where
  "demo_net = \<lparr>into_client_request = (\<lambda>_. Inr ()), parse_header = (\<lambda>_. Inr ()), tls_connector = Inr (),
     ws_connect = (\<lambda>_ _. DialOk)\<rparr>"

definition demo_parser :: json_parser where
  "demo_parser t = Some (JObj [(''t'', JStr t)])"

definition demo_attempt :: attempt where
  "demo_attempt = \<lparr>at_net = demo_net, at_waits = [Incoming (Some (Inr (WsText ''peer-joined'')))], at_rnd = [1],
     at_budget = 3, at_ins = [Inr [0], Inl peer_closed], at_line = None\<rparr>"

theorem hostile_peers_cannot_end_wait_witness:
  "snd (rearm_loop (receive_attempt reference_lib reference_spake demo_parser \<lparr>rl_url = ''wss://r.dev'', rl_token = None\<rparr>
     (generate_human reference_lib (1, 2, 3)) [''out''] True False) (\<lambda>e. ([], Inl e)) 0 [demo_attempt, demo_attempt]
     empty_disk) = None"
proof (rule hostile_peers_cannot_end_wait)
  fix a assume "a \<in> set [demo_attempt, demo_attempt]"
  then have a: "a = demo_attempt" by simp
  have "dial demo_net ''wss://r.dev'' room Receiver None = Inr ()" for room
    using demo_relay by (simp add: dial_def demo_net_def Let_def)
  moreover have "wait_peer demo_parser (at_waits demo_attempt) = Some (Inr ())"
    by (simp add: demo_attempt_def demo_parser_def parse_control_def json_get_def json_str_def)
  ultimately have "\<exists>ch. relay_connect (at_net a) demo_parser ''wss://r.dev'' room Receiver None (at_waits a) = Some (Inr ch)"
    for room unfolding a by (simp add: relay_connect_def demo_attempt_def)
  moreover have "\<exists>e. snd (play (handshake_over_channel reference_lib reference_spake (at_rnd a) (at_budget a) t s Receiver)
      (at_ins a)) = Some (Inl e)" for t s
    unfolding a by (simp add: demo_attempt_def handshake_over_channel_def handshake_channel_inner_def pake_start_def
        numeral_3_eq_3 decode_frame_def Let_def)
  ultimately show "(\<exists>ch. relay_connect (at_net a) demo_parser (rl_url \<lparr>rl_url = ''wss://r.dev'', rl_token = None\<rparr>)
      (rv_topic (generate_human reference_lib (1, 2, 3))) Receiver (rl_token \<lparr>rl_url = ''wss://r.dev'', rl_token = None\<rparr>)
      (at_waits a) = Some (Inr ch)) \<and>
    (\<exists>e. snd (play (handshake_over_channel reference_lib reference_spake (at_rnd a) (at_budget a)
      (rv_topic (generate_human reference_lib (1, 2, 3))) (rv_secret (generate_human reference_lib (1, 2, 3))) Receiver)
      (at_ins a)) = Some (Inl e))" by simp
qed

text \<open>
  C27. A room that stays taken is retried eight times with growing pauses, 110 seconds in all, and
  then reported as a failure to connect.
\<close>

theorem busy_room_backoff:
  assumes "\<And>a f. run a f = Some (Inl e, f)" and "refused_room e" and "9 \<le> length attempts"
  shows "rearm_loop run fail 0 attempts f =
    (map Sleep [2, 4, 8, 16, 20, 20, 20, 20] @ fst (fail e), Some (snd (fail e), f))"
  by (rule busy_stretch [where run = run, OF assms])

theorem busy_room_backoff_witness:
  "fst (rearm_loop (\<lambda>a f. Some (Inl (EstablishError RoomBusy), f)) (\<lambda>e. ([], Inl e)) 0 (replicate 9 ()) empty_disk) =
   map Sleep [2, 4, 8, 16, 20, 20, 20, 20]"
  using busy_room_backoff [of "\<lambda>a f. Some (Inl (EstablishError RoomBusy), f)" "EstablishError RoomBusy" "replicate 9 ()"
      "\<lambda>e. ([], Inl e)" empty_disk]
  by (simp add: refused_room_def rearmable_def)

text \<open>
  C28. What \<^verbatim>\<open>b2p relay set\<close> stores is what later runs use: for a URL without white space, loading the
  configuration and resolving the relay without flag and environment gives the normalised URL and
  the stored token.
\<close>

theorem relay_set_takes_effect:
  assumes "\<And>c. toml_from_str (ce_toml E) (toml_to_string (ce_toml E) c) = Some c"
    and "ce_config_dir E = Some dir" and "io_fault f = None"
    and "list_all (\<lambda>c. \<not> is_ws c) url"
    and "relay_set E url token f = (evs, Some (Inr (), f'))"
  shows "\<exists>cfg u. config_load (ce_toml E) (ce_config_dir E) f' = (Inr cfg, f') \<and> normalize_relay_url url = Inr u \<and>
    resolve_relay None None None None cfg = Inr \<lparr>rl_url = u, rl_token = cf_relay_token cfg\<rparr> \<and>
    (token \<noteq> None \<longrightarrow> cf_relay_token cfg = token)"
  by (rule relay_set_used [OF assms])

definition put_config :: "config \<Rightarrow> bytes" where
  "put_config = put_via (\<lambda>c. (cf_relay c, cf_relay_token c)) (put_pair (put_opt put_str) (put_opt put_str))"

definition get_config :: "config getter" where
  "get_config = get_via (\<lambda>(r, t). \<lparr>cf_relay = r, cf_relay_token = t\<rparr>) (get_pair (get_opt get_str) (get_opt get_str))"

interpretation config_codec: codec put_config get_config
  unfolding put_config_def get_config_def by (intro codec_intros) simp_all

definition demo_env :: cli_env where
  "demo_env = \<lparr>ce_config_dir = Some [''cfg''],
     ce_toml = \<lparr>toml_to_string = put_config, toml_from_str = run_getter get_config\<rparr>,
     ce_relay = None, ce_relay_token = None, ce_cafile = None, ce_doctor = (\<lambda>_. [])\<rparr>"

theorem relay_set_takes_effect_witness:
  "\<exists>cfg f'. snd (relay_set demo_env ''wss://r.dev'' (Some ''tok'') empty_disk) = Some (Inr (), f') \<and>
    config_load (ce_toml demo_env) (ce_config_dir demo_env) f' = (Inr cfg, f') \<and>
    resolve_relay None None None None cfg = Inr \<lparr>rl_url = ''wss://r.dev'', rl_token = Some ''tok''\<rparr>"
proof -
  have toml: "toml_from_str (ce_toml demo_env) (toml_to_string (ce_toml demo_env) c) = Some c" for c
    by (simp add: demo_env_def config_codec.run_put)
  obtain evs f' where set: "relay_set demo_env ''wss://r.dev'' (Some ''tok'') empty_disk = (evs, Some (Inr (), f'))"
    by (simp add: relay_set_def demo_relay demo_env_def config_load_def config_save_def config_path_def fs_read_def
        fs_create_dir_all_def fs_write_def may_create_def bindIO_def io_ret_def empty_disk_sel default_config_def)
  have nw: "list_all (\<lambda>c. \<not> is_ws c) ''wss://r.dev''" by (simp add: is_ws_def)
  have dir: "ce_config_dir demo_env = Some [''cfg'']" by (simp add: demo_env_def)
  from relay_set_takes_effect [OF toml dir empty_disk_sel(2) nw set] show ?thesis
    using set demo_relay by auto
qed

section \<open>Diagnosis\<close>

text \<open>
  C29. The STUN parser finds the mapped address: in every well-formed binding response to the
  transaction, for both address families, after any other attributes with any padding, and
  whatever follows.
\<close>

theorem mapped_address_found:
  assumes "length txn_id = 12" and "addr_ok addr"
    and "\<forall>(ty, v) \<in> set pre. ty \<noteq> 0x0020 \<and> length v < 65536"
  shows "parse_xor_mapped_address (binding_success txn_id (pre @ (0x0020, xor_value txn_id addr) # post)) txn_id =
    Inr (Some addr)"
  by (rule parse_binding_success [OF assms])

theorem mapped_address_found_witness:
  "parse_xor_mapped_address (binding_success (replicate 12 7) ([(0x8022, [1, 2, 3])] @
     (0x0020, xor_value (replicate 12 7) (V4 [203, 0, 113, 5] 54321)) # [])) (replicate 12 7) =
   Inr (Some (V4 [203, 0, 113, 5] 54321))"
  by (rule mapped_address_found) simp_all

text \<open>
  C30. No datagram makes the STUN parser read out of bounds: it returns, with or without an
  address, on every byte sequence.
\<close>

theorem stun_parser_total:
  assumes "length txn_id = 12"
  shows "\<exists>a. parse_xor_mapped_address resp txn_id = Inr a"
  by (rule parse_total [OF assms])

theorem stun_parser_total_witness:
  "\<exists>a. parse_xor_mapped_address (encode_binding_request (replicate 12 0) @ [0, 0x20, 0, 8, 0, 1]) (replicate 12 0) = Inr a"
  by (rule stun_parser_total) simp

section \<open>The relay and its stand-in\<close>



section \<open>Resumption data\<close>

text \<open>
  C32. The run-length encoding of the staged chunks says exactly which chunks are there.
\<close>

theorem have_runs_exact:
  assumes "\<forall>x \<in> set xs. x < U64_MAX"
  shows "runs_contain (runs_from_sorted xs) j \<longleftrightarrow> j \<in> set xs"
  by (rule runs_contain_iff [OF assms])

theorem have_runs_exact_witness:
  "runs_contain (runs_from_sorted [1, 2, 5]) 2 \<and> \<not> runs_contain (runs_from_sorted [1, 2, 5]) 3"
  using have_runs_exact [of "[1, 2, 5]" 2] have_runs_exact [of "[1, 2, 5]" 3] by simp



section \<open>Other outcomes of a transfer\<close>

text \<open>
  C34. A text snippet is delivered within the manifest: under every schedule the receiver returns the
  text, the sender reports delivery, and neither disk changes.
\<close>

theorem stream_text_delivered:
  fixes L :: "'x store_lib_scheme"
  assumes "aead_correct L" and "json_correct L" and "accept (stream_manifest (TextSource content tid))"
  shows "every_schedule ce (send_source L key (TextSource content tid) fs, recv_into L key out_dir accept f, [], [])
    (Inr ''text delivered'', fs) (Inr content, f)"
  by (rule meets_every_schedule) (rule text_delivers [where accept = accept, OF assms])

theorem stream_text_delivered_witness:
  "every_schedule peer_closed (send_source reference_lib [7] (TextSource ''hi'' ''id'') empty_disk,
      recv_into reference_lib [7] [''out''] (\<lambda>_. True) empty_disk, [], [])
    (Inr ''text delivered'', empty_disk) (Inr ''hi'', empty_disk)"
  by (rule stream_text_delivered [OF reference_aead reference_json]) simp

text \<open>
  C35. A declined transfer stops before anything is written: under every schedule both sides report
  it, and neither disk changes.
\<close>

theorem declined_transfer_stops:
  fixes L :: "'x store_lib_scheme"
  assumes "aead_correct L" and "json_correct L" and "\<not> accept (stream_manifest src)"
  shows "every_schedule ce (send_source L key src fs, recv_into L key out_dir accept f, [], [])
    (Inl (Msg ''the receiver declined the transfer''), fs) (Inl (Msg ''transfer declined''), f)"
  by (rule meets_every_schedule) (rule decline_stops [where accept = accept, OF assms])

theorem declined_transfer_stops_witness:
  "every_schedule peer_closed (send_source reference_lib [7] demo_source empty_disk,
      recv_into reference_lib [7] [''out''] (\<lambda>_. False) empty_disk, [], [])
    (Inl (Msg ''the receiver declined the transfer''), empty_disk) (Inl (Msg ''transfer declined''), empty_disk)"
  by (rule declined_transfer_stops [OF reference_aead reference_json]) simp

section \<open>The direct channel\<close>

text \<open>A peer connection that records what it is told.\<close>

definition demo_webrtc :: "(bytes option \<times> bytes list, bytes, bytes) webrtc_lib" where
  "demo_webrtc =
     \<lparr>js_sdp = Some, un_sdp = Some, js_cand = Some, un_cand = Some,
      set_remote_description = (\<lambda>s p. (Inr (), (Some s, snd p))), remote_description = fst,
      add_ice_candidate = (\<lambda>c p. (Inr (), (fst p, snd p @ [c]))),
      create_offer = (\<lambda>p. (Inr [1], p)), create_answer = (\<lambda>p. (Inr [2], p)),
      set_local_description = (\<lambda>s p. (Inr (), p)), create_data_channel = (\<lambda>_ p. (Inr (), p)),
      close_pc = id\<rparr>"

lemma demo_webrtc_ok: "pc_contract demo_webrtc" "webrtc_json demo_webrtc"
  by (simp_all add: pc_contract_def webrtc_json_def demo_webrtc_def)

text \<open>
  C36. Signalling loses no candidate: while a side waits for the data channel to open, its peer
  connection ends up with the peer's session description and then every candidate of the peer,
  each once and in the order sent, however the candidates arrive before or after the description
  and whatever foreign frames, echoes of its own frames and callbacks come in between; nothing
  stays in the buffer. (The sender's connection makes its answer between the candidates that came
  early and those that came late.)
\<close>

theorem early_candidates_kept:
  fixes L :: "'x crypto_lib_scheme" and W :: "('pc, 'sdp, 'cand) webrtc_lib"
  assumes "aead_correct L" and "webrtc_json W" and "pc_contract W"
    and "cn_stage st = WaitOpen" and "\<not> cn_open st" and "cn_pending st = []" and "ChannelOpen \<notin> set evs"
    and "remote_description W (cn_pc st) = None"
    and "set_remote_description W d (cn_pc st) = (Inr (), pc1)"
    and "\<forall>x \<in> set sent. length (fst x) = 24"
    and "map snd sent = map SCand xs @ SSdp d # map SCand ys"
    and "map Some (filter (from_peer L sig_key role) (peer_frames evs)) =
      map (\<lambda>x. signal_frame L W sig_key (other role) (fst x) (snd x)) sent"
  shows "cn_pc (rtc_run L W sig_key role evs st) =
      add_candidates W ys (answered W role (add_candidates W xs pc1)) \<and>
    cn_pending (rtc_run L W sig_key role evs st) = []"
proof -
  have "waiting st" using assms(4,5) by (simp add: waiting_def)
  from pump_refines [OF assms(1,2) this assms(7,10,12)]
  have "pump_view (rtc_run L W sig_key role evs st) =
      fold (apply_signal W role) (map snd sent) (cn_pc st, [])"
    by (simp add: pump_view_def assms(6))
  also have "\<dots> = (add_candidates W ys (answered W role (add_candidates W xs pc1)), [])"
    unfolding assms(11) by (rule signals_applied [OF assms(3,8,9)])
  finally show ?thesis by (simp add: pump_view_def)
qed

definition demo_nonce :: bytes where
  "demo_nonce = replicate 24 7"

abbreviation demo_frame :: "u8 \<Rightarrow> role \<Rightarrow> bytes \<Rightarrow> bytes" where
  "demo_frame \<equiv> sealed_frame reference_lib demo_nonce [9]"

theorem early_candidates_kept_witness:
  "cn_pc (rtc_run reference_lib demo_webrtc [9] Sender
      [PeerFrame demo_nonce (demo_frame KIND_ICE Receiver [5]), PeerFrame demo_nonce [],
       PeerFrame demo_nonce (demo_frame KIND_SDP Sender [8]), StateChange PcConnecting,
       PeerFrame demo_nonce (demo_frame KIND_SDP Receiver [1]), PeerFrame demo_nonce (demo_frame KIND_ICE Receiver [6])]
      ((conn_start (None, []))\<lparr>cn_stage := WaitOpen\<rparr>)) = (Some [1], [[5], [6]])"
proof -
  let ?evs = "[PeerFrame demo_nonce (demo_frame KIND_ICE Receiver [5]), PeerFrame demo_nonce [],
       PeerFrame demo_nonce (demo_frame KIND_SDP Sender [8]), StateChange PcConnecting,
       PeerFrame demo_nonce (demo_frame KIND_SDP Receiver [1]), PeerFrame demo_nonce (demo_frame KIND_ICE Receiver [6])]
     :: bytes rtc_event list"
  let ?st = "(conn_start (None, []))\<lparr>cn_stage := WaitOpen\<rparr> :: (bytes option \<times> bytes list, bytes, bytes) conn"
  let ?sent = "[(demo_nonce, SCand [5]), (demo_nonce, SSdp [1]), (demo_nonce, SCand [6])]"
  have n: "length demo_nonce = 24" by (simp add: demo_nonce_def)
  have js: "js_sdp demo_webrtc = Some" "js_cand demo_webrtc = Some" by (simp_all add: demo_webrtc_def)
  have "\<not> from_peer reference_lib [9] Sender []" by (simp add: from_peer_def decode_frame_def)
  then have arr: "map Some (filter (from_peer reference_lib [9] Sender) (peer_frames ?evs)) =
      map (\<lambda>x. signal_frame reference_lib demo_webrtc [9] (other Sender) (fst x) (snd x)) ?sent"
    using n reference_aead by (simp add: js)
  have "cn_pc (rtc_run reference_lib demo_webrtc [9] Sender ?evs ?st) =
      add_candidates demo_webrtc [[6]] (answered demo_webrtc Sender (add_candidates demo_webrtc [[5]] (Some [1], [])))"
    by (rule early_candidates_kept [OF reference_aead demo_webrtc_ok(2,1) _ _ _ _ _ _ _ _ arr,
          where d = "[1]" and xs = "[[5]]" and ys = "[[6]]", THEN conjunct1])
      (simp_all add: conn_start_def demo_webrtc_def n)
  then show ?thesis by (simp add: add_candidates_def answered_def demo_webrtc_def)
qed

text \<open>
  C37. No wakeup is lost between a send and the close of the channel: in every interleaving of the
  sends with any number of close handlers, once the handlers that ran are done, a send that waits
  inside the data channel can return with the error of a closed channel, and one that has not
  looked at the flag yet can only return with it.
\<close>

theorem closed_send_returns:
  assumes "race_step\<^sup>*\<^sup>* race_start s" and "rc_flag s" and "rc_closing s = 0"
  shows "(rc_send s = SWaiting \<longrightarrow>
      race_step s (s\<lparr>rc_send := SDone (Inl channel_closed), rc_waiter := False\<rparr>)) \<and>
    (rc_send s = SEnabled \<longrightarrow> (\<forall>s'. race_step s s' \<and> rc_send s' \<noteq> SEnabled \<longrightarrow>
      rc_send s' = SDone (Inl channel_closed)))"
proof -
  have inv: "race_inv s" by (rule race_reach_inv [OF assms(1)])
  have "race_step s (s\<lparr>rc_send := SDone (Inl channel_closed), rc_waiter := False\<rparr>)" if "rc_send s = SWaiting"
    using that inv assms(2,3) by (intro race_step.woken) (auto simp: race_inv_def)
  moreover have "rc_send s' = SDone (Inl channel_closed)"
    if "rc_send s = SEnabled" "race_step s s'" "rc_send s' \<noteq> SEnabled" for s'
    using that(2,1,3) assms(2) by (cases rule: race_step_cases) auto
  ultimately show ?thesis by blast
qed

theorem closed_send_returns_witness:
  "\<exists>s. race_step\<^sup>*\<^sup>* race_start s \<and> rc_send s = SWaiting \<and>
     race_step s (s\<lparr>rc_send := SDone (Inl channel_closed), rc_waiter := False\<rparr>)"
proof -
  let ?a = "race_start\<lparr>rc_send := SEnabled, rc_waiter := True, rc_woken := False\<rparr>"
  let ?b = "?a\<lparr>rc_send := SWaiting\<rparr>"
  let ?c = "?b\<lparr>rc_flag := True, rc_closing := Suc (rc_closing ?b)\<rparr>"
  let ?d = "?c\<lparr>rc_closing := 0, rc_woken := rc_woken ?c \<or> rc_waiter ?c, rc_waiter := False\<rparr>"
  have "race_step race_start ?a" by (rule race_step.enable) (simp add: race_start_def)
  moreover have "race_step ?a ?b" by (rule race_step.check_open) (simp_all add: race_start_def)
  moreover have "race_step ?b ?c" by (rule race_step.close_store)
  moreover have "race_step ?c ?d" by (rule race_step.close_notify) (simp add: race_start_def)
  ultimately have r: "race_step\<^sup>*\<^sup>* race_start ?d"
    by (meson converse_rtranclp_into_rtranclp rtranclp.rtrancl_refl)
  have "rc_send ?d = SWaiting" "rc_flag ?d" "rc_closing ?d = 0" by simp_all
  with closed_send_returns [OF r] r show ?thesis by blast
qed

section \<open>Around the transfer\<close>

text \<open>
  C38. What is published on the rendezvous arrives: a subscription yields exactly the published
  frames, in the order of the log, whatever other events the service sends between them, however
  the body is cut into chunks, and also when the connection breaks in the middle of a line.
\<close>

theorem rendezvous_delivers:
  assumes "b64_correct B" and "ntfy_log P B log" and "CHR 10 \<notin> set rest" and "clean \<longrightarrow> rest = []"
    and "body_text body = (concat (map (\<lambda>x. fst x @ [CHR 10]) log) @ rest, clean)"
    and "get (ny_base rv @ ''/'' @ topic @ ''/json?since='' @ SINCE_WINDOW) = Inr (code, body)" and "code < 400"
  shows "ntfy_subscribe P B get rv topic = Inr (List.map_filter snd log)"
  by (rule subscription_log [where get = get, OF assms])

text \<open>A service whose lines are one letter for a keepalive and \<open>m\<close> with the text for a message.\<close>

definition demo_b64 :: base64_lib where
  "demo_b64 =
     \<lparr>b64_encode = map (\<lambda>b. char_of (unat b)), b64_decode = (\<lambda>s. Some (map (\<lambda>c. of_nat (of_char c)) s))\<rparr>"

definition demo_lines :: json_parser where
  "demo_lines line =
     (case line of
        c # t \<Rightarrow>
          if c = CHR ''m'' then Some (JObj [(''event'', JStr ''message''), (''message'', JStr t)])
          else Some (JObj [(''event'', JStr ''keepalive'')])
      | [] \<Rightarrow> None)"

theorem rendezvous_delivers_witness:
  "ntfy_subscribe demo_lines demo_b64
     (\<lambda>_. Inr (200, [Inr ''k'', Inr ([CHR 10] @ ''mA''), Inr (''B'' @ [CHR 13, CHR 10] @ ''m''), Inl (Io ''reset'')]))
     \<lparr>ny_base = ''https://ntfy.sh''\<rparr> ''t'' = Inr [[65, 66]]"
proof -
  let ?body = "[Inr ''k'', Inr ([CHR 10] @ ''mA''), Inr (''B'' @ [CHR 13, CHR 10] @ ''m''), Inl (Io ''reset'')]
    :: string res list"
  let ?log = "[(''k'', None), (''mAB'' @ [CHR 13], Some [65, 66])] :: (string \<times> bytes option) list"
  have "unat b < 256" for b :: u8 using unsigned_less [of b] by simp
  then have b: "b64_correct demo_b64" by (simp add: b64_correct_def demo_b64_def comp_def)
  have ch: "char_of (65 :: nat) = CHR ''A''" "char_of (66 :: nat) = CHR ''B''" by code_simp+
  have l: "ntfy_log demo_lines demo_b64 ?log"
    by (simp add: ntfy_log_def strip_cr_def message_line_def demo_lines_def demo_b64_def parse_ntfy_message_def
      json_defs ch)
  have "ntfy_subscribe demo_lines demo_b64 (\<lambda>_. Inr (200, ?body)) \<lparr>ny_base = ''https://ntfy.sh''\<rparr> ''t'' =
      Inr (List.map_filter snd ?log)"
    by (rule rendezvous_delivers [OF b l, where rest = "''m''" and clean = False and code = 200 and body = ?body])
      simp_all
  then show ?thesis by (simp add: List.map_filter_simps)
qed

text \<open>
  C39. Only the pinned cloudflared is installed: whatever the network and the disk do, a file that
  appears under the name of the binary is the download, or a beginning of it, whose checksum is the
  pinned one for the platform; and when the function succeeds on a machine that had no such file,
  the file is the whole pinned binary.
\<close>

theorem pinned_binary_only:
  assumes "tu_data_dir E = Some d" and "ensure_binary P build E tls f = (r, f')"
  shows "(files f' (cloudflared_path E d) = files f (cloudflared_path E d) \<or>
      (\<exists>binary k. pinned_for E binary \<and> files f' (cloudflared_path E d) = Some (File (take k binary)))) \<and>
    (\<forall>q. r = Inr q \<longrightarrow> q = cloudflared_path E d \<and>
      (files f (cloudflared_path E d) = None \<longrightarrow>
        (\<exists>binary. pinned_for E binary \<and> files f' (cloudflared_path E d) = Some (File binary))))"
  by (rule ensure_binary_safe [OF assms])

definition demo_pem :: pem_lib where
  "demo_pem = \<lparr>from_pem_bundle = (\<lambda>_. Inr []), pemfile_certs = (\<lambda>_. [])\<rparr>"

theorem pinned_binary_only_witness:
  "\<exists>f'. ensure_binary demo_pem (\<lambda>_. Inr ()) linux_env \<lparr>to_cafile = None\<rparr> empty_disk =
      (Inr [''data'', ''bin'', ''cloudflared-2026.7.2''], f') \<and>
    (\<exists>binary. pinned_for linux_env binary \<and>
      files f' [''data'', ''bin'', ''cloudflared-2026.7.2''] = Some (File binary))"
proof -
  let ?p = "[''data'', ''bin'', ''cloudflared-2026.7.2'']"
  have d: "tu_data_dir linux_env = Some [''data'']" by (simp add: linux_env_def)
  have p: "cloudflared_path linux_env [''data''] = ?p"
    by (simp add: cloudflared_path_def linux_env_def CLOUDFLARED_VERSION_def)
  obtain r f' where run: "ensure_binary demo_pem (\<lambda>_. Inr ()) linux_env \<lparr>to_cafile = None\<rparr> empty_disk = (r, f')"
    by (metis surj_pair)
  obtain r0 f0 where c: "fs_create_dir_all [''data'', ''bin''] empty_disk = (r0, f0)" by (metis surj_pair)
  then have r0: "r0 = Inr ()" and f0: "io_fault f0 = None" "files f0 q = (if prefix q [''data'', ''bin''] then Some Dir else None)" for q
    by (auto simp: fs_create_dir_all_def empty_disk_def)
  have b: "binary_path linux_env empty_disk = (Inr ?p, f0)" using c r0 by (simp add: binary_path_runs [OF d] p)
  have sys: "tu_os linux_env = ''linux''" "tu_arch linux_env = ''x86_64''" by (simp_all add: linux_env_def)
  have pb: "pinned_binary linux_env ''cloudflared-linux-amd64'' (snd (snd (PINS ! 0))) = Inr [1, 2, 3]"
    by (simp add: pinned_binary_def download_def linux_env_def error_for_status_def unpack_binary_def suffix_def)
  have h: "http_client demo_pem (\<lambda>_. Inr ()) \<lparr>to_cafile = None\<rparr> f0 = (Inr (), f0)"
    by (simp add: http_client_def http_builder_def bindIO_def io_ret_def)
  have w: "fs_write ?p [1, 2, 3] f0 = (Inr (), put_node ?p (File [1, 2, 3]) f0)"
    using f0 by (simp add: fs_write_def may_create_def)
  have "r = Inr ?p"
    using run b h pb w f0
    by (simp add: ensure_binary_def sys platform_key_def fs_exists_def PINS_def fs_set_permissions_def bindIO_def io_ret_def)
  then show ?thesis using pinned_binary_only [OF d run] run by (simp add: p empty_disk_sel)
qed

text \<open>
  C40. The diagnosis says that nothing blocks exactly when the network shows it: the target is a
  literal address or resolves, and only to addresses that are no block page, loopback or
  unspecified address; the TLS chain verifies against the trust store; the relay, if one is
  configured, answers the probe; the HTTPS client can be built and the rendezvous answers; and the
  NAT is not symmetric.
\<close>

theorem doctor_clean_iff:
  assumes "doctor_run D args f = (Inr rep, f')"
    and "host = (case da_target_host args of Some h \<Rightarrow> h | None \<Rightarrow> DEFAULT_TARGET)"
  shows "dp_verdict rep = no_blockers \<longleftrightarrow>
    dns_usable D host \<and> tls_trusted D (da_cafile args) f \<and> relay_answers D args \<and>
    (\<exists>u. fst (http_client (dr_pem D) (dr_build D) \<lparr>to_cafile = da_cafile args\<rparr>
        (snd (tls_check D (da_cafile args) f))) = Inr u) \<and>
    (\<exists>code. dr_health D RENDEZVOUS_HEALTH = Inr code) \<and>
    \<not> (\<exists>addrs. nat_mapping (dr_udp_bound D) (dr_stun D) = Inr (Symmetric addrs))"
  unfolding assms(2) by (rule doctor_clean [OF assms(1)])

definition demo_session :: tls_session where
  "demo_session =
     \<lparr>ts_name = Inr (), ts_conn = Inr (), ts_addrs = Inr [Ip4 [1, 2, 3, 4]], ts_tcp = Inr (), ts_timeouts = Inr (),
      ts_rounds = [Inr ()], ts_leaf = Some [1]\<rparr>"

definition demo_doctor :: doctor_env where
  "demo_doctor =
     \<lparr>dr_lookup = (\<lambda>_. Some (Inr [Ip4 [104, 16, 132, 229]])), dr_pem = demo_pem, dr_x509 = (\<lambda>_. Inr ''CN=ISRG Root''),
      dr_root_ok = (\<lambda>_. True), dr_versions = Inr (), dr_native = [[1]], dr_capture = demo_session,
      dr_verified = (\<lambda>_. demo_session), dr_udp_bound = False, dr_stun = [], dr_build = (\<lambda>_. Inr ()),
      dr_health = (\<lambda>_. Inr 200), dr_relay = (\<lambda>_ _. None)\<rparr>"

theorem doctor_clean_iff_witness:
  "\<exists>rep. fst (doctor_run demo_doctor
      \<lparr>da_target_host = None, da_cafile = None, da_relay = None, da_relay_token = None\<rparr> empty_disk) = Inr rep \<and>
    dp_verdict rep = no_blockers"
proof -
  let ?args = "\<lparr>da_target_host = None, da_cafile = None, da_relay = None, da_relay_token = None\<rparr>"
  have t: "\<exists>c. tls_check demo_doctor None empty_disk = (Inr c, empty_disk)"
    by (simp add: tls_check_def Let_def split: sum.split prod.split)
  have st: "\<exists>c. stun_check demo_doctor = Inr c"
    by (simp add: stun_check_def nat_mapping_def demo_doctor_def)
  have rv: "\<exists>c. rendezvous_check demo_doctor \<lparr>to_cafile = None\<rparr> RENDEZVOUS_HEALTH empty_disk = (Inr c, empty_disk)"
    by (simp add: rendezvous_check_def Let_def http_client_def http_builder_def bindIO_def io_ret_def split: sum.split)
  obtain rep where run: "doctor_run demo_doctor ?args empty_disk = (Inr rep, empty_disk)"
    using t st rv by (auto simp: doctor_run_def Let_def io_ret_def)
  have u: "dns_usable demo_doctor DEFAULT_TARGET"
    by (simp add: dns_usable_def demo_doctor_def)
  have tr: "tls_trusted demo_doctor None empty_disk"
    by (simp add: tls_trusted_def demo_doctor_def probe_blocking_def tls_handshake_def tls_connect_def demo_session_def
      captured_leaf_def verify_server_cert_def issuer_of_def Let_def)
  have "dp_verdict rep = no_blockers"
    unfolding doctor_clean_iff [OF run refl]
    using u tr by (simp add: relay_answers_def demo_doctor_def nat_mapping_def http_client_def http_builder_def bindIO_def io_ret_def)
  then show ?thesis using run by simp
qed

end
